(* ===== verification/Spadia_Prelude.thy ===== *)
theory Spadia_Prelude
  imports Main "HOL-Library.Word"
begin

text \<open>
  What every component of the development shares:
  \<^item> the machine types (\<open>uint8_t\<close> \dots \<open>uint64_t\<close> as words, buffers as byte lists);
  \<^item> the fault monad: a C++ operation either returns a value (\<open>Inr\<close>) or runs into a
    state the language gives no meaning to or that aborts the process (\<open>Inl\<close> of a
    \<open>fault\<close>: an access outside its allocation, a null dereference, a failed assertion, a shift or a
    signed operation that overflows, a \<open>free\<close> of memory that is not allocated, an exception
    that leaves the operation);
  \<^item> byte accesses and \<open>memcpy\<close> on a buffer, and the conversion of an \<open>int\<close> to \<open>size_t\<close>;
  \<^item> \<open>std::map\<close> as the sorted list of its entries;
  \<^item> reachable states of a step relation and the invariant rule, as a locale;
  \<^item> generic facts on words and lists.
\<close>

unbundle bit_operations_syntax

section \<open>Machine types\<close>

type_synonym byte = "8 word"
type_synonym u16 = "16 word"
type_synonym u32 = "32 word"
type_synonym u64 = "64 word"
type_synonym bytes = "byte list"

named_theorems fault_simps \<open>evaluation of the fault monad and of buffer accesses\<close>
named_theorems buffer_simps \<open>lengths and contents of written buffers\<close>

section \<open>The fault monad\<close>

datatype fault = OutOfBounds | NullDeref | AssertFailed | BadShift | SignedOverflow | InvalidFree | Thrown | BadConversion | UseAfterFree

type_synonym 'a res = "fault + 'a"

definition bindr :: "'a res \<Rightarrow> ('a \<Rightarrow> 'b res) \<Rightarrow> 'b res" where
  "bindr m f = (case m of Inl e \<Rightarrow> Inl e | Inr x \<Rightarrow> f x)"

lemma bindr_Inr [simp, fault_simps]: "bindr (Inr x) f = f x"
  by (simp add: bindr_def)

lemma bindr_Inl [simp, fault_simps]: "bindr (Inl e) f = Inl e"
  by (simp add: bindr_def)

lemma bindr_eq_Inr: "bindr m f = Inr y \<longleftrightarrow> (\<exists>x. m = Inr x \<and> f x = Inr y)"
  by (cases m) auto

lemma bindr_eq_Inl: "bindr m f = Inl e \<longleftrightarrow> m = Inl e \<or> (\<exists>x. m = Inr x \<and> f x = Inl e)"
  by (cases m) auto

lemma bindr_assoc: "bindr (bindr m f) g = bindr m (\<lambda>x. bindr (f x) g)"
  by (cases m) auto

lemma bindr_cong [fundef_cong]:
  "m = m' \<Longrightarrow> (\<And>x. m' = Inr x \<Longrightarrow> f x = g x) \<Longrightarrow> bindr m f = bindr m' g"
  by (cases m') auto

lemma bindr_okI: "\<exists>x. m = Inr x \<Longrightarrow> (\<And>x. m = Inr x \<Longrightarrow> \<exists>y. f x = Inr y) \<Longrightarrow> \<exists>y. bindr m f = Inr y"
  by auto

text \<open>The short-circuit operators of C++ on conditions that may fault.\<close>

definition andr :: "bool res \<Rightarrow> bool res \<Rightarrow> bool res" where
  "andr a b = bindr a (\<lambda>x. if x then b else Inr False)"

definition orr :: "bool res \<Rightarrow> bool res \<Rightarrow> bool res" where
  "orr a b = bindr a (\<lambda>x. if x then Inr True else b)"

lemma andr_simps [simp, fault_simps]:
  "andr (Inr True) b = b" "andr (Inr False) b = Inr False" "andr (Inl e) b = Inl e"
  by (simp_all add: andr_def)

lemma orr_simps [simp, fault_simps]:
  "orr (Inr True) b = Inr True" "orr (Inr False) b = b" "orr (Inl e) b = Inl e"
  by (simp_all add: orr_def)

section \<open>Buffers\<close>

text \<open>
  A pointer into an allocation is the allocation's contents and an offset. A read or a
  write outside the contents is a fault; a write inside returns the new contents.
\<close>

definition rd8 :: "bytes \<Rightarrow> nat \<Rightarrow> byte res" where
  "rd8 buf i = (if i < length buf then Inr (buf ! i) else Inl OutOfBounds)"

definition wr8 :: "bytes \<Rightarrow> nat \<Rightarrow> byte \<Rightarrow> bytes res" where
  "wr8 buf i v = (if i < length buf then Inr (buf[i := v]) else Inl OutOfBounds)"

text \<open>The same for an index of type \<open>int\<close>.\<close>

definition rd8i :: "bytes \<Rightarrow> int \<Rightarrow> byte res" where
  "rd8i buf i = (if i < 0 then Inl OutOfBounds else rd8 buf (nat i))"

definition eq8 :: "bytes \<Rightarrow> nat \<Rightarrow> byte \<Rightarrow> bool res" where
  "eq8 buf i v = bindr (rd8 buf i) (\<lambda>b. Inr (b = v))"

text \<open>\<open>memcpy\<close> out of and into a buffer.\<close>

definition rd_bytes :: "bytes \<Rightarrow> nat \<Rightarrow> nat \<Rightarrow> bytes res" where
  "rd_bytes buf off n =
     (if off + n \<le> length buf then Inr (take n (drop off buf)) else Inl OutOfBounds)"

definition wr_bytes :: "bytes \<Rightarrow> nat \<Rightarrow> bytes \<Rightarrow> bytes res" where
  "wr_bytes buf off bs =
     (if off + length bs \<le> length buf
      then Inr (take off buf @ bs @ drop (off + length bs) buf) else Inl OutOfBounds)"

lemma rd8_ok [simp, fault_simps]: "i < length buf \<Longrightarrow> rd8 buf i = Inr (buf ! i)"
  by (simp add: rd8_def)

lemma wr8_ok [simp, fault_simps]: "i < length buf \<Longrightarrow> wr8 buf i v = Inr (buf[i := v])"
  by (simp add: wr8_def)

lemma rd8_fault: "\<not> i < length buf \<Longrightarrow> rd8 buf i = Inl OutOfBounds"
  by (simp add: rd8_def)

lemma rd_bytes_ok [simp, fault_simps]:
  "off + n \<le> length buf \<Longrightarrow> rd_bytes buf off n = Inr (take n (drop off buf))"
  by (simp add: rd_bytes_def)

lemma wr_bytes_ok [simp, fault_simps]:
  "off + length bs \<le> length buf \<Longrightarrow>
   wr_bytes buf off bs = Inr (take off buf @ bs @ drop (off + length bs) buf)"
  by (simp add: wr_bytes_def)

lemma wr_bytes_Inr_length: "wr_bytes buf off bs = Inr buf' \<Longrightarrow> length buf' = length buf"
  by (auto simp: wr_bytes_def split: if_splits)

lemma rd_bytes_fault: "\<not> off + n \<le> length buf \<Longrightarrow> rd_bytes buf off n = Inl OutOfBounds"
  by (simp add: rd_bytes_def)

text \<open>Consecutive writes fuse into one.\<close>

lemma wr_bytes_fuse [buffer_simps]:
  assumes "q = p + length xs"
  shows "bindr (wr_bytes buf p xs) (\<lambda>b. wr_bytes b q ys) = wr_bytes buf p (xs @ ys)"
proof (cases "p + length xs + length ys \<le> length buf")
  case True
  then have "min (length buf) p = p" by simp
  with True show ?thesis using assms by (simp add: wr_bytes_def add.commute [of "length ys"] add.assoc)
next
  case False
  then show ?thesis using assms by (auto simp: wr_bytes_def)
qed

lemma wr_bytes_fuse_bind [buffer_simps]:
  "q = p + length xs \<Longrightarrow>
   bindr (wr_bytes buf p xs) (\<lambda>b. bindr (wr_bytes b q ys) f) = bindr (wr_bytes buf p (xs @ ys)) f"
  by (simp add: wr_bytes_fuse [symmetric] bindr_assoc)

text \<open>A later write that covers the end of an earlier one.\<close>

lemma wr_bytes_overwrite:
  assumes "p \<le> q" "q \<le> p + length xs" "p + length xs \<le> q + length ys"
  shows "bindr (wr_bytes buf p xs) (\<lambda>b. wr_bytes b q ys) = wr_bytes buf p (take (q - p) xs @ ys)"
proof (cases "q + length ys \<le> length buf")
  case True
  then have pl: "min (length buf) p = p" using assms by simp
  have "take q (take p buf @ xs @ drop (p + length xs) buf) = take p buf @ take (q - p) xs"
    using True assms by (simp add: pl)
  moreover have "drop (q + length ys) (take p buf @ xs @ drop (p + length xs) buf) = drop (q + length ys) buf"
    using True assms by (simp add: pl add.commute)
  moreover have "p + (q - p + length ys) = q + length ys" using assms by simp
  ultimately show ?thesis using True assms by (simp add: wr_bytes_def pl min_absorb2)
next
  case False
  then have R: "wr_bytes buf p (take (q - p) xs @ ys) = Inl OutOfBounds" using assms by (simp add: wr_bytes_def)
  show ?thesis
  proof (cases "wr_bytes buf p xs")
    case (Inl e)
    then show ?thesis using R by (simp add: wr_bytes_def split: if_splits)
  next
    case (Inr b)
    then show ?thesis using R False wr_bytes_Inr_length [OF Inr] by (simp add: wr_bytes_def [of b])
  qed
qed

lemma wr_bytes_overwrite_bind:
  "p \<le> q \<Longrightarrow> q \<le> p + length xs \<Longrightarrow> p + length xs \<le> q + length ys \<Longrightarrow>
   bindr (wr_bytes buf p xs) (\<lambda>b. bindr (wr_bytes b q ys) f) = bindr (wr_bytes buf p (take (q - p) xs @ ys)) f"
  by (simp add: wr_bytes_overwrite [symmetric] bindr_assoc)

lemma wr8_wr_bytes: "wr8 buf p b = wr_bytes buf p [b]"
  by (auto simp: wr8_def wr_bytes_def upd_conv_take_nth_drop)

text \<open>Writes into a buffer given as a concatenation of pieces.\<close>

lemma wr_bytes_here: "length a = length bs \<Longrightarrow> wr_bytes (a @ b) 0 bs = Inr (bs @ b)"
  by simp

lemma wr_bytes_skip:
  "length a \<le> p \<Longrightarrow> wr_bytes (a @ b) p bs = bindr (wr_bytes b (p - length a) bs) (\<lambda>x. Inr (a @ x))"
  by (auto simp: wr_bytes_def)

text \<open>A \<open>std::string\<close> holds bytes; its characters are the bytes' codes.\<close>

definition to_string :: "bytes \<Rightarrow> string" where
  "to_string bs = map (\<lambda>b. char_of (unat b)) bs"

definition of_string :: "string \<Rightarrow> bytes" where
  "of_string cs = map (\<lambda>c. word_of_nat (of_char c)) cs"

lemma to_string_of_string [simp]: "to_string (of_string cs) = cs"
proof -
  have "char_of (unat (word_of_nat (of_char c) :: byte)) = c" for c :: char
    by (simp add: unat_of_nat of_char_mod_256)
  then show ?thesis by (simp add: to_string_def of_string_def comp_def map_idI)
qed

lemma length_of_string [simp]: "length (of_string cs) = length cs"
  by (simp add: of_string_def)

text \<open>The implicit conversion of a signed value to \<open>size_t\<close> in a mixed comparison.\<close>

definition size_t :: "int \<Rightarrow> nat" where
  "size_t i = nat (i mod 2 ^ 64)"

lemma size_t_id [simp]: "0 \<le> i \<Longrightarrow> i < 2 ^ 64 \<Longrightarrow> size_t i = nat i"
  by (simp add: size_t_def)

text \<open>A value of type \<open>int\<close> computed from others: the arithmetic is undefined outside its range.\<close>

definition int32 :: "int \<Rightarrow> int res" where
  "int32 v = (if - (2 ^ 31) \<le> v \<and> v < 2 ^ 31 then Inr v else Inl SignedOverflow)"

lemma int32_ok [simp, fault_simps]: "- (2 ^ 31) \<le> v \<Longrightarrow> v < 2 ^ 31 \<Longrightarrow> int32 v = Inr v"
  by (simp add: int32_def)

section \<open>Ordered maps\<close>

text \<open>
  A \<open>std::map\<close> is the list of its entries in the order its iterator visits them, by
  ascending key. \<open>find\<close> is \<open>map_of\<close>.
\<close>

type_synonym ('k, 'v) std_map = "('k \<times> 'v) list"

fun map_set :: "'k::linorder \<Rightarrow> 'v \<Rightarrow> ('k, 'v) std_map \<Rightarrow> ('k, 'v) std_map" where
  "map_set k v [] = [(k, v)]"
| "map_set k v ((k', v') # m) =
     (if k < k' then (k, v) # (k', v') # m
      else if k = k' then (k, v) # m
      else (k', v') # map_set k v m)"

definition map_erase :: "'k \<Rightarrow> ('k, 'v) std_map \<Rightarrow> ('k, 'v) std_map" where
  "map_erase k m = filter (\<lambda>e. fst e \<noteq> k) m"

definition map_sorted :: "('k::linorder, 'v) std_map \<Rightarrow> bool" where
  "map_sorted m \<longleftrightarrow> sorted_wrt (<) (map fst m)"

lemma map_sorted_simps [simp]:
  "map_sorted []" "map_sorted (e # m) \<longleftrightarrow> (\<forall>k \<in> fst ` set m. fst e < k) \<and> map_sorted m"
  by (auto simp: map_sorted_def)

lemma fst_set_map_set [simp]: "fst ` set (map_set k v m) = insert k (fst ` set m)"
  by (induction k v m rule: map_set.induct) auto

lemma map_sorted_set: "map_sorted m \<Longrightarrow> map_sorted (map_set k v m)"
  by (induction k v m rule: map_set.induct) auto

lemma map_of_map_set [simp]: "map_of (map_set k v m) = (map_of m)(k \<mapsto> v)"
  by (induction k v m rule: map_set.induct) auto

lemma map_sorted_filter: "map_sorted m \<Longrightarrow> map_sorted (filter P m)"
  by (induction m) auto

lemma map_sorted_erase: "map_sorted m \<Longrightarrow> map_sorted (map_erase k m)"
  by (simp add: map_erase_def map_sorted_filter)

lemma map_of_map_erase [simp]: "map_of (map_erase k m) = (map_of m)(k := None)"
  by (induction m) (auto simp: map_erase_def)

lemma map_sorted_distinct: "map_sorted m \<Longrightarrow> distinct (map fst m)"
  by (induction m) auto

section \<open>Reachable states and invariants\<close>

inductive reachable :: "('s \<Rightarrow> bool) \<Rightarrow> ('s \<Rightarrow> 's \<Rightarrow> bool) \<Rightarrow> 's \<Rightarrow> bool"
  for init :: "'s \<Rightarrow> bool" and step :: "'s \<Rightarrow> 's \<Rightarrow> bool" where
  reach_init: "init s \<Longrightarrow> reachable init step s"
| reach_step: "reachable init step s \<Longrightarrow> step s t \<Longrightarrow> reachable init step t"

text \<open>The contract of a component with state: what holds at the start and every step keeps.\<close>

locale invariant_system =
  fixes init :: "'s \<Rightarrow> bool"
    and step :: "'s \<Rightarrow> 's \<Rightarrow> bool"
    and inv :: "'s \<Rightarrow> bool"
  assumes init_inv: "init s \<Longrightarrow> inv s"
    and step_inv: "inv s \<Longrightarrow> step s t \<Longrightarrow> inv t"
begin

lemma reachable_inv: "reachable init step s \<Longrightarrow> inv s"
  by (induction rule: reachable.induct) (auto intro: init_inv step_inv)

end

section \<open>Keyed tables\<close>

text \<open>
  The contract of the program's tables (maps from keys to objects that are only read by
  \<open>find\<close>): what a lookup returns after an insertion and after a removal, on tables that
  satisfy the implementation's invariant. A client sees the last operation on its key.
\<close>

datatype ('k, 'v) table_op = Ins 'k 'v | Del 'k

fun last_op :: "'k \<Rightarrow> ('k, 'v) table_op \<Rightarrow> 'v option \<Rightarrow> 'v option" where
  "last_op k (Ins k' v) r = (if k' = k then Some v else r)"
| "last_op k (Del k') r = (if k' = k then None else r)"

fun table_step :: "('t \<Rightarrow> 'k \<Rightarrow> 'v \<Rightarrow> 't) \<Rightarrow> ('t \<Rightarrow> 'k \<Rightarrow> 't) \<Rightarrow> ('k, 'v) table_op \<Rightarrow> 't \<Rightarrow> 't" where
  "table_step ins del (Ins k v) t = ins t k v"
| "table_step ins del (Del k) t = del t k"

locale keyed_table =
  fixes ok :: "'t \<Rightarrow> bool"
    and lookup :: "'t \<Rightarrow> 'k \<Rightarrow> 'v option"
    and ins :: "'t \<Rightarrow> 'k \<Rightarrow> 'v \<Rightarrow> 't"
    and del :: "'t \<Rightarrow> 'k \<Rightarrow> 't"
  assumes ok_ins: "ok t \<Longrightarrow> ok (ins t k v)"
    and ok_del: "ok t \<Longrightarrow> ok (del t k)"
    and lookup_ins: "ok t \<Longrightarrow> lookup (ins t k v) k' = (if k = k' then Some v else lookup t k')"
    and lookup_del: "ok t \<Longrightarrow> lookup (del t k) k' = (if k = k' then None else lookup t k')"
begin

lemma step: "ok t \<Longrightarrow> ok (table_step ins del x t) \<and> lookup (table_step ins del x t) k = last_op k x (lookup t k)"
  by (cases x) (simp_all add: ok_ins ok_del lookup_ins lookup_del)

lemma lookup_run: "ok t \<Longrightarrow> lookup (fold (table_step ins del) ops t) k = fold (last_op k) ops (lookup t k)"
  by (induction ops arbitrary: t) (simp_all add: step)

lemma ok_run: "ok t \<Longrightarrow> ok (fold (table_step ins del) ops t)"
  by (induction ops arbitrary: t) (simp_all add: step)

end

interpretation std_map: keyed_table map_sorted map_of "\<lambda>m k v. map_set k v m" "\<lambda>m k. map_erase k m"
  by unfold_locales (simp_all add: map_sorted_set map_sorted_erase)

section \<open>Generic facts\<close>

declare add_2_eq_Suc [simp del] add_2_eq_Suc' [simp del]

lemma neg_less_uint [simp]: "- numeral k < uint (w :: 'a::len word)"
  by (rule less_le_trans [of _ 0]) simp_all

lemma neg_one_less_uint [simp]: "- 1 < uint (w :: 'a::len word)"
  by (rule less_le_trans [of _ 0]) simp_all

lemma unat_succ:
  fixes x y :: "'a::len word"
  assumes "x < y"
  shows "unat (x + 1) = unat x + 1"
proof -
  have "unat x < unat y" using assms by (simp add: word_less_nat_alt)
  moreover have "unat y < 2 ^ LENGTH('a)" by (rule unsigned_less)
  ultimately have "unat x + 1 < 2 ^ LENGTH('a)" by linarith
  moreover have "x + 1 = word_of_nat (unat x + 1)" by simp
  ultimately show ?thesis by (simp only: unat_of_nat mod_less)
qed

lemma sum_ok_iff: "(\<exists>y. (m :: 'a res) = Inr y) \<longleftrightarrow> (\<forall>e. m \<noteq> Inl e)"
  by (cases m) auto

lemma drop_bit_byte_ucast_eq:
  fixes w :: "'a::len word"
  shows "bit (ucast (drop_bit n w) :: byte) k \<longleftrightarrow> k < 8 \<and> bit w (n + k)"
  by (auto simp: bit_simps dest: bit_imp_le_length)

lemma word_xor_right_cancel [simp]: "x XOR z = y XOR z \<longleftrightarrow> x = (y :: 'a::len word)"
proof
  assume "x XOR z = y XOR z"
  then have "(x XOR z) XOR z = (y XOR z) XOR z" by simp
  then show "x = y" by (simp only: xor.assoc xor_self_eq xor.right_neutral)
qed simp

lemma word_xor_left_cancel [simp]: "z XOR x = z XOR y \<longleftrightarrow> x = (y :: 'a::len word)"
  using word_xor_right_cancel [of x z y] by (simp only: xor.commute)

lemma word_xor_eq_0 [simp]: "x XOR y = 0 \<longleftrightarrow> x = (y :: 'a::len word)"
  using word_xor_right_cancel [of x y y] by (simp only: xor_self_eq)

lemma nth_take_append_drop:
  "off + length bs \<le> length buf \<Longrightarrow> i < length buf \<Longrightarrow>
   (take off buf @ bs @ drop (off + length bs) buf) ! i
     = (if off \<le> i \<and> i < off + length bs then bs ! (i - off) else buf ! i)"
  by (auto simp: nth_append min_def)

end
