(* ===== verification/Pool.thy ===== *)
theory Pool
  imports Spadia_Prelude "HOL-Library.Multiset"
begin

text \<open>
  The pool of event loops (\<open>pool.h\<close>, \<open>pool.cpp\<close>): the round-robin choice of a loop with an
  8-bit counter, and \<open>Async\<close>, which posts a function to a loop. A function that has been
  posted is pending until the loop calls \<open>async_cb\<close> on its handle. libuv does not promise an
  order between handles, so \<open>async_cb\<close> takes the position of the handle it is called for.
  The pool has static storage, so its counter starts at zero.
\<close>

unbundle bit_operations_syntax

definition LOOP_NUM :: nat where "LOOP_NUM = 4"

record 'f Pool =
  pool_loops :: "'f list list"
  pool_index :: byte

definition Pool_new :: "'f Pool" where
  "Pool_new = \<lparr>pool_loops = replicate LOOP_NUM [], pool_index = 0\<rparr>"

definition GetLoop :: "'f Pool \<Rightarrow> 'f Pool \<times> nat" where
  "GetLoop self = (let self = self\<lparr>pool_index := pool_index self + 1\<rparr>;
                       i = unat (pool_index self) mod LOOP_NUM in (self, i))"

definition Async :: "'f Pool \<Rightarrow> nat \<Rightarrow> 'f \<Rightarrow> 'f Pool" where
  "Async self loop func = self\<lparr>pool_loops := (pool_loops self)[loop := pool_loops self ! loop @ [func]]\<rparr>"

text \<open>
  The callback for the \<open>k\<close>-th pending handle of a loop: the function to call and the pool
  with the handle closed; \<open>None\<close> if there is no such handle.
\<close>

definition async_cb :: "'f Pool \<Rightarrow> nat \<Rightarrow> nat \<Rightarrow> ('f \<times> 'f Pool) option" where
  "async_cb self loop k =
     (if loop < length (pool_loops self) \<and> k < length (pool_loops self ! loop)
      then let q = pool_loops self ! loop in
           Some (q ! k, self\<lparr>pool_loops := (pool_loops self)[loop := take k q @ drop (k + 1) q]\<rparr>)
      else None)"

section \<open>Pending functions\<close>

definition pool_ok :: "'f Pool \<Rightarrow> bool" where
  "pool_ok self \<longleftrightarrow> length (pool_loops self) = LOOP_NUM"

definition pending :: "'f Pool \<Rightarrow> 'f multiset" where
  "pending self = mset (concat (pool_loops self))"

lemma mset_concat_update:
  "l < length qs \<Longrightarrow> mset (concat (qs[l := q])) + mset (qs ! l) = mset (concat qs) + mset q"
proof (induction qs arbitrary: l)
  case (Cons a qs)
  show ?case
  proof (cases l)
    case (Suc m)
    then show ?thesis using Cons.IH [of m] Cons.prems by (simp add: add.assoc)
  qed (simp add: ac_simps)
qed simp

lemma pool_ok_new [simp]: "pool_ok Pool_new"
  by (simp add: pool_ok_def Pool_new_def)

lemma pending_new [simp]: "pending Pool_new = {#}"
  by (simp add: pending_def Pool_new_def)

lemma GetLoop_fields [simp]:
  "pool_loops (fst (GetLoop self)) = pool_loops self" "pool_ok (fst (GetLoop self)) = pool_ok self"
  "pending (fst (GetLoop self)) = pending self" "snd (GetLoop self) < LOOP_NUM"
  by (simp_all add: GetLoop_def Let_def pool_ok_def pending_def LOOP_NUM_def)

lemma Async_ok [simp]: "pool_ok (Async self loop f) = pool_ok self"
  by (simp add: Async_def pool_ok_def)

lemma pending_Async:
  assumes "pool_ok self" "loop < LOOP_NUM"
  shows "pending (Async self loop f) = add_mset f (pending self)"
  using mset_concat_update [of loop "pool_loops self" "pool_loops self ! loop @ [f]"] assms
  by (simp add: pending_def Async_def pool_ok_def)

lemma async_cb_pending:
  assumes "async_cb self loop k = Some (f, self')"
  shows "pending self = add_mset f (pending self')" "pool_ok self' = pool_ok self" "pool_index self' = pool_index self"
proof -
  let ?q = "pool_loops self ! loop"
  have l: "loop < length (pool_loops self)" "k < length ?q"
    and f: "f = ?q ! k" and s: "self' = self\<lparr>pool_loops := (pool_loops self)[loop := take k ?q @ drop (k + 1) ?q]\<rparr>"
    using assms by (auto simp: async_cb_def Let_def split: if_splits)
  have "?q = take k ?q @ f # drop (k + 1) ?q" using l f id_take_nth_drop [of k ?q] by simp
  then have "mset ?q = add_mset f (mset (take k ?q @ drop (k + 1) ?q))" by (metis mset_append mset.simps(2) union_mset_add_mset_right)
  with mset_concat_update [OF l(1), of "take k ?q @ drop (k + 1) ?q"]
  show "pending self = add_mset f (pending self')" by (simp add: pending_def s)
  show "pool_ok self' = pool_ok self" "pool_index self' = pool_index self" by (simp_all add: s pool_ok_def)
qed

section \<open>Round robin\<close>

fun GetLoops :: "nat \<Rightarrow> 'f Pool \<Rightarrow> 'f Pool \<times> nat list" where
  "GetLoops 0 self = (self, [])"
| "GetLoops (Suc n) self = (let (self, i) = GetLoop self; (self, is) = GetLoops n self in (self, i # is))"

lemma index_mod: "unat (x + 1 :: byte) mod 4 = (unat x + 1) mod 4"
proof -
  have "unat (x + 1) = (unat x + 1) mod 256"
    using unat_word_ariths(1) [of x 1] by simp
  then show ?thesis by (simp add: mod_mod_cancel)
qed

lemma GetLoops_eq: "snd (GetLoops n self) = map (\<lambda>k. (unat (pool_index self) + 1 + k) mod 4) [0..<n]"
proof (induction n arbitrary: self)
  case (Suc n)
  let ?s = "fst (GetLoop self)"
  have i: "pool_index ?s = pool_index self + 1" by (simp add: GetLoop_def Let_def)
  have "snd (GetLoops (Suc n) self) = snd (GetLoop self) # snd (GetLoops n ?s)"
    by (simp add: Let_def split: prod.splits)
  also have "snd (GetLoop self) = (unat (pool_index self) + 1) mod 4"
    using index_mod [of "pool_index self"] by (simp add: GetLoop_def Let_def LOOP_NUM_def)
  also have "snd (GetLoops n ?s) = map (\<lambda>k. (unat (pool_index self) + 1 + Suc k) mod 4) [0..<n]"
    unfolding Suc.IH i
  proof (rule map_cong [OF refl])
    fix k
    have "(unat (pool_index self + 1) + 1 + k) mod 4 = ((unat (pool_index self + 1)) mod 4 + (1 + k)) mod 4"
      by (simp only: mod_add_left_eq add.assoc)
    also have "\<dots> = (unat (pool_index self) + 1 + Suc k) mod 4"
      unfolding index_mod by (simp only: mod_add_left_eq) simp
    finally show "(unat (pool_index self + 1) + 1 + k) mod 4 = (unat (pool_index self) + 1 + Suc k) mod 4" .
  qed
  finally show ?case by (simp add: upt_conv_Cons map_Suc_upt [symmetric] del: upt_Suc)
qed simp

lemma mset_four: "mset (map (\<lambda>k. (a + k) mod 4) [0..<4]) = {#0, 1, 2, 3 :: nat#}"
proof -
  have "a mod 4 = 0 \<or> a mod 4 = 1 \<or> a mod 4 = 2 \<or> a mod 4 = 3" by linarith
  moreover have "[0..<4] = [0, 1, 2, 3 :: nat]" by (simp add: upt_rec)
  moreover have "(a + k) mod 4 = (a mod 4 + k) mod 4" for k by (simp add: mod_add_left_eq)
  ultimately show ?thesis by auto
qed

text \<open>
  C34. The counter's wrap-around at 256 does not disturb the distribution: whatever was asked
  for before, every four consecutive requests get the four loops once each.
\<close>

theorem pool_round_robin:
  assumes "k + 4 \<le> n"
  shows "mset (take 4 (drop k (snd (GetLoops n self)))) = {#0, 1, 2, 3#}"
proof -
  have "take 4 (drop k [0..<n]) = [k..<k + 4]" using assms by simp
  also have "\<dots> = map (\<lambda>j. j + k) [0..<4]" by (simp add: map_add_upt add.commute [of k])
  finally have "take 4 (drop k (snd (GetLoops n self))) = map (\<lambda>j. (unat (pool_index self) + 1 + k + j) mod 4) [0..<4]"
    by (simp add: GetLoops_eq take_map drop_map comp_def add.assoc add.commute [of _ k] add.left_commute)
  then show ?thesis using mset_four [of "unat (pool_index self) + 1 + k"] by simp
qed

theorem pool_round_robin_witness:
  "mset (take 4 (drop 0 (snd (GetLoops 4 \<lparr>pool_loops = replicate 4 ([] :: unit list), pool_index = 254\<rparr>)))) = {#0, 1, 2, 3#}"
  using pool_round_robin [of 0 4 "\<lparr>pool_loops = replicate 4 ([] :: unit list), pool_index = 254\<rparr>"] by simp

end
