(* ===== verification/Byte_IO.thy ===== *)
theory Byte_IO
  imports Spadia_Prelude
begin

text \<open>
  The reader and writer templates of \<open>byte_io.h\<close>. A template instance
  \<open>ByteReader<T, B>\<close> is a function of the byte count \<open>B\<close> at the result type
  \<open>'a word\<close> that stands for \<open>T\<close> (or for the unsigned equivalent \<open>U\<close> of a signed \<open>T\<close>);
  a pointer argument \<open>data\<close> is a buffer and an offset. Values of a signed \<open>T\<close> are integers.
  The lemmas show that the unrolled specialisations agree with the generic loops, that
  both compute the big-endian (little-endian) value of the bytes, and that reading undoes
  writing; the locale \<open>field_codec\<close> is the contract the packet formats rely on.
\<close>

unbundle bit_operations_syntax

section \<open>Unsigned readers\<close>

text \<open>The primary template's loops.\<close>

function InternalReadBigEndian_loop ::
  "nat \<Rightarrow> bytes \<Rightarrow> nat \<Rightarrow> nat \<Rightarrow> 'a::len word \<Rightarrow> 'a word res" where
  "InternalReadBigEndian_loop B data p i val =
     (if i < B
      then bindr (rd8 data (p + i)) (\<lambda>d.
             InternalReadBigEndian_loop B data p (Suc i) (val OR push_bit ((B - 1 - i) * 8) (ucast d)))
      else Inr val)"
  by pat_completeness auto
termination
  by (relation "measure (\<lambda>(B, data, p, i, val). B - i)") auto

declare InternalReadBigEndian_loop.simps [simp del]

definition InternalReadBigEndian :: "nat \<Rightarrow> bytes \<Rightarrow> nat \<Rightarrow> 'a::len word res" where
  "InternalReadBigEndian B data p = InternalReadBigEndian_loop B data p 0 0"

function InternalReadLittleEndian_loop ::
  "nat \<Rightarrow> bytes \<Rightarrow> nat \<Rightarrow> nat \<Rightarrow> 'a::len word \<Rightarrow> 'a word res" where
  "InternalReadLittleEndian_loop B data p i val =
     (if i < B
      then bindr (rd8 data (p + i)) (\<lambda>d.
             InternalReadLittleEndian_loop B data p (Suc i) (val OR push_bit (i * 8) (ucast d)))
      else Inr val)"
  by pat_completeness auto
termination
  by (relation "measure (\<lambda>(B, data, p, i, val). B - i)") auto

declare InternalReadLittleEndian_loop.simps [simp del]

definition InternalReadLittleEndian :: "nat \<Rightarrow> bytes \<Rightarrow> nat \<Rightarrow> 'a::len word res" where
  "InternalReadLittleEndian B data p = InternalReadLittleEndian_loop B data p 0 0"

text \<open>The unrolled specialisations for one, two, four and eight bytes.\<close>

definition ReadBigEndian_1 :: "bytes \<Rightarrow> nat \<Rightarrow> 'a::len word res" where
  "ReadBigEndian_1 data p = bindr (rd8 data p) (\<lambda>d0. Inr (ucast d0))"

definition ReadLittleEndian_1 :: "bytes \<Rightarrow> nat \<Rightarrow> 'a::len word res" where
  "ReadLittleEndian_1 data p = bindr (rd8 data p) (\<lambda>d0. Inr (ucast d0))"

text \<open>The two-byte expression is computed in \<open>int\<close> and then converted to \<open>T\<close>.\<close>

definition ReadBigEndian_2 :: "bytes \<Rightarrow> nat \<Rightarrow> 'a::len word res" where
  "ReadBigEndian_2 data p =
     bindr (rd8 data p) (\<lambda>d0. bindr (rd8 data (p + 1)) (\<lambda>d1.
       Inr (ucast (push_bit 8 (ucast d0) OR ucast d1 :: u32))))"

definition ReadLittleEndian_2 :: "bytes \<Rightarrow> nat \<Rightarrow> 'a::len word res" where
  "ReadLittleEndian_2 data p =
     bindr (rd8 data p) (\<lambda>d0. bindr (rd8 data (p + 1)) (\<lambda>d1.
       Inr (ucast (ucast d0 OR push_bit 8 (ucast d1) :: u32))))"

definition Get :: "bytes \<Rightarrow> nat \<Rightarrow> nat \<Rightarrow> 'a::len word res" where
  "Get data p index = bindr (rd8 data (p + index)) (\<lambda>d. Inr (ucast d))"

definition ReadBigEndian_4 :: "bytes \<Rightarrow> nat \<Rightarrow> 'a::len word res" where
  "ReadBigEndian_4 data p =
     bindr (Get data p 0) (\<lambda>g0. bindr (Get data p 1) (\<lambda>g1.
     bindr (Get data p 2) (\<lambda>g2. bindr (Get data p 3) (\<lambda>g3.
       Inr (push_bit 24 g0 OR push_bit 16 g1 OR push_bit 8 g2 OR g3)))))"

definition ReadLittleEndian_4 :: "bytes \<Rightarrow> nat \<Rightarrow> 'a::len word res" where
  "ReadLittleEndian_4 data p =
     bindr (Get data p 0) (\<lambda>g0. bindr (Get data p 1) (\<lambda>g1.
     bindr (Get data p 2) (\<lambda>g2. bindr (Get data p 3) (\<lambda>g3.
       Inr (g0 OR push_bit 8 g1 OR push_bit 16 g2 OR push_bit 24 g3)))))"

definition ReadBigEndian_8 :: "bytes \<Rightarrow> nat \<Rightarrow> 'a::len word res" where
  "ReadBigEndian_8 data p =
     bindr (Get data p 0) (\<lambda>g0. bindr (Get data p 1) (\<lambda>g1.
     bindr (Get data p 2) (\<lambda>g2. bindr (Get data p 3) (\<lambda>g3.
     bindr (Get data p 4) (\<lambda>g4. bindr (Get data p 5) (\<lambda>g5.
     bindr (Get data p 6) (\<lambda>g6. bindr (Get data p 7) (\<lambda>g7.
       Inr (push_bit 56 g0 OR push_bit 48 g1 OR push_bit 40 g2 OR push_bit 32 g3 OR
            push_bit 24 g4 OR push_bit 16 g5 OR push_bit 8 g6 OR g7)))))))))"

definition ReadLittleEndian_8 :: "bytes \<Rightarrow> nat \<Rightarrow> 'a::len word res" where
  "ReadLittleEndian_8 data p =
     bindr (Get data p 0) (\<lambda>g0. bindr (Get data p 1) (\<lambda>g1.
     bindr (Get data p 2) (\<lambda>g2. bindr (Get data p 3) (\<lambda>g3.
     bindr (Get data p 4) (\<lambda>g4. bindr (Get data p 5) (\<lambda>g5.
     bindr (Get data p 6) (\<lambda>g6. bindr (Get data p 7) (\<lambda>g7.
       Inr (g0 OR push_bit 8 g1 OR push_bit 16 g2 OR push_bit 24 g3 OR
            push_bit 32 g4 OR push_bit 40 g5 OR push_bit 48 g6 OR push_bit 56 g7)))))))))"

text \<open>Template selection: a partial specialisation is preferred over the primary template.\<close>

definition ReadBigEndian :: "nat \<Rightarrow> bytes \<Rightarrow> nat \<Rightarrow> 'a::len word res" where
  "ReadBigEndian B data p =
     (if B = 1 then ReadBigEndian_1 data p
      else if B = 2 then ReadBigEndian_2 data p
      else if B = 4 then ReadBigEndian_4 data p
      else if B = 8 then ReadBigEndian_8 data p
      else InternalReadBigEndian B data p)"

definition ReadLittleEndian :: "nat \<Rightarrow> bytes \<Rightarrow> nat \<Rightarrow> 'a::len word res" where
  "ReadLittleEndian B data p =
     (if B = 1 then ReadLittleEndian_1 data p
      else if B = 2 then ReadLittleEndian_2 data p
      else if B = 4 then ReadLittleEndian_4 data p
      else if B = 8 then ReadLittleEndian_8 data p
      else InternalReadLittleEndian B data p)"

section \<open>Unsigned writers\<close>

function WriteBigEndian_loop :: "nat \<Rightarrow> bytes \<Rightarrow> nat \<Rightarrow> 'a::len word \<Rightarrow> nat \<Rightarrow> bytes res" where
  "WriteBigEndian_loop B data p val i =
     (if i < B
      then bindr (wr8 data (p + i) (ucast (drop_bit ((B - 1 - i) * 8) val))) (\<lambda>data'.
             WriteBigEndian_loop B data' p val (Suc i))
      else Inr data)"
  by pat_completeness auto
termination
  by (relation "measure (\<lambda>(B, data, p, val, i). B - i)") auto

declare WriteBigEndian_loop.simps [simp del]

function WriteLittleEndian_loop :: "nat \<Rightarrow> bytes \<Rightarrow> nat \<Rightarrow> 'a::len word \<Rightarrow> nat \<Rightarrow> bytes res" where
  "WriteLittleEndian_loop B data p val i =
     (if i < B
      then bindr (wr8 data (p + i) (ucast (drop_bit (i * 8) val))) (\<lambda>data'.
             WriteLittleEndian_loop B data' p val (Suc i))
      else Inr data)"
  by pat_completeness auto
termination
  by (relation "measure (\<lambda>(B, data, p, val, i). B - i)") auto

declare WriteLittleEndian_loop.simps [simp del]

text \<open>The unrolled writers store the listed bytes at consecutive addresses, in order.\<close>

fun store_bytes :: "bytes \<Rightarrow> nat \<Rightarrow> bytes \<Rightarrow> bytes res" where
  "store_bytes data p [] = Inr data"
| "store_bytes data p (b # bs) = bindr (wr8 data p b) (\<lambda>data'. store_bytes data' (Suc p) bs)"

definition WriteBigEndian_1 :: "bytes \<Rightarrow> nat \<Rightarrow> 'a::len word \<Rightarrow> bytes res" where
  "WriteBigEndian_1 data p val = store_bytes data p [ucast val]"

definition WriteLittleEndian_1 :: "bytes \<Rightarrow> nat \<Rightarrow> 'a::len word \<Rightarrow> bytes res" where
  "WriteLittleEndian_1 data p val = store_bytes data p [ucast val]"

definition WriteBigEndian_2 :: "bytes \<Rightarrow> nat \<Rightarrow> 'a::len word \<Rightarrow> bytes res" where
  "WriteBigEndian_2 data p val = store_bytes data p [ucast (drop_bit 8 val), ucast val]"

definition WriteLittleEndian_2 :: "bytes \<Rightarrow> nat \<Rightarrow> 'a::len word \<Rightarrow> bytes res" where
  "WriteLittleEndian_2 data p val = store_bytes data p [ucast val, ucast (drop_bit 8 val)]"

definition WriteBigEndian_4 :: "bytes \<Rightarrow> nat \<Rightarrow> 'a::len word \<Rightarrow> bytes res" where
  "WriteBigEndian_4 data p val =
     store_bytes data p [ucast (drop_bit 24 val), ucast (drop_bit 16 val), ucast (drop_bit 8 val), ucast val]"

definition WriteLittleEndian_4 :: "bytes \<Rightarrow> nat \<Rightarrow> 'a::len word \<Rightarrow> bytes res" where
  "WriteLittleEndian_4 data p val =
     store_bytes data p [ucast val, ucast (drop_bit 8 val), ucast (drop_bit 16 val), ucast (drop_bit 24 val)]"

definition WriteBigEndian_8 :: "bytes \<Rightarrow> nat \<Rightarrow> 'a::len word \<Rightarrow> bytes res" where
  "WriteBigEndian_8 data p val =
     store_bytes data p
       [ucast (drop_bit 56 val), ucast (drop_bit 48 val), ucast (drop_bit 40 val), ucast (drop_bit 32 val),
        ucast (drop_bit 24 val), ucast (drop_bit 16 val), ucast (drop_bit 8 val), ucast val]"

definition WriteLittleEndian_8 :: "bytes \<Rightarrow> nat \<Rightarrow> 'a::len word \<Rightarrow> bytes res" where
  "WriteLittleEndian_8 data p val =
     store_bytes data p
       [ucast val, ucast (drop_bit 8 val), ucast (drop_bit 16 val), ucast (drop_bit 24 val),
        ucast (drop_bit 32 val), ucast (drop_bit 40 val), ucast (drop_bit 48 val), ucast (drop_bit 56 val)]"

definition WriteBigEndian :: "nat \<Rightarrow> bytes \<Rightarrow> nat \<Rightarrow> 'a::len word \<Rightarrow> bytes res" where
  "WriteBigEndian B data p val =
     (if B = 1 then WriteBigEndian_1 data p val
      else if B = 2 then WriteBigEndian_2 data p val
      else if B = 4 then WriteBigEndian_4 data p val
      else if B = 8 then WriteBigEndian_8 data p val
      else WriteBigEndian_loop B data p val 0)"

definition WriteLittleEndian :: "nat \<Rightarrow> bytes \<Rightarrow> nat \<Rightarrow> 'a::len word \<Rightarrow> bytes res" where
  "WriteLittleEndian B data p val =
     (if B = 1 then WriteLittleEndian_1 data p val
      else if B = 2 then WriteLittleEndian_2 data p val
      else if B = 4 then WriteLittleEndian_4 data p val
      else if B = 8 then WriteLittleEndian_8 data p val
      else WriteLittleEndian_loop B data p val 0)"

section \<open>Signed readers and writers\<close>

text \<open>
  \<open>T\<close> is the signed type of width \<open>LENGTH('a)\<close>; its values are integers and bitwise
  operations on them are those of two's complement. In \<open>SignExtend\<close> the literal \<open>1\<close> has
  type \<open>int\<close>, so a shift by 32 or more has no defined result.
\<close>

definition sizeof :: "'a::len word itself \<Rightarrow> nat" where
  "sizeof _ = LENGTH('a) div 8"

definition ReinterpretAsSigned :: "'a::len word \<Rightarrow> int" where
  "ReinterpretAsSigned unsigned_val =
     (let kUnsignedHighestBitMask = push_bit (LENGTH('a) - 1) 1;
          kSignedHighestBitMask = - (2 ^ (LENGTH('a) - 1))
      in if unsigned_val AND kUnsignedHighestBitMask \<noteq> 0
         then uint (unsigned_val AND NOT kUnsignedHighestBitMask) OR kSignedHighestBitMask
         else uint unsigned_val)"

definition SignExtend :: "nat \<Rightarrow> 'a::len word \<Rightarrow> 'a word res" where
  "SignExtend B val =
     (let kMsb = (ucast (drop_bit ((B - 1) * 8) val) :: byte)
      in if kMsb AND 0x80 \<noteq> 0
         then let sh = (B mod sizeof TYPE('a word)) * 8
              in if sh \<ge> 32 then Inl BadShift
                 else let kUsedBitsMask = word_of_int (2 ^ sh - 1)
                      in Inr (NOT kUsedBitsMask OR val)
         else Inr val)"

definition ReadBigEndian_signed :: "'a::len word itself \<Rightarrow> nat \<Rightarrow> bytes \<Rightarrow> nat \<Rightarrow> int res" where
  "ReadBigEndian_signed U B data p =
     bindr (ReadBigEndian B data p) (\<lambda>unsigned_val :: 'a word.
     bindr (if B < sizeof TYPE('a word) then SignExtend B unsigned_val else Inr unsigned_val) (\<lambda>u.
       Inr (ReinterpretAsSigned u)))"

definition ReadLittleEndian_signed :: "'a::len word itself \<Rightarrow> nat \<Rightarrow> bytes \<Rightarrow> nat \<Rightarrow> int res" where
  "ReadLittleEndian_signed U B data p =
     bindr (ReadLittleEndian B data p) (\<lambda>unsigned_val :: 'a word.
     bindr (if B < sizeof TYPE('a word) then SignExtend B unsigned_val else Inr unsigned_val) (\<lambda>u.
       Inr (ReinterpretAsSigned u)))"

definition ReinterpretAsUnsigned :: "int \<Rightarrow> 'a::len word" where
  "ReinterpretAsUnsigned val = word_of_int val"

definition WriteBigEndian_signed :: "'a::len word itself \<Rightarrow> nat \<Rightarrow> bytes \<Rightarrow> nat \<Rightarrow> int \<Rightarrow> bytes res" where
  "WriteBigEndian_signed U B data p val =
     WriteBigEndian B data p (ReinterpretAsUnsigned val :: 'a word)"

definition WriteLittleEndian_signed :: "'a::len word itself \<Rightarrow> nat \<Rightarrow> bytes \<Rightarrow> nat \<Rightarrow> int \<Rightarrow> bytes res" where
  "WriteLittleEndian_signed U B data p val =
     WriteLittleEndian B data p (ReinterpretAsUnsigned val :: 'a word)"

section \<open>The value of a byte string\<close>

text \<open>Reference semantics: the positional value of the bytes, most significant first.\<close>

definition be_word :: "bytes \<Rightarrow> 'a::len word" where
  "be_word bs = foldl (\<lambda>v b. push_bit 8 v OR ucast b) 0 bs"

definition be_bytes :: "nat \<Rightarrow> 'a::len word \<Rightarrow> bytes" where
  "be_bytes B w = map (\<lambda>i. ucast (drop_bit ((B - 1 - i) * 8) w)) [0..<B]"

lemma foldl_be: "foldl (\<lambda>v b. push_bit 8 v OR ucast b) v bs =
    push_bit (8 * length bs) v OR (be_word bs :: 'a::len word)"
  unfolding be_word_def
proof (induction bs arbitrary: v)
  case Nil
  then show ?case by simp
next
  case (Cons b bs)
  show ?case
    by (simp add: Cons.IH [of "push_bit 8 v OR ucast b"] Cons.IH [of "ucast b"] push_bit_or or.assoc
        add.commute)
qed

lemma be_word_Nil [simp]: "be_word [] = 0"
  by (simp add: be_word_def)

lemma be_word_Cons: "be_word (b # bs) = push_bit (8 * length bs) (ucast b) OR (be_word bs :: 'a::len word)"
  using foldl_be [of "ucast b :: 'a word" bs] by (simp add: be_word_def)

lemma bit_be_word:
  "bit (be_word bs :: 'a::len word) k \<longleftrightarrow>
     k < LENGTH('a) \<and> k < 8 * length bs \<and> bit (bs ! (length bs - 1 - k div 8)) (k mod 8)"
proof (induction bs)
  case Nil
  then show ?case by simp
next
  case (Cons b bs)
  let ?n = "length bs"
  have "bit (be_word (b # bs) :: 'a word) k \<longleftrightarrow> k < LENGTH('a) \<and>
      (8 * ?n \<le> k \<and> k - 8 * ?n < 8 \<and> bit b (k - 8 * ?n) \<or> bit (be_word bs :: 'a word) k)"
    by (auto simp: be_word_Cons bit_simps dest: bit_imp_le_length)
  moreover have "?n - k div 8 = 0" and "k mod 8 = k - 8 * ?n" if "8 * ?n \<le> k" "k < 8 * ?n + 8"
  proof -
    have "k div 8 = ?n" using that by (intro div_nat_eqI) auto
    then show "?n - k div 8 = 0" "k mod 8 = k - 8 * ?n" by (simp_all add: minus_mult_div_eq_mod [symmetric])
  qed
  moreover have "?n - k div 8 = Suc (?n - 1 - k div 8)" if "k < 8 * ?n"
    using that by (simp add: less_mult_imp_div_less mult.commute Suc_diff_Suc)
  ultimately show ?case
    by (cases "k < 8 * ?n") (auto simp: Cons.IH)
qed

lemma length_be_bytes [simp, buffer_simps]: "length (be_bytes B w) = B"
  by (simp add: be_bytes_def)

lemma be_bytes_nth: "i < B \<Longrightarrow> be_bytes B w ! i = ucast (drop_bit ((B - 1 - i) * 8) w)"
  by (simp add: be_bytes_def)

lemma be_word_be_bytes:
  fixes w :: "'a::len word"
  shows "be_word (be_bytes B w) = take_bit (8 * B) w"
proof (rule bit_word_eqI)
  fix k assume "k < LENGTH('a)"
  show "bit (be_word (be_bytes B w) :: 'a word) k \<longleftrightarrow> bit (take_bit (8 * B) w) k"
  proof (cases "k < 8 * B")
    case True
    then have i: "B - 1 - k div 8 < B" "B - 1 - (B - 1 - k div 8) = k div 8"
      by (auto simp: less_mult_imp_div_less mult.commute)
    then show ?thesis
      using True \<open>k < LENGTH('a)\<close>
      by (simp add: bit_be_word be_bytes_nth drop_bit_byte_ucast_eq bit_take_bit_iff)
  next
    case False
    then show ?thesis by (simp add: bit_be_word bit_take_bit_iff)
  qed
qed

lemma be_word_be_bytes_full: "LENGTH('a) = 8 * B \<Longrightarrow> be_word (be_bytes B w) = (w :: 'a::len word)"
  by (simp add: be_word_be_bytes take_bit_word_eq_self)

lemma be_word_be_bytes_16 [simp]: "be_word (be_bytes 2 (w :: u16)) = w"
  and be_word_be_bytes_32 [simp]: "be_word (be_bytes 4 (v :: u32)) = v"
  by (simp_all add: be_word_be_bytes_full)

lemma be_bytes_be_word:
  assumes "8 * length bs \<le> LENGTH('a)"
  shows "be_bytes (length bs) (be_word bs :: 'a::len word) = bs"
proof (rule nth_equalityI)
  fix i assume "i < length (be_bytes (length bs) (be_word bs :: 'a word))"
  then have i: "i < length bs" by simp
  show "be_bytes (length bs) (be_word bs :: 'a word) ! i = bs ! i"
  proof (rule bit_word_eqI)
    fix k assume k: "k < LENGTH(8)"
    let ?j = "(length bs - 1 - i) * 8 + k"
    have "?j div 8 = length bs - 1 - i" "?j mod 8 = k" using k by auto
    moreover have "?j < 8 * length bs"
    proof -
      have "(length bs - 1 - i) * 8 + 8 \<le> 8 * length bs" using i by (cases "length bs") auto
      then show ?thesis using k by simp
    qed
    ultimately show "bit (be_bytes (length bs) (be_word bs :: 'a word) ! i) k = bit (bs ! i) k"
      using i k assms by (simp add: be_bytes_nth drop_bit_byte_ucast_eq bit_be_word)
  qed
qed simp

lemma store_bytes_eq: "bs \<noteq> [] \<Longrightarrow> store_bytes buf p bs = wr_bytes buf p bs"
proof (induction bs arbitrary: buf p)
  case Nil
  then show ?case by simp
next
  case (Cons b bs)
  show ?case
  proof (cases "bs = []")
    case True
    then show ?thesis by (cases "wr8 buf p b") (auto simp: wr8_wr_bytes)
  next
    case False
    then show ?thesis by (simp add: Cons.IH wr8_wr_bytes wr_bytes_fuse)
  qed
qed

section \<open>Readers compute the value of the bytes\<close>

lemma InternalReadBigEndian_loop_eq:
  "p + B \<le> length data \<Longrightarrow> i \<le> B \<Longrightarrow>
   InternalReadBigEndian_loop B data p i val = Inr (val OR be_word (take (B - i) (drop (p + i) data)))"
proof (induction B data p i val rule: InternalReadBigEndian_loop.induct)
  case (1 B data p i val)
  show ?case
  proof (cases "i < B")
    case True
    let ?bs = "take (B - Suc i) (drop (p + Suc i) data)"
    have split: "take (B - i) (drop (p + i) data) = data ! (p + i) # ?bs"
      using True "1.prems" by (simp add: Cons_nth_drop_Suc [symmetric] take_Cons' )
    have len: "length ?bs = B - 1 - i" using True "1.prems" by simp
    have "InternalReadBigEndian_loop B data p i val
        = Inr ((val OR push_bit ((B - 1 - i) * 8) (ucast (data ! (p + i)))) OR be_word ?bs)"
      using True "1.prems" "1.IH" [OF True, of "data ! (p + i)"]
      by (simp add: InternalReadBigEndian_loop.simps [of B data p i val])
    then show ?thesis
      by (simp only: split be_word_Cons len or.assoc mult.commute [of 8])
  next
    case False
    then show ?thesis using "1.prems" by (subst InternalReadBigEndian_loop.simps) simp
  qed
qed

lemma InternalReadBigEndian_loop_fault:
  "\<not> p + B \<le> length data \<Longrightarrow> i < B \<Longrightarrow> InternalReadBigEndian_loop B data p i val = Inl OutOfBounds"
proof (induction B data p i val rule: InternalReadBigEndian_loop.induct)
  case (1 B data p i val)
  show ?case
  proof (cases "p + i < length data")
    case True
    then have "Suc i < B" using "1.prems" by linarith
    then show ?thesis using True "1.prems" "1.IH"
      by (simp add: InternalReadBigEndian_loop.simps [of B data p i val])
  next
    case False
    then show ?thesis using "1.prems"
      by (simp add: InternalReadBigEndian_loop.simps [of B data p i val] rd8_fault)
  qed
qed

text \<open>A reader of \<open>B\<close> bytes as one access to the buffer.\<close>

definition read_be_spec :: "nat \<Rightarrow> bytes \<Rightarrow> nat \<Rightarrow> 'a::len word res" where
  "read_be_spec B data p = bindr (rd_bytes data p B) (\<lambda>bs. Inr (be_word bs))"

lemma InternalReadBigEndian_spec: "0 < B \<Longrightarrow> InternalReadBigEndian B data p = read_be_spec B data p"
  by (cases "p + B \<le> length data")
    (auto simp: InternalReadBigEndian_def read_be_spec_def InternalReadBigEndian_loop_eq
      InternalReadBigEndian_loop_fault rd_bytes_fault)

lemma rd8_Get: "Get data p i = bindr (rd8 data (p + i)) (\<lambda>d. Inr (ucast d))"
  by (simp add: Get_def)

lemma upt_2: "[0..<2] = [0, 1]"
  and upt_4: "[0..<4] = [0, 1, 2, 3]"
  and upt_8: "[0..<8] = [0, 1, 2, 3, 4, 5, 6, 7]"
  by (simp_all add: upt_rec [of _ "numeral k" for k])

lemma take_drop_map_nth:
  "p + n \<le> length d \<Longrightarrow> take n (drop p d) = map (\<lambda>i. d ! (p + i)) [0..<n]"
  by (auto intro: nth_equalityI)

lemmas read_be_spec_unfold = read_be_spec_def rd8_Get take_drop_map_nth upt_2 upt_4 upt_8 be_word_Cons or.assoc

lemma ReadBigEndian_1_spec: "ReadBigEndian_1 data p = read_be_spec 1 data p"
  by (cases "p + 1 \<le> length data")
    (auto simp: ReadBigEndian_1_def read_be_spec_unfold rd8_def rd_bytes_def)

lemma ReadBigEndian_2_spec: "ReadBigEndian_2 data p = (read_be_spec 2 data p :: 'a::len word res)"
proof (cases "p + 2 \<le> length data")
  case True
  have "ucast (push_bit 8 (ucast a) OR ucast b :: u32) = (push_bit 8 (ucast a) OR ucast b :: 'a word)" for a b :: byte
    by (rule bit_word_eqI) (auto simp: bit_simps dest: bit_imp_le_length)
  with True show ?thesis
    by (simp add: ReadBigEndian_2_def read_be_spec_unfold)
next
  case False
  then show ?thesis
    by (auto simp: ReadBigEndian_2_def read_be_spec_def rd_bytes_fault rd8_def)
qed

lemma ReadBigEndian_4_spec: "ReadBigEndian_4 data p = read_be_spec 4 data p"
proof (cases "p + 4 \<le> length data")
  case True
  then show ?thesis
    by (simp add: ReadBigEndian_4_def read_be_spec_unfold)
next
  case False
  then show ?thesis
    by (auto simp: ReadBigEndian_4_def read_be_spec_def rd8_Get rd_bytes_fault rd8_def)
qed

lemma ReadBigEndian_8_spec: "ReadBigEndian_8 data p = read_be_spec 8 data p"
proof (cases "p + 8 \<le> length data")
  case True
  then show ?thesis
    by (simp add: ReadBigEndian_8_def read_be_spec_unfold)
next
  case False
  then show ?thesis
    by (auto simp: ReadBigEndian_8_def read_be_spec_def rd8_Get rd_bytes_fault rd8_def)
qed

lemmas read_be_specs = ReadBigEndian_1_spec ReadBigEndian_2_spec ReadBigEndian_4_spec ReadBigEndian_8_spec
  InternalReadBigEndian_spec

lemma ReadBigEndian_eq_spec: "0 < B \<Longrightarrow> ReadBigEndian B data p = read_be_spec B data p"
  by (simp add: ReadBigEndian_def read_be_specs del: One_nat_def)


section \<open>Writers\<close>

lemma WriteBigEndian_loop_eq:
  "i < B \<Longrightarrow> WriteBigEndian_loop B data p val i = wr_bytes data (p + i) (drop i (be_bytes B val))"
proof (induction B data p val i rule: WriteBigEndian_loop.induct)
  case (1 B data p val i)
  let ?b = "ucast (drop_bit ((B - 1 - i) * 8) val) :: byte"
  have split: "drop i (be_bytes B val) = ?b # drop (Suc i) (be_bytes B val)"
    using "1.prems" by (simp add: Cons_nth_drop_Suc [symmetric] be_bytes_nth)
  show ?case
  proof (cases "Suc i < B")
    case True
    have "WriteBigEndian_loop B data p val i =
        bindr (wr8 data (p + i) ?b) (\<lambda>d. wr_bytes d (p + Suc i) (drop (Suc i) (be_bytes B val)))"
      using "1.prems" True "1.IH"
      by (subst WriteBigEndian_loop.simps) (simp cong: bindr_cong)
    then show ?thesis
      by (simp add: split wr8_wr_bytes wr_bytes_fuse)
  next
    case False
    then have "WriteBigEndian_loop B data' p val (Suc i) = Inr data'" for data'
      by (simp add: WriteBigEndian_loop.simps [of B data' p val "Suc i"])
    moreover have "drop (Suc i) (be_bytes B val) = []" using False by simp
    ultimately show ?thesis
      using "1.prems" split by (cases "wr8 data (p + i) ?b")
        (auto simp: WriteBigEndian_loop.simps [of B data p val i] wr8_wr_bytes)
  qed
qed

lemma be_bytes_unfold:
  "be_bytes 1 w = [ucast w]"
  "be_bytes 2 w = [ucast (drop_bit 8 w), ucast w]"
  "be_bytes 4 w = [ucast (drop_bit 24 w), ucast (drop_bit 16 w), ucast (drop_bit 8 w), ucast w]"
  "be_bytes 8 w = [ucast (drop_bit 56 w), ucast (drop_bit 48 w), ucast (drop_bit 40 w), ucast (drop_bit 32 w),
     ucast (drop_bit 24 w), ucast (drop_bit 16 w), ucast (drop_bit 8 w), ucast w]"
  by (simp_all add: be_bytes_def upt_2 upt_4 upt_8)

lemma WriteBigEndian_eq: "0 < B \<Longrightarrow> WriteBigEndian B data p val = wr_bytes data p (be_bytes B val)"
  by (auto simp: WriteBigEndian_def WriteBigEndian_1_def WriteBigEndian_2_def WriteBigEndian_4_def
      WriteBigEndian_8_def be_bytes_unfold store_bytes_eq WriteBigEndian_loop_eq
      simp del: One_nat_def store_bytes.simps)

section \<open>Little endian\<close>

definition le_bytes :: "nat \<Rightarrow> 'a::len word \<Rightarrow> bytes" where
  "le_bytes B w = rev (be_bytes B w)"

definition read_le_spec :: "nat \<Rightarrow> bytes \<Rightarrow> nat \<Rightarrow> 'a::len word res" where
  "read_le_spec B data p = bindr (rd_bytes data p B) (\<lambda>bs. Inr (be_word (rev bs)))"

lemma length_le_bytes [simp, buffer_simps]: "length (le_bytes B w) = B"
  by (simp add: le_bytes_def)

lemma le_bytes_nth: "i < B \<Longrightarrow> le_bytes B w ! i = ucast (drop_bit (i * 8) w)"
  by (simp add: le_bytes_def rev_nth be_bytes_nth)

lemma be_word_snoc: "be_word (bs @ [b]) = push_bit 8 (be_word bs) OR (ucast b :: 'a::len word)"
  by (simp add: be_word_def)

lemma InternalReadLittleEndian_loop_eq:
  "p + B \<le> length data \<Longrightarrow> i \<le> B \<Longrightarrow>
   InternalReadLittleEndian_loop B data p i val =
     Inr (val OR push_bit (i * 8) (be_word (rev (take (B - i) (drop (p + i) data)))))"
proof (induction B data p i val rule: InternalReadLittleEndian_loop.induct)
  case (1 B data p i val)
  show ?case
  proof (cases "i < B")
    case True
    let ?bs = "take (B - Suc i) (drop (p + Suc i) data)"
    have split: "take (B - i) (drop (p + i) data) = data ! (p + i) # ?bs"
      using True "1.prems" by (simp add: Cons_nth_drop_Suc [symmetric] take_Cons')
    show ?thesis
      using True "1.prems" "1.IH" [OF True, of "data ! (p + i)"]
      by (simp add: InternalReadLittleEndian_loop.simps [of B data p i val] split be_word_snoc push_bit_or
          or.assoc or.commute [of "push_bit _ (ucast _)"] add.commute [of 8])
  next
    case False
    then show ?thesis using "1.prems" by (subst InternalReadLittleEndian_loop.simps) simp
  qed
qed

lemma InternalReadLittleEndian_loop_fault:
  "\<not> p + B \<le> length data \<Longrightarrow> i < B \<Longrightarrow> InternalReadLittleEndian_loop B data p i val = Inl OutOfBounds"
proof (induction B data p i val rule: InternalReadLittleEndian_loop.induct)
  case (1 B data p i val)
  show ?case
  proof (cases "p + i < length data")
    case True
    then have "Suc i < B" using "1.prems" by linarith
    then show ?thesis using True "1.prems" "1.IH"
      by (simp add: InternalReadLittleEndian_loop.simps [of B data p i val])
  next
    case False
    then show ?thesis using "1.prems"
      by (simp add: InternalReadLittleEndian_loop.simps [of B data p i val] rd8_fault)
  qed
qed

lemma InternalReadLittleEndian_spec: "0 < B \<Longrightarrow> InternalReadLittleEndian B data p = read_le_spec B data p"
  by (cases "p + B \<le> length data")
    (auto simp: InternalReadLittleEndian_def read_le_spec_def InternalReadLittleEndian_loop_eq
      InternalReadLittleEndian_loop_fault rd_bytes_fault)

lemmas or_ac = or.assoc or.commute or.left_commute
lemmas read_le_spec_unfold = read_le_spec_def rd8_Get take_drop_map_nth upt_2 upt_4 upt_8 be_word_Cons or_ac

lemma ReadLittleEndian_1_spec: "ReadLittleEndian_1 data p = read_le_spec 1 data p"
  by (cases "p + 1 \<le> length data")
    (auto simp: ReadLittleEndian_1_def read_le_spec_unfold rd8_def rd_bytes_def)

lemma ReadLittleEndian_2_spec: "ReadLittleEndian_2 data p = (read_le_spec 2 data p :: 'a::len word res)"
proof (cases "p + 2 \<le> length data")
  case True
  have "ucast (ucast b OR push_bit 8 (ucast a) :: u32) = (ucast b OR push_bit 8 (ucast a) :: 'a word)" for a b :: byte
    by (rule bit_word_eqI) (auto simp: bit_simps dest: bit_imp_le_length)
  with True show ?thesis
    by (simp add: ReadLittleEndian_2_def read_le_spec_unfold)
next
  case False
  then show ?thesis
    by (auto simp: ReadLittleEndian_2_def read_le_spec_def rd_bytes_fault rd8_def)
qed

lemma ReadLittleEndian_4_spec: "ReadLittleEndian_4 data p = read_le_spec 4 data p"
  by (cases "p + 4 \<le> length data")
    (auto simp: ReadLittleEndian_4_def read_le_spec_unfold rd_bytes_fault rd8_def)

lemma ReadLittleEndian_8_spec: "ReadLittleEndian_8 data p = read_le_spec 8 data p"
  by (cases "p + 8 \<le> length data")
    (auto simp: ReadLittleEndian_8_def read_le_spec_unfold rd_bytes_fault rd8_def)

lemmas read_le_specs = ReadLittleEndian_1_spec ReadLittleEndian_2_spec ReadLittleEndian_4_spec
  ReadLittleEndian_8_spec InternalReadLittleEndian_spec

lemma ReadLittleEndian_eq_spec: "0 < B \<Longrightarrow> ReadLittleEndian B data p = read_le_spec B data p"
  by (simp add: ReadLittleEndian_def read_le_specs del: One_nat_def)

lemma WriteLittleEndian_loop_eq:
  "i < B \<Longrightarrow> WriteLittleEndian_loop B data p val i = wr_bytes data (p + i) (drop i (le_bytes B val))"
proof (induction B data p val i rule: WriteLittleEndian_loop.induct)
  case (1 B data p val i)
  let ?b = "ucast (drop_bit (i * 8) val) :: byte"
  have split: "drop i (le_bytes B val) = ?b # drop (Suc i) (le_bytes B val)"
    using "1.prems" by (simp add: Cons_nth_drop_Suc [symmetric] le_bytes_nth)
  show ?case
  proof (cases "Suc i < B")
    case True
    have "WriteLittleEndian_loop B data p val i =
        bindr (wr8 data (p + i) ?b) (\<lambda>d. wr_bytes d (p + Suc i) (drop (Suc i) (le_bytes B val)))"
      using "1.prems" True "1.IH"
      by (subst WriteLittleEndian_loop.simps) (simp cong: bindr_cong)
    then show ?thesis
      by (simp add: split wr8_wr_bytes wr_bytes_fuse)
  next
    case False
    then have "WriteLittleEndian_loop B data' p val (Suc i) = Inr data'" for data'
      by (simp add: WriteLittleEndian_loop.simps [of B data' p val "Suc i"])
    moreover have "drop (Suc i) (le_bytes B val) = []" using False by simp
    ultimately show ?thesis
      using "1.prems" split by (cases "wr8 data (p + i) ?b")
        (auto simp: WriteLittleEndian_loop.simps [of B data p val i] wr8_wr_bytes)
  qed
qed

lemma WriteLittleEndian_eq: "0 < B \<Longrightarrow> WriteLittleEndian B data p val = wr_bytes data p (le_bytes B val)"
  by (auto simp: WriteLittleEndian_def WriteLittleEndian_1_def WriteLittleEndian_2_def WriteLittleEndian_4_def
      WriteLittleEndian_8_def le_bytes_def be_bytes_unfold store_bytes_eq
      WriteLittleEndian_loop_eq [of 0, simplified le_bytes_def, simplified]
      simp del: One_nat_def store_bytes.simps)

section \<open>Signed values\<close>

lemma byte_sign_bit: "(x :: byte) AND 0x80 \<noteq> 0 \<longleftrightarrow> bit x 7"
  using and_exp_eq_0_iff_not_bit [of x 7] by simp

lemma ReinterpretAsSigned_sint: "ReinterpretAsSigned u = sint u"
proof -
  let ?n = "LENGTH('a) - 1"
  have m: "u AND push_bit ?n 1 \<noteq> 0 \<longleftrightarrow> bit u ?n"
    using and_exp_eq_0_iff_not_bit [of u ?n] by (simp add: push_bit_eq_mult)
  have neg: "uint (u AND NOT (push_bit ?n 1)) OR - (2 ^ ?n) = sint u" if "bit u ?n"
    by (rule bit_eqI) (use that in \<open>auto simp: bit_simps minus_exp_eq_not_mask not_le
        dest: bit_imp_le_length\<close>)
  have top: "k = ?n" if "bit u k" "?n \<le> k" for k
    using that bit_imp_le_length [of u k] by simp
  have pos: "uint u = sint u" if "\<not> bit u ?n"
    by (rule bit_eqI) (use that top in \<open>auto simp: bit_simps min_def split: if_splits dest: bit_imp_le_length\<close>)
  show ?thesis
    unfolding ReinterpretAsSigned_def Let_def using m neg pos by simp
qed

lemma SignExtend_eq:
  fixes u :: "'a::len word"
  assumes B: "0 < B" "B < sizeof TYPE('a word)" "8 * B < 32" and u: "take_bit (8 * B) u = u"
  shows "\<exists>v. SignExtend B u = Inr v \<and> sint v = signed_take_bit (8 * B - 1) (uint u)"
proof -
  have len: "8 * B < LENGTH('a)" using B(2) by (simp add: sizeof_def)
  have idx: "(B - 1) * 8 + 7 = 8 * B - 1" using B(1) by (cases B) auto
  have msb: "(ucast (drop_bit ((B - 1) * 8) u) :: byte) AND 0x80 \<noteq> 0 \<longleftrightarrow> bit u (8 * B - 1)"
    by (simp only: byte_sign_bit drop_bit_byte_ucast_eq idx) simp
  have high: "\<not> bit u k" if "8 * B \<le> k" for k
    using that u by (metis bit_take_bit_iff not_less)
  have top: "n = 8 * B - Suc 0" if "8 * B - Suc 0 \<le> n" "n < 8 * B" for n
    using that by simp
  have low: "\<not> bit u n" if "\<not> bit u (8 * B - Suc 0)" "8 * B - Suc 0 \<le> n" for n
    using that top [of n] high [of n] by (cases "n < 8 * B") auto
  have mask: "(word_of_int (2 ^ (B * 8) - 1) :: 'a word) = mask (8 * B)"
    by (simp add: mask_eq_exp_minus_1 mult.commute)
  show ?thesis
  proof (cases "bit u (8 * B - 1)")
    case True
    then have "SignExtend B u = Inr (NOT (mask (8 * B)) OR u)"
      unfolding SignExtend_def Let_def using B msb mask by (simp add: mult.commute)
    moreover have "sint (NOT (mask (8 * B)) OR u) = signed_take_bit (8 * B - 1) (uint u)"
      by (rule bit_eqI) (use True high len B(1) in \<open>auto simp: bit_simps min_def not_le not_less dest: top\<close>)
    ultimately show ?thesis by blast
  next
    case False
    then have "SignExtend B u = Inr u"
      unfolding SignExtend_def Let_def using msb by simp
    moreover have "sint u = signed_take_bit (8 * B - 1) (uint u)"
      by (rule bit_eqI) (use False high low len B(1) in \<open>auto simp: bit_simps min_def not_le not_less\<close>)
    ultimately show ?thesis by blast
  qed
qed

lemma signed_read_back:
  assumes B: "0 < B" "B \<le> sizeof TYPE('a::len word)" "8 * B < 32 \<or> B = sizeof TYPE('a word)"
    and len: "LENGTH('a) = 8 * sizeof TYPE('a word)"
    and v: "- (2 ^ (8 * B - 1)) \<le> v" "v < 2 ^ (8 * B - 1)"
    and u: "u = take_bit (8 * B) (word_of_int v :: 'a word)"
  shows "bindr (if B < sizeof TYPE('a word) then SignExtend B u else Inr u)
           (\<lambda>u. Inr (ReinterpretAsSigned u)) = Inr v"
proof -
  have "uint u = take_bit (8 * B) v"
    using B(2) len by (simp add: u unsigned_take_bit_eq uint_word_of_int_eq take_bit_take_bit min_def)
  then have "signed_take_bit (8 * B - 1) (uint u) = signed_take_bit (8 * B - 1) v"
    using B(1) signed_take_bit_take_bit [of "8 * B - 1" "8 * B" v] by (auto split: if_splits)
  also have "\<dots> = v" using v by (rule signed_take_bit_int_eq_self)
  finally have stb: "signed_take_bit (8 * B - 1) (uint u) = v" .
  show ?thesis
  proof (cases "B < sizeof TYPE('a word)")
    case True
    with B(3) have small: "8 * B < 32" by simp
    have "take_bit (8 * B) u = u" by (simp add: u)
    from SignExtend_eq [OF B(1) True small this] show ?thesis
      using True stb by (auto simp: ReinterpretAsSigned_sint)
  next
    case False
    with B(2) len have "LENGTH('a) - 1 = 8 * B - 1" by simp
    then have "sint u = v" using stb by (simp add: sint_uint)
    with False show ?thesis by (simp add: ReinterpretAsSigned_sint)
  qed
qed

section \<open>The contract of a field of a packet\<close>

text \<open>
  What a packet format needs of the accessors of one kind of field: a fixed width, a byte
  encoding that decodes to the value it came from, a write that replaces exactly the
  field's bytes and a read that depends on them alone.
\<close>

locale field_codec =
  fixes width :: nat
    and valid :: "'v \<Rightarrow> bool"
    and enc :: "'v \<Rightarrow> bytes"
    and dec :: "bytes \<Rightarrow> 'v"
    and rd :: "bytes \<Rightarrow> nat \<Rightarrow> 'v res"
    and wr :: "bytes \<Rightarrow> nat \<Rightarrow> 'v \<Rightarrow> bytes res"
  assumes enc_length: "length (enc v) = width"
    and dec_enc: "valid v \<Longrightarrow> dec (enc v) = v"
    and wr_eq: "wr buf p v = wr_bytes buf p (enc v)"
    and rd_eq: "rd buf p = bindr (rd_bytes buf p width) (\<lambda>bs. Inr (dec bs))"
begin

lemma wr_in_range: "p + width \<le> length buf \<Longrightarrow>
  wr buf p v = Inr (take p buf @ enc v @ drop (p + width) buf)"
  by (simp add: wr_eq enc_length)

lemma wr_fault: "\<not> p + width \<le> length buf \<Longrightarrow> wr buf p v = Inl OutOfBounds"
  by (simp add: wr_eq wr_bytes_def enc_length)

lemma wr_length: "wr buf p v = Inr buf' \<Longrightarrow> length buf' = length buf"
  unfolding wr_eq by (rule wr_bytes_Inr_length)

lemma wr_Inr_range: "wr buf p v = Inr buf' \<Longrightarrow> p + width \<le> length buf"
  by (simp add: wr_eq wr_bytes_def enc_length split: if_splits)

lemma rd_in_range: "p + width \<le> length buf \<Longrightarrow> rd buf p = Inr (dec (take width (drop p buf)))"
  by (simp add: rd_eq)

lemma rd_fault: "\<not> p + width \<le> length buf \<Longrightarrow> rd buf p = Inl OutOfBounds"
  by (simp add: rd_eq rd_bytes_fault)

lemma rd_ok_iff: "(\<exists>v. rd buf p = Inr v) \<longleftrightarrow> p + width \<le> length buf"
  by (cases "p + width \<le> length buf") (auto simp: rd_in_range rd_fault)

lemma rd_wr_same: "valid v \<Longrightarrow> wr buf p v = Inr buf' \<Longrightarrow> rd buf' p = Inr v"
  using wr_Inr_range [of buf p v buf'] by (auto simp: wr_in_range rd_eq enc_length dec_enc)

lemma wr_nth_outside:
  "wr buf p v = Inr buf' \<Longrightarrow> i < p \<or> p + width \<le> i \<Longrightarrow> i < length buf \<Longrightarrow> buf' ! i = buf ! i"
  using wr_Inr_range [of buf p v buf'] nth_take_append_drop [of p "enc v" buf i]
  by (auto simp: wr_in_range enc_length)

lemma rd_bytes_wr_disjoint:
  assumes wr: "wr buf p v = Inr buf'" and disj: "q + n \<le> p \<or> p + width \<le> q"
  shows "rd_bytes buf' q n = rd_bytes buf q n"
proof (cases "q + n \<le> length buf")
  case True
  moreover have "take n (drop q buf') = take n (drop q buf)"
    by (rule nth_equalityI) (use True disj wr_length [OF wr] wr_nth_outside [OF wr] in auto)
  ultimately show ?thesis using wr_length [OF wr] by simp
next
  case False
  then show ?thesis using wr_length [OF wr] by (simp add: rd_bytes_fault)
qed

lemma rd_wr_disjoint:
  "wr buf p v = Inr buf' \<Longrightarrow> q + width \<le> p \<or> p + width \<le> q \<Longrightarrow> rd buf' q = rd buf q"
  by (simp add: rd_eq rd_bytes_wr_disjoint)

end

lemma be_codec:
  assumes "0 < B" "LENGTH('a::len) = 8 * B"
  shows "field_codec B (\<lambda>_. True) (be_bytes B) (be_word :: bytes \<Rightarrow> 'a word) (ReadBigEndian B) (WriteBigEndian B)"
  using assms by unfold_locales
    (auto simp: be_word_be_bytes_full WriteBigEndian_eq ReadBigEndian_eq_spec read_be_spec_def)

interpretation be8: field_codec 1 "\<lambda>_. True" "be_bytes 1" "be_word :: bytes \<Rightarrow> byte" "ReadBigEndian 1" "WriteBigEndian 1"
  by (rule be_codec) auto

interpretation be16: field_codec 2 "\<lambda>_. True" "be_bytes 2" "be_word :: bytes \<Rightarrow> u16" "ReadBigEndian 2" "WriteBigEndian 2"
  by (rule be_codec) auto

interpretation be32: field_codec 4 "\<lambda>_. True" "be_bytes 4" "be_word :: bytes \<Rightarrow> u32" "ReadBigEndian 4" "WriteBigEndian 4"
  by (rule be_codec) auto

interpretation be64: field_codec 8 "\<lambda>_. True" "be_bytes 8" "be_word :: bytes \<Rightarrow> u64" "ReadBigEndian 8" "WriteBigEndian 8"
  by (rule be_codec) auto

lemma be_bytes_1: "be_bytes (Suc 0) (v :: byte) = [v]"
  by (simp add: be_bytes_def)

lemma write_byte: "WriteBigEndian (Suc 0) buf off (v :: byte) = wr_bytes buf off [v]"
  using be8.wr_eq [of buf off v] by (simp add: be_bytes_1)

section \<open>Properties\<close>

text \<open>The positional value of a byte string, most significant byte first, as a number.\<close>

definition be_nat :: "bytes \<Rightarrow> nat" where
  "be_nat bs = foldl (\<lambda>v b. v * 256 + unat b) 0 bs"

lemma be_nat_snoc: "be_nat (bs @ [b]) = be_nat bs * 256 + unat b"
  by (simp add: be_nat_def)

lemma be_nat_less: "be_nat bs < 256 ^ length bs"
proof (induction bs rule: rev_induct)
  case Nil
  then show ?case by (simp add: be_nat_def)
next
  case (snoc b bs)
  have "unat b < 256" using unsigned_less [of b, where ?'a = nat] by simp
  then have "be_nat bs * 256 + unat b < (be_nat bs + 1) * 256" by simp
  also have "\<dots> \<le> 256 ^ length bs * 256" using snoc by (intro mult_right_mono) auto
  finally show ?case by (simp add: be_nat_snoc mult.commute)
qed

lemma be_word_of_nat: "(be_word bs :: 'a::len word) = of_nat (be_nat bs)"
proof (induction bs rule: rev_induct)
  case Nil
  then show ?case by (simp add: be_nat_def)
next
  case (snoc b bs)
  have "push_bit 8 w AND ucast b = 0" for w :: "'a word"
    by (rule bit_word_eqI) (auto simp: bit_simps dest: bit_imp_le_length)
  then have "push_bit 8 (be_word bs) OR ucast b = (be_word bs * 256 + ucast b :: 'a word)"
    by (simp add: disjunctive_add_eq_or [symmetric] push_bit_eq_mult)
  then show ?case by (simp add: be_word_snoc be_nat_snoc snoc)
qed

lemma unat_be_word: "8 * length bs \<le> LENGTH('a) \<Longrightarrow> unat (be_word bs :: 'a::len word) = be_nat bs"
proof -
  assume "8 * length bs \<le> LENGTH('a)"
  then have "(2::nat) ^ (8 * length bs) \<le> 2 ^ LENGTH('a)" by (intro power_increasing) auto
  then have "be_nat bs < 2 ^ LENGTH('a)" using be_nat_less [of bs] by (simp add: power_mult)
  then show ?thesis by (simp add: be_word_of_nat unat_of_nat)
qed

text \<open>
  Every big-endian and little-endian reader of a supported width is memory safe exactly
  when its \<open>B\<close> bytes lie inside the buffer, and then returns their positional value: the
  unsigned number with the first (for little endian: the last) byte most significant.
\<close>

theorem reader_value:
  assumes "0 < B" and "8 * B \<le> LENGTH('a::len)"
  shows "if p + B \<le> length data
         then (\<exists>w :: 'a word. ReadBigEndian B data p = Inr w \<and> unat w = be_nat (take B (drop p data))) \<and>
              (\<exists>w :: 'a word. ReadLittleEndian B data p = Inr w \<and> unat w = be_nat (rev (take B (drop p data))))
         else ReadBigEndian B data p = (Inl OutOfBounds :: 'a word res) \<and>
              ReadLittleEndian B data p = (Inl OutOfBounds :: 'a word res)"
  using assms
  by (auto simp: ReadBigEndian_eq_spec ReadLittleEndian_eq_spec read_be_spec_def read_le_spec_def
      unat_be_word rd_bytes_fault)

theorem reader_value_witness:
  "(\<exists>w :: u32. ReadBigEndian 3 [9, 1, 2, 3 :: byte] 1 = Inr w \<and> unat w = 66051) \<and>
   ReadBigEndian 3 [9, 1, 2 :: byte] 1 = (Inl OutOfBounds :: u32 res)"
  using reader_value [where 'a = 32, of 3 1 "[9, 1, 2, 3]"] reader_value [where 'a = 32, of 3 1 "[9, 1, 2]"]
  by (simp add: be_nat_def)

text \<open>
  C23. The hand-unrolled specialisations of the readers and writers for one, two, four and
  eight bytes compute exactly what the generic loops of the primary templates compute, at
  every buffer, offset and value, faults included.
\<close>

theorem specialisations_agree_with_loops:
  "(ReadBigEndian_1 data p = InternalReadBigEndian 1 data p) \<and>
   (ReadBigEndian_2 data p = InternalReadBigEndian 2 data p) \<and>
   (ReadBigEndian_4 data p = InternalReadBigEndian 4 data p) \<and>
   (ReadBigEndian_8 data p = InternalReadBigEndian 8 data p) \<and>
   (ReadLittleEndian_1 data p = InternalReadLittleEndian 1 data p) \<and>
   (ReadLittleEndian_2 data p = InternalReadLittleEndian 2 data p) \<and>
   (ReadLittleEndian_4 data p = InternalReadLittleEndian 4 data p) \<and>
   (ReadLittleEndian_8 data p = InternalReadLittleEndian 8 data p) \<and>
   (WriteBigEndian_1 data p val = WriteBigEndian_loop 1 data p val 0) \<and>
   (WriteBigEndian_2 data p val = WriteBigEndian_loop 2 data p val 0) \<and>
   (WriteBigEndian_4 data p val = WriteBigEndian_loop 4 data p val 0) \<and>
   (WriteBigEndian_8 data p val = WriteBigEndian_loop 8 data p val 0) \<and>
   (WriteLittleEndian_1 data p val = WriteLittleEndian_loop 1 data p val 0) \<and>
   (WriteLittleEndian_2 data p val = WriteLittleEndian_loop 2 data p val 0) \<and>
   (WriteLittleEndian_4 data p val = WriteLittleEndian_loop 4 data p val 0) \<and>
   (WriteLittleEndian_8 data p val = WriteLittleEndian_loop 8 data p val 0)"
  using WriteBigEndian_eq [of 1 data p val] WriteBigEndian_eq [of 2 data p val]
    WriteBigEndian_eq [of 4 data p val] WriteBigEndian_eq [of 8 data p val]
    WriteLittleEndian_eq [of 1 data p val] WriteLittleEndian_eq [of 2 data p val]
    WriteLittleEndian_eq [of 4 data p val] WriteLittleEndian_eq [of 8 data p val]
  by (simp add: WriteBigEndian_def WriteLittleEndian_def read_be_specs read_le_specs
      WriteBigEndian_loop_eq WriteLittleEndian_loop_eq del: One_nat_def)

text \<open>
  C24. Writing an unsigned value and reading it back returns it (its low \<open>B\<close> bytes where \<open>T\<close>
  is wider), the buffer keeps its length, and no byte outside the \<open>B\<close> written ones changes.
\<close>

theorem write_read_roundtrip:
  fixes val :: "'a::len word"
  assumes "0 < B" and "p + B \<le> length data"
  shows "(\<exists>data'. WriteBigEndian B data p val = Inr data' \<and> length data' = length data \<and>
           (\<forall>i < length data. i < p \<or> p + B \<le> i \<longrightarrow> data' ! i = data ! i) \<and>
           ReadBigEndian B data' p = Inr (take_bit (8 * B) val)) \<and>
         (\<exists>data'. WriteLittleEndian B data p val = Inr data' \<and> length data' = length data \<and>
           (\<forall>i < length data. i < p \<or> p + B \<le> i \<longrightarrow> data' ! i = data ! i) \<and>
           ReadLittleEndian B data' p = Inr (take_bit (8 * B) val))"
  using assms nth_take_append_drop [of p "be_bytes B val" data] nth_take_append_drop [of p "le_bytes B val" data]
  by (auto simp: WriteBigEndian_eq WriteLittleEndian_eq ReadBigEndian_eq_spec ReadLittleEndian_eq_spec
      read_be_spec_def read_le_spec_def be_word_be_bytes le_bytes_def)

theorem write_read_roundtrip_witness:
  "\<exists>data'. WriteBigEndian 3 [7, 7, 7, 7, 7 :: byte] 1 (0x10203 :: u32) = Inr data' \<and>
     data' ! 0 = 7 \<and> data' ! 4 = 7 \<and> ReadBigEndian 3 data' 1 = Inr (0x10203 :: u32)"
  using write_read_roundtrip [of 3 1 "[7, 7, 7, 7, 7 :: byte]" "0x10203 :: u32"] by auto

text \<open>
  Signed round trip: a value that fits in \<open>B\<close> bytes, written and read back as a signed
  integer of the same width, is returned with its sign, for the full width of the type and
  for every shorter width below four bytes (where the read sign-extends).
\<close>

theorem signed_roundtrip:
  fixes v :: int
  assumes "0 < B" and "B \<le> sizeof TYPE('a::len word)" and "8 * B < 32 \<or> B = sizeof TYPE('a word)"
    and "LENGTH('a) = 8 * sizeof TYPE('a word)"
    and "- (2 ^ (8 * B - 1)) \<le> v" and "v < 2 ^ (8 * B - 1)" and "p + B \<le> length data"
  shows "bindr (WriteBigEndian_signed TYPE('a word) B data p v)
           (\<lambda>data'. ReadBigEndian_signed TYPE('a word) B data' p) = Inr v \<and>
         bindr (WriteLittleEndian_signed TYPE('a word) B data p v)
           (\<lambda>data'. ReadLittleEndian_signed TYPE('a word) B data' p) = Inr v"
  using assms signed_read_back [OF assms(1-6) refl]
  by (simp add: WriteBigEndian_signed_def WriteLittleEndian_signed_def ReadBigEndian_signed_def
      ReadLittleEndian_signed_def ReinterpretAsUnsigned_def WriteBigEndian_eq WriteLittleEndian_eq
      ReadBigEndian_eq_spec ReadLittleEndian_eq_spec read_be_spec_def read_le_spec_def be_word_be_bytes
      le_bytes_def)

theorem signed_roundtrip_witness:
  "bindr (WriteBigEndian_signed TYPE(u32) 3 [0, 0, 0, 0 :: byte] 1 (- 5))
     (\<lambda>data'. ReadBigEndian_signed TYPE(u32) 3 data' 1) = Inr (- 5)"
  using signed_roundtrip [where 'a = 32, of 3 "- 5" 1 "[0, 0, 0, 0]"] by (simp add: sizeof_def)

text \<open>
  Sign extension of a negative value of four to seven bytes in a 64-bit type is
  undefined: the mask is computed by shifting an \<open>int\<close> by at least its width. Every read of
  such a value with the sign bit set runs into it.
\<close>

theorem sign_extend_wide_undefined:
  assumes "B \<in> {4, 5, 6, 7}" and "p + B \<le> length data" and "bit (data ! p) 7"
  shows "ReadBigEndian_signed TYPE(u64) B data p = Inl BadShift"
proof -
  let ?bs = "take B (drop p data)"
  have B: "0 < B" "8 * B \<le> 64" "length ?bs = B" using assms(1,2) by auto
  have idx: "(B - 1) * 8 + 7 = 8 * B - 1" using B(1) by (cases B) auto
  have "bit (be_word ?bs :: u64) (8 * B - 1)"
    using assms(1,3) B by (auto simp: bit_be_word)
  then have "bit (ucast (drop_bit ((B - 1) * 8) (be_word ?bs :: u64)) :: byte) 7"
    by (simp only: drop_bit_byte_ucast_eq idx) simp
  then have msb: "(ucast (drop_bit ((B - 1) * 8) (be_word ?bs :: u64)) :: byte) AND 0x80 \<noteq> 0"
    by (simp only: byte_sign_bit)
  have sh: "B mod 8 * 8 \<ge> 32" "B < 8" using assms(1) by auto
  have "SignExtend B (be_word ?bs :: u64) = Inl BadShift"
    unfolding SignExtend_def Let_def using msb sh by (simp add: sizeof_def)
  then show ?thesis
    using B assms(2) sh by (simp add: ReadBigEndian_signed_def ReadBigEndian_eq_spec read_be_spec_def sizeof_def)
qed

theorem sign_extend_wide_undefined_witness:
  "ReadBigEndian_signed TYPE(u64) 5 [0xFF, 0, 0, 0, 1 :: byte] 0 = Inl BadShift"
  using sign_extend_wide_undefined [of 5 0 "[0xFF, 0, 0, 0, 1]"] by simp

end
