(* ===== verification/Rtcp_Packet.thy ===== *)
theory Rtcp_Packet
  imports Byte_IO
begin

text \<open>
  RTCP sender and receiver reports (\<open>rtcp_packet.h\<close>): the common header, the receiver report
  block with its accessors on a 24-byte buffer, \<open>SendReportPacket\<close> and \<open>ReceiverReportPacket\<close>.
  A pointer argument is a buffer and an offset. A \<open>Serialize\<close> that allocates takes the
  allocated block as its argument \<open>mem\<close>: the theorems hold whatever it contained. The
  conversions between milliseconds or microseconds and fixed point, which the code does in
  floating point, are in \<open>Rtcp_Time\<close>.
\<close>

unbundle bit_operations_syntax

section \<open>The common header\<close>

definition RTCPCommonHeaderSize :: nat where "RTCPCommonHeaderSize = 4"
definition SenderReportSize :: nat where "SenderReportSize = 24"
definition ReceiverReportSize :: nat where "ReceiverReportSize = 24"

record RTCPCommonHeader =
  hdr_count :: byte
  hdr_padding :: bool
  hdr_version :: byte
  hdr_packetType :: byte
  hdr_length :: u16

definition RTCPCommonHeader_new :: RTCPCommonHeader where
  "RTCPCommonHeader_new =
     \<lparr>hdr_count = 0, hdr_padding = False, hdr_version = 2, hdr_packetType = 0, hdr_length = 0\<rparr>"

definition RTCPCommonHeader_Parse :: "RTCPCommonHeader \<Rightarrow> bytes \<Rightarrow> nat \<Rightarrow> u32 \<Rightarrow> (RTCPCommonHeader \<times> byte) res" where
  "RTCPCommonHeader_Parse self data p sz =
     (if unat sz < RTCPCommonHeaderSize then Inr (self, 0)
      else bindr (rd8 data p) (\<lambda>d0.
           bindr (rd8 data (p + 1)) (\<lambda>d1.
           bindr (ReadBigEndian 2 data (p + 2)) (\<lambda>l :: u16.
           Inr (self\<lparr>hdr_version := drop_bit 6 d0, hdr_padding := (drop_bit 4 d0 AND 0x01 \<noteq> 0),
                     hdr_count := d0 AND 0x1F, hdr_packetType := d1,
                     hdr_length := ucast (push_bit 2 (ucast l + 1 :: u32))\<rparr>,
                word_of_nat RTCPCommonHeaderSize)))))"

definition RTCPCommonHeader_Serialize :: "RTCPCommonHeader \<Rightarrow> bytes \<Rightarrow> nat \<Rightarrow> u32 \<Rightarrow> (bytes \<times> u32) res" where
  "RTCPCommonHeader_Serialize self data p sz =
     (if unat sz < RTCPCommonHeaderSize then Inr (data, 0)
      else bindr (wr8 data p ((if hdr_padding self then 0xA0 else 0x80) OR (hdr_count self AND 0x1F))) (\<lambda>data.
           bindr (wr8 data (p + 1) (hdr_packetType self)) (\<lambda>data.
           bindr (WriteBigEndian 2 data (p + 2) (drop_bit 2 (hdr_length self) - 1)) (\<lambda>data.
           Inr (data, word_of_nat RTCPCommonHeaderSize)))))"

section \<open>Receiver report blocks\<close>

record RTCPReceiverReportBlock =
  rb_buffer :: bytes

definition RTCPReceiverReportBlock_new :: RTCPReceiverReportBlock where
  "RTCPReceiverReportBlock_new = \<lparr>rb_buffer = replicate 24 0\<rparr>"

definition GetSSRC :: "RTCPReceiverReportBlock \<Rightarrow> u32 res" where
  "GetSSRC b = ReadBigEndian 4 (rb_buffer b) 0"

definition GetFactionLost :: "RTCPReceiverReportBlock \<Rightarrow> byte res" where
  "GetFactionLost b = ReadBigEndian 1 (rb_buffer b) 4"

definition GetLostCount :: "RTCPReceiverReportBlock \<Rightarrow> u32 res" where
  "GetLostCount b = bindr (ReadBigEndian 4 (rb_buffer b) 5) (\<lambda>v. Inr (v AND 0x007FFFFF))"

definition GetLastSeqNum :: "RTCPReceiverReportBlock \<Rightarrow> u32 res" where
  "GetLastSeqNum b = ReadBigEndian 4 (rb_buffer b) 8"

definition GetJitter :: "RTCPReceiverReportBlock \<Rightarrow> u32 res" where
  "GetJitter b = ReadBigEndian 4 (rb_buffer b) 12"

definition GetLastSR :: "RTCPReceiverReportBlock \<Rightarrow> u32 res" where
  "GetLastSR b = ReadBigEndian 4 (rb_buffer b) 16"

definition GetDelaySinceLastSR :: "RTCPReceiverReportBlock \<Rightarrow> u32 res" where
  "GetDelaySinceLastSR b = ReadBigEndian 4 (rb_buffer b) 20"

definition set_buffer :: "bytes res \<Rightarrow> RTCPReceiverReportBlock res" where
  "set_buffer r = bindr r (\<lambda>buf. Inr \<lparr>rb_buffer = buf\<rparr>)"

text \<open>\<open>SetSSRC\<close> goes through the one-byte writer, whose argument is a \<open>uint8_t\<close>.\<close>

definition SetSSRC :: "RTCPReceiverReportBlock \<Rightarrow> u32 \<Rightarrow> RTCPReceiverReportBlock res" where
  "SetSSRC b ssrc = set_buffer (WriteBigEndian 1 (rb_buffer b) 0 (ucast ssrc :: byte))"

definition SetFractionLost :: "RTCPReceiverReportBlock \<Rightarrow> byte \<Rightarrow> RTCPReceiverReportBlock res" where
  "SetFractionLost b fraction = set_buffer (WriteBigEndian 1 (rb_buffer b) 4 fraction)"

definition SetLostCount :: "RTCPReceiverReportBlock \<Rightarrow> u32 \<Rightarrow> RTCPReceiverReportBlock res" where
  "SetLostCount b count = set_buffer (WriteBigEndian 4 (rb_buffer b) 5 (count AND 0x7FFFFF))"

definition SetLastSeqNum :: "RTCPReceiverReportBlock \<Rightarrow> u32 \<Rightarrow> RTCPReceiverReportBlock res" where
  "SetLastSeqNum b seq = set_buffer (WriteBigEndian 4 (rb_buffer b) 8 seq)"

definition SetLastJitter :: "RTCPReceiverReportBlock \<Rightarrow> u32 \<Rightarrow> RTCPReceiverReportBlock res" where
  "SetLastJitter b jitter = set_buffer (WriteBigEndian 4 (rb_buffer b) 12 jitter)"

definition SetLastSR :: "RTCPReceiverReportBlock \<Rightarrow> u32 \<Rightarrow> RTCPReceiverReportBlock res" where
  "SetLastSR b lsr = set_buffer (WriteBigEndian 4 (rb_buffer b) 16 lsr)"

definition SetDelaySinceLastSR :: "RTCPReceiverReportBlock \<Rightarrow> u32 \<Rightarrow> RTCPReceiverReportBlock res" where
  "SetDelaySinceLastSR b delay = set_buffer (WriteBigEndian 4 (rb_buffer b) 20 delay)"

definition ReportBlock_Serialize :: "RTCPReceiverReportBlock \<Rightarrow> bytes \<Rightarrow> nat \<Rightarrow> u32 \<Rightarrow> (bytes \<times> u32) res" where
  "ReportBlock_Serialize b data p sz =
     (if sz < 24 then Inr (data, 0)
      else bindr (rd_bytes (rb_buffer b) 0 24) (\<lambda>bs.
           bindr (wr_bytes data p bs) (\<lambda>data. Inr (data, 24))))"

definition ReportBlock_Parse :: "RTCPReceiverReportBlock \<Rightarrow> bytes \<Rightarrow> nat \<Rightarrow> u32 \<Rightarrow> (RTCPReceiverReportBlock \<times> u32) res" where
  "ReportBlock_Parse b data p sz =
     (if sz < 24 then Inr (b, 0)
      else bindr (rd_bytes data p 24) (\<lambda>bs.
           bindr (wr_bytes (rb_buffer b) 0 bs) (\<lambda>buf. Inr (\<lparr>rb_buffer = buf\<rparr>, 24))))"

section \<open>Packet types\<close>

definition SenderReport :: byte where "SenderReport = 200"
definition ReceiverReport :: byte where "ReceiverReport = 201"
definition RTPFeedback :: byte where "RTPFeedback = 205"
definition PayloadFeedback :: byte where "PayloadFeedback = 206"
definition XR :: byte where "XR = 207"

definition IsRTCP :: "bytes \<Rightarrow> int \<Rightarrow> bool res" where
  "IsRTCP data sz =
     (if 4 \<le> sz then bindr (rd8 data 1) (\<lambda>d1. Inr (64 \<le> d1 AND 0x7f \<and> d1 AND 0x7f < 96)) else Inr False)"

section \<open>Sender reports\<close>

record SendReportPacket =
  sr_ssrc :: u32
  sr_ntpSec :: u32
  sr_ntpFrac :: u32
  sr_rtpTimestamp :: u32
  sr_packetsSent :: u32
  sr_octectsSent :: u32
  sr_reports :: "RTCPReceiverReportBlock list"

definition SendReportPacket_default :: SendReportPacket where
  "SendReportPacket_default = \<lparr>sr_ssrc = 0, sr_ntpSec = 0, sr_ntpFrac = 0, sr_rtpTimestamp = 0,
     sr_packetsSent = 0, sr_octectsSent = 0, sr_reports = []\<rparr>"

text \<open>\<open>Serialize\<close> into the allocated 28 bytes \<open>mem\<close>; the reports are counted and not written.\<close>

definition SendReportPacket_Serialize :: "bytes \<Rightarrow> SendReportPacket \<Rightarrow> (bytes \<times> int) res" where
  "SendReportPacket_Serialize mem self =
     (let header = RTCPCommonHeader_new\<lparr>hdr_count := word_of_nat (length (sr_reports self)),
            hdr_packetType := SenderReport, hdr_padding := False,
            hdr_length := word_of_nat (RTCPCommonHeaderSize + SenderReportSize)\<rparr> in
      bindr (RTCPCommonHeader_Serialize header mem 0 (word_of_nat (RTCPCommonHeaderSize + SenderReportSize))) (\<lambda>(data, l).
      let len = unat l in
      bindr (WriteBigEndian 4 data len (sr_ssrc self)) (\<lambda>data.
      bindr (WriteBigEndian 4 data (len + 4) (sr_ntpSec self)) (\<lambda>data.
      bindr (WriteBigEndian 4 data (len + 8) (sr_ntpFrac self)) (\<lambda>data.
      bindr (WriteBigEndian 4 data (len + 12) (sr_rtpTimestamp self)) (\<lambda>data.
      bindr (WriteBigEndian 4 data (len + 16) (sr_packetsSent self)) (\<lambda>data.
      bindr (WriteBigEndian 4 data (len + 20) (sr_octectsSent self)) (\<lambda>data.
        Inr (data, int (len + 24))))))))))"

text \<open>The private \<open>Parse\<close> at offset \<open>p\<close> of \<open>data\<close>; \<open>sz\<close> is the caller's idea of the size.\<close>

definition SendReportPacket_Parse :: "SendReportPacket \<Rightarrow> bytes \<Rightarrow> nat \<Rightarrow> int \<Rightarrow> SendReportPacket res" where
  "SendReportPacket_Parse self data p sz =
     bindr (RTCPCommonHeader_Parse RTCPCommonHeader_new data p (word_of_int sz)) (\<lambda>(header, l).
     if l = 0 then Inr self
     else if sz < uint (hdr_length header) then Inr self
     else let len = p + unat l in
      bindr (ReadBigEndian 4 data len) (\<lambda>ssrc.
      bindr (ReadBigEndian 4 data (len + 4)) (\<lambda>ntpSec.
      bindr (ReadBigEndian 4 data (len + 8)) (\<lambda>ntpFrac.
      bindr (ReadBigEndian 4 data (len + 12)) (\<lambda>rtpTimestamp.
      bindr (ReadBigEndian 4 data (len + 16)) (\<lambda>packetsSent.
      bindr (ReadBigEndian 4 data (len + 20)) (\<lambda>octectsSent.
        Inr (self\<lparr>sr_ssrc := ssrc, sr_ntpSec := ntpSec, sr_ntpFrac := ntpFrac, sr_rtpTimestamp := rtpTimestamp,
                  sr_packetsSent := packetsSent, sr_octectsSent := octectsSent\<rparr>))))))))"

definition SendReportPacket_new :: "bytes \<Rightarrow> nat \<Rightarrow> int \<Rightarrow> SendReportPacket res" where
  "SendReportPacket_new data p sz = SendReportPacket_Parse SendReportPacket_default data p sz"

text \<open>\<open>GetNTPTimestamp\<close> builds 64 bits and returns a \<open>uint32_t\<close>.\<close>

definition GetNTPTimestamp :: "SendReportPacket \<Rightarrow> u32" where
  "GetNTPTimestamp self = ucast (push_bit 32 (ucast (sr_ntpSec self) :: u64) OR ucast (sr_ntpFrac self))"

section \<open>Receiver reports\<close>

record ReceiverReportPacket =
  rr_ssrc :: u32
  rr_reports :: "RTCPReceiverReportBlock list"

text \<open>
  The constructor that takes a packet ignores it; \<open>ssrc\<close> is indeterminate, so it is an
  argument here.
\<close>

definition ReceiverReportPacket_new :: "u32 \<Rightarrow> bytes \<Rightarrow> nat \<Rightarrow> int \<Rightarrow> ReceiverReportPacket" where
  "ReceiverReportPacket_new junk data p sz = \<lparr>rr_ssrc = junk, rr_reports = []\<rparr>"

text \<open>The loop over \<open>i < header.count\<close>: \<open>n\<close> iterations from index \<open>i\<close>.\<close>

primrec RR_Serialize_loop ::
  "nat \<Rightarrow> RTCPReceiverReportBlock list \<Rightarrow> nat \<Rightarrow> u32 \<Rightarrow> bytes \<Rightarrow> u32 \<Rightarrow> (bytes \<times> u32) res" where
  "RR_Serialize_loop 0 reports i packetSize data len = Inr (data, len)"
| "RR_Serialize_loop (Suc n) reports i packetSize data len =
     (if i < length reports
      then bindr (ReportBlock_Serialize (reports ! i) data (unat len) (packetSize - len)) (\<lambda>(data, w).
           RR_Serialize_loop n reports (i + 1) packetSize data (len + w))
      else Inl OutOfBounds)"

definition ReceiverReportPacket_Serialize :: "bytes \<Rightarrow> ReceiverReportPacket \<Rightarrow> (bytes \<times> int) res" where
  "ReceiverReportPacket_Serialize mem self =
     (let packetSize = word_of_nat (RTCPCommonHeaderSize + 4 + ReceiverReportSize) :: u32;
          header = RTCPCommonHeader_new\<lparr>hdr_count := word_of_nat (length (rr_reports self)),
            hdr_packetType := ReceiverReport, hdr_padding := False, hdr_length := ucast packetSize\<rparr> in
      bindr (RTCPCommonHeader_Serialize header mem 0 packetSize) (\<lambda>(data, len).
      bindr (WriteBigEndian 4 data (unat len) (rr_ssrc self)) (\<lambda>data.
      bindr (RR_Serialize_loop (unat (hdr_count header)) (rr_reports self) 0 packetSize data (len + 4)) (\<lambda>(data, len).
        Inr (data, uint len)))))"

text \<open>
  The private \<open>Parse\<close>, which no constructor calls: the loop runs while fewer than
  \<open>header.count\<close> blocks were read and another 24 bytes fit.
\<close>

primrec RR_Parse_loop ::
  "nat \<Rightarrow> bytes \<Rightarrow> nat \<Rightarrow> int \<Rightarrow> nat \<Rightarrow> RTCPReceiverReportBlock list \<Rightarrow> RTCPReceiverReportBlock list res" where
  "RR_Parse_loop 0 data p sz len reports = Inr reports"
| "RR_Parse_loop (Suc n) data p sz len reports =
     (if int len + 24 \<le> sz
      then bindr (ReportBlock_Parse RTCPReceiverReportBlock_new data (p + len) (word_of_int (sz - int len))) (\<lambda>(report, w).
           RR_Parse_loop n data p sz (len + unat w) (reports @ [report]))
      else Inr reports)"

definition ReceiverReportPacket_Parse :: "ReceiverReportPacket \<Rightarrow> bytes \<Rightarrow> nat \<Rightarrow> int \<Rightarrow> ReceiverReportPacket res" where
  "ReceiverReportPacket_Parse self data p sz =
     bindr (RTCPCommonHeader_Parse RTCPCommonHeader_new data p (word_of_int sz)) (\<lambda>(header, l).
     if l = 0 then Inr self
     else if sz < uint (hdr_length header) then Inr self
     else bindr (ReadBigEndian 4 data (p + unat l)) (\<lambda>ssrc.
          bindr (RR_Parse_loop (unat (hdr_count header)) data p sz (unat l + 4) (rr_reports self)) (\<lambda>reports.
            Inr (self\<lparr>rr_ssrc := ssrc, rr_reports := reports\<rparr>))))"

section \<open>Properties of the common header\<close>

definition header_byte0 :: "bool \<Rightarrow> byte \<Rightarrow> byte" where
  "header_byte0 pad c = (if pad then 0xA0 else 0x80) OR (c AND 0x1F)"

definition enc_header :: "RTCPCommonHeader \<Rightarrow> bytes" where
  "enc_header h = [header_byte0 (hdr_padding h) (hdr_count h), hdr_packetType h] @
     be_bytes 2 (drop_bit 2 (hdr_length h) - 1)"

lemma length_enc_header [simp]: "length (enc_header h) = 4"
  by (simp add: enc_header_def)

lemmas rtcp_sizes = RTCPCommonHeaderSize_def SenderReportSize_def ReceiverReportSize_def

lemma Header_Serialize_eq:
  assumes "4 \<le> unat sz"
  shows "RTCPCommonHeader_Serialize h data p sz = bindr (wr_bytes data p (enc_header h)) (\<lambda>data. Inr (data, 4))"
  using assms
  by (simp add: RTCPCommonHeader_Serialize_def rtcp_sizes wr8_wr_bytes be16.wr_eq buffer_simps enc_header_def header_byte0_def
      del: wr_bytes_ok)

lemma length_clear_low: "ucast (push_bit 2 (ucast (drop_bit 2 l - 1 :: u16) + 1 :: u32)) = (l AND 0xFFFC :: u16)"
proof -
  have "ucast (push_bit 2 (ucast (x - 1) + 1 :: u32)) = (push_bit 2 x :: u16)" for x :: u16
  proof -
    have "ucast (push_bit 2 (ucast (x - 1) + 1 :: u32)) = (push_bit 2 (ucast (ucast (x - 1) + 1 :: u32)) :: u16)"
      by (rule bit_word_eqI) (auto simp: bit_simps)
    also have "(ucast (ucast (x - 1) + 1 :: u32) :: u16) = x"
      by transfer (simp add: take_bit_eq_mod mod_simps)
    finally show ?thesis .
  qed
  moreover have "push_bit 2 (drop_bit 2 l) = (l AND NOT (mask 2) :: u16)"
    by (rule bit_word_eqI) (auto simp: bit_simps)
  moreover have "NOT (mask 2) = (0xFFFC :: u16)" by (simp add: mask_eq_exp_minus_1)
  ultimately show ?thesis by simp
qed

lemma bit_header_byte0: "bit (header_byte0 pad c) n \<longleftrightarrow> n = 7 \<or> pad \<and> n = 5 \<or> n < 5 \<and> bit c n"
proof (cases "n < 8")
  case True
  have eqs: "(0x80 :: byte) = push_bit 7 1" "(0xA0 :: byte) = push_bit 7 1 OR push_bit 5 1" "(0x1F :: byte) = mask 5"
    by (simp_all add: mask_eq_exp_minus_1)
  have "n = 0 \<or> n = 1 \<or> n = 2 \<or> n = 3 \<or> n = 4 \<or> n = 5 \<or> n = 6 \<or> n = 7" using True by linarith
  then show ?thesis unfolding header_byte0_def eqs by (auto simp: bit_simps)
next
  case False
  then show ?thesis using bit_imp_le_length [of "header_byte0 pad c" n] by auto
qed

lemma header_byte0_fields:
  "drop_bit 6 (header_byte0 pad c) = 2" "header_byte0 pad c AND 0x1F = c AND 0x1F"
  "drop_bit 4 (header_byte0 pad c) AND 1 = (if bit c 4 then 1 else 0)"
proof -
  have m: "(0x1F :: byte) = mask 5" "(2 :: byte) = push_bit 1 1" by (simp_all add: mask_eq_exp_minus_1)
  show "drop_bit 6 (header_byte0 pad c) = 2"
    unfolding m(2) by (rule bit_word_eqI) (auto simp: bit_simps bit_header_byte0)
  show "header_byte0 pad c AND 0x1F = c AND 0x1F"
    unfolding m(1) by (rule bit_word_eqI) (auto simp: bit_simps bit_header_byte0)
  show "drop_bit 4 (header_byte0 pad c) AND 1 = (if bit c 4 then 1 else 0)"
    by (rule bit_word_eqI) (auto simp: bit_simps bit_header_byte0 bit_1_iff)
qed

lemma Header_Parse_enc:
  assumes "4 \<le> unat sz" and "take 4 (drop p data) = enc_header h"
  shows "RTCPCommonHeader_Parse self data p sz = Inr (self\<lparr>hdr_version := 2, hdr_padding := bit (hdr_count h) 4,
    hdr_count := hdr_count h AND 0x1F, hdr_packetType := hdr_packetType h, hdr_length := hdr_length h AND 0xFFFC\<rparr>, 4)"
proof -
  have len: "p + 4 \<le> length data"
    using arg_cong [OF assms(2), of length] by simp
  have d: "data ! p = enc_header h ! 0" "data ! (p + 1) = enc_header h ! 1"
    using assms(2) len by (metis nth_take nth_drop zero_less_numeral add_0_right add_leD1 one_less_numeral_iff semiring_norm(76,77))+
  have "take 2 (drop (p + 2) data) = drop 2 (enc_header h)"
    unfolding assms(2) [symmetric] by (simp add: drop_take add.commute)
  then have l: "ReadBigEndian 2 data (p + 2) = Inr (drop_bit 2 (hdr_length h) - 1)"
    using len by (simp add: be16.rd_eq enc_header_def)
  show ?thesis
    using len assms(1) d
    by (simp add: RTCPCommonHeader_Parse_def rtcp_sizes l length_clear_low enc_header_def header_byte0_fields del: One_nat_def)
qed

text \<open>
  A serialised common header parses back to version 2, the same packet type, the low
  five bits of the count and the length rounded down to whole words. The padding flag does
  not survive: it is written at bit 5 and read from bit 4, the top bit of the count.
\<close>

theorem rtcp_header_roundtrip:
  assumes "4 \<le> unat sz" and "p + 4 \<le> length data"
  shows "\<exists>out. RTCPCommonHeader_Serialize h data p sz = Inr (out, 4) \<and> length out = length data \<and>
    RTCPCommonHeader_Parse self out p sz = Inr (self\<lparr>hdr_version := 2, hdr_padding := bit (hdr_count h) 4,
      hdr_count := hdr_count h AND 0x1F, hdr_packetType := hdr_packetType h, hdr_length := hdr_length h AND 0xFFFC\<rparr>, 4)"
proof -
  let ?out = "take p data @ enc_header h @ drop (p + 4) data"
  have "RTCPCommonHeader_Serialize h data p sz = Inr (?out, 4)" "length ?out = length data"
    using assms by (simp_all add: Header_Serialize_eq)
  moreover have "take 4 (drop p ?out) = enc_header h" using assms(2) by simp
  ultimately show ?thesis using Header_Parse_enc [OF assms(1), of p ?out h self] by blast
qed

theorem rtcp_header_roundtrip_witness:
  "\<exists>out. RTCPCommonHeader_Serialize (RTCPCommonHeader_new\<lparr>hdr_padding := True, hdr_length := 28\<rparr>) [1, 2, 3, 4] 0 4
      = Inr (out, 4) \<and>
    (\<exists>h. RTCPCommonHeader_Parse RTCPCommonHeader_new out 0 4 = Inr (h, 4) \<and> \<not> hdr_padding h \<and> hdr_length h = 28)"
  using rtcp_header_roundtrip [of 4 0 "[1, 2, 3, 4]" "RTCPCommonHeader_new\<lparr>hdr_padding := True, hdr_length := 28\<rparr>"
      RTCPCommonHeader_new]
  by (auto simp: RTCPCommonHeader_new_def)

section \<open>Properties of the report block\<close>

definition block_ok :: "RTCPReceiverReportBlock \<Rightarrow> bool" where
  "block_ok b \<longleftrightarrow> length (rb_buffer b) = 24"

lemma block_ok_new: "block_ok RTCPReceiverReportBlock_new"
  by (simp add: block_ok_def RTCPReceiverReportBlock_new_def)

text \<open>The fields with a whole 32-bit word or byte of their own, as one tuple.\<close>

definition block_fields :: "RTCPReceiverReportBlock \<Rightarrow> byte res \<times> u32 res \<times> u32 res \<times> u32 res \<times> u32 res" where
  "block_fields b = (GetFactionLost b, GetLastSeqNum b, GetJitter b, GetLastSR b, GetDelaySinceLastSR b)"

lemmas getter_defs = GetFactionLost_def GetLastSeqNum_def GetJitter_def GetLastSR_def GetDelaySinceLastSR_def

lemma set_word:
  assumes "p + 4 \<le> length (rb_buffer b)"
  shows "\<exists>b'. set_buffer (WriteBigEndian 4 (rb_buffer b) p (v :: u32)) = Inr b' \<and>
    length (rb_buffer b') = length (rb_buffer b) \<and> ReadBigEndian 4 (rb_buffer b') p = Inr v \<and>
    (\<forall>q. q + 4 \<le> p \<or> p + 4 \<le> q \<longrightarrow>
      ReadBigEndian 4 (rb_buffer b') q = (ReadBigEndian 4 (rb_buffer b) q :: u32 res)) \<and>
    (\<forall>q. q + 1 \<le> p \<or> p + 4 \<le> q \<longrightarrow>
      ReadBigEndian 1 (rb_buffer b') q = (ReadBigEndian 1 (rb_buffer b) q :: byte res))"
proof -
  obtain buf where buf: "WriteBigEndian 4 (rb_buffer b) p v = Inr buf"
    using be32.wr_in_range [OF assms] by blast
  have "ReadBigEndian 1 buf q = (ReadBigEndian 1 (rb_buffer b) q :: byte res)" if "q + 1 \<le> p \<or> p + 4 \<le> q" for q
    unfolding be8.rd_eq be32.rd_bytes_wr_disjoint [OF buf that] by (rule refl)
  with buf show ?thesis
    by (intro exI [of _ "\<lparr>rb_buffer = buf\<rparr>"])
      (simp add: set_buffer_def be32.wr_length be32.rd_wr_same be32.rd_wr_disjoint del: One_nat_def)
qed

lemma set_byte:
  assumes "p + 1 \<le> length (rb_buffer b)"
  shows "\<exists>b'. set_buffer (WriteBigEndian 1 (rb_buffer b) p (v :: byte)) = Inr b' \<and>
    length (rb_buffer b') = length (rb_buffer b) \<and> ReadBigEndian 1 (rb_buffer b') p = Inr v \<and>
    (\<forall>q. q + 4 \<le> p \<or> p + 1 \<le> q \<longrightarrow>
      ReadBigEndian 4 (rb_buffer b') q = (ReadBigEndian 4 (rb_buffer b) q :: u32 res))"
proof -
  obtain buf where buf: "WriteBigEndian 1 (rb_buffer b) p v = Inr buf"
    using be8.wr_in_range [OF assms] by blast
  have "ReadBigEndian 4 buf q = (ReadBigEndian 4 (rb_buffer b) q :: u32 res)" if "q + 4 \<le> p \<or> p + 1 \<le> q" for q
    unfolding be32.rd_eq be8.rd_bytes_wr_disjoint [OF buf that] by (rule refl)
  with buf show ?thesis
    by (intro exI [of _ "\<lparr>rb_buffer = buf\<rparr>"])
      (simp add: set_buffer_def be8.wr_length be8.rd_wr_same del: One_nat_def)
qed

text \<open>
  On a 24-byte block the setters of the fraction lost, the highest sequence number, the
  jitter, the last sender report and the delay succeed, keep the size, read back and leave
  the other four fields and the source alone.
\<close>

theorem report_block_accessors:
  assumes "block_ok b"
  shows "(\<exists>b'. SetFractionLost b f = Inr b' \<and> block_ok b' \<and> GetSSRC b' = GetSSRC b \<and>
      block_fields b' = (Inr f, GetLastSeqNum b, GetJitter b, GetLastSR b, GetDelaySinceLastSR b)) \<and>
    (\<exists>b'. SetLastSeqNum b v = Inr b' \<and> block_ok b' \<and> GetSSRC b' = GetSSRC b \<and>
      block_fields b' = (GetFactionLost b, Inr v, GetJitter b, GetLastSR b, GetDelaySinceLastSR b)) \<and>
    (\<exists>b'. SetLastJitter b v = Inr b' \<and> block_ok b' \<and> GetSSRC b' = GetSSRC b \<and>
      block_fields b' = (GetFactionLost b, GetLastSeqNum b, Inr v, GetLastSR b, GetDelaySinceLastSR b)) \<and>
    (\<exists>b'. SetLastSR b v = Inr b' \<and> block_ok b' \<and> GetSSRC b' = GetSSRC b \<and>
      block_fields b' = (GetFactionLost b, GetLastSeqNum b, GetJitter b, Inr v, GetDelaySinceLastSR b)) \<and>
    (\<exists>b'. SetDelaySinceLastSR b v = Inr b' \<and> block_ok b' \<and> GetSSRC b' = GetSSRC b \<and>
      block_fields b' = (GetFactionLost b, GetLastSeqNum b, GetJitter b, GetLastSR b, Inr v))"
proof -
  have len: "length (rb_buffer b) = 24" using assms by (simp add: block_ok_def)
  have "\<exists>b'. SetFractionLost b f = Inr b' \<and> block_ok b' \<and> GetSSRC b' = GetSSRC b \<and>
      block_fields b' = (Inr f, GetLastSeqNum b, GetJitter b, GetLastSR b, GetDelaySinceLastSR b)"
    unfolding SetFractionLost_def block_fields_def getter_defs GetSSRC_def block_ok_def
    using set_byte [of 4 b f] len by (auto simp del: One_nat_def)
  moreover have "\<exists>b'. SetLastSeqNum b v = Inr b' \<and> block_ok b' \<and> GetSSRC b' = GetSSRC b \<and>
      block_fields b' = (GetFactionLost b, Inr v, GetJitter b, GetLastSR b, GetDelaySinceLastSR b)"
    unfolding SetLastSeqNum_def block_fields_def getter_defs GetSSRC_def block_ok_def
    using set_word [of 8 b v] len by (auto simp del: One_nat_def)
  moreover have "\<exists>b'. SetLastJitter b v = Inr b' \<and> block_ok b' \<and> GetSSRC b' = GetSSRC b \<and>
      block_fields b' = (GetFactionLost b, GetLastSeqNum b, Inr v, GetLastSR b, GetDelaySinceLastSR b)"
    unfolding SetLastJitter_def block_fields_def getter_defs GetSSRC_def block_ok_def
    using set_word [of 12 b v] len by (auto simp del: One_nat_def)
  moreover have "\<exists>b'. SetLastSR b v = Inr b' \<and> block_ok b' \<and> GetSSRC b' = GetSSRC b \<and>
      block_fields b' = (GetFactionLost b, GetLastSeqNum b, GetJitter b, Inr v, GetDelaySinceLastSR b)"
    unfolding SetLastSR_def block_fields_def getter_defs GetSSRC_def block_ok_def
    using set_word [of 16 b v] len by (auto simp del: One_nat_def)
  moreover have "\<exists>b'. SetDelaySinceLastSR b v = Inr b' \<and> block_ok b' \<and> GetSSRC b' = GetSSRC b \<and>
      block_fields b' = (GetFactionLost b, GetLastSeqNum b, GetJitter b, GetLastSR b, Inr v)"
    unfolding SetDelaySinceLastSR_def block_fields_def getter_defs GetSSRC_def block_ok_def
    using set_word [of 20 b v] len by (auto simp del: One_nat_def)
  ultimately show ?thesis by blast
qed

theorem report_block_accessors_witness:
  "\<exists>b'. SetLastJitter RTCPReceiverReportBlock_new 77 = Inr b' \<and> GetJitter b' = Inr 77"
  using report_block_accessors [OF block_ok_new, of 0 77] by (auto simp: block_fields_def)

text \<open>The bit patterns of a loss count and a sequence number that share a byte.\<close>

lemma overlap_bits:
  fixes c s :: u32
  shows "be_word [ucast (drop_bit 24 (c AND 0x7FFFFF)), ucast (drop_bit 16 (c AND 0x7FFFFF)),
      ucast (drop_bit 8 (c AND 0x7FFFFF)), ucast (drop_bit 24 s)] AND 0x7FFFFF = (c AND 0x7FFF00) OR drop_bit 24 s"
    and "be_word [ucast (c AND 0x7FFFFF), ucast (drop_bit 16 s), ucast (drop_bit 8 s), ucast s] =
      push_bit 24 (c AND 0xFF) OR (s AND 0xFFFFFF)"
    and "be_word [ucast c, 0, 0, 0] = push_bit 24 (c AND 0xFF)"
proof -
  have m: "(0x7FFFFF :: u32) = mask 23" "(0x7FFF00 :: u32) = mask 23 AND NOT (mask 8)" "(0xFF :: u32) = mask 8"
      "(0xFFFFFF :: u32) = mask 24"
    by (simp_all add: mask_eq_exp_minus_1)
  have top: "bit s (24 + n) \<Longrightarrow> n < 8" for n using bit_imp_le_length [of s "24 + n"] by simp
  show "be_word [ucast (drop_bit 24 (c AND 0x7FFFFF)), ucast (drop_bit 16 (c AND 0x7FFFFF)),
      ucast (drop_bit 8 (c AND 0x7FFFFF)), ucast (drop_bit 24 s)] AND 0x7FFFFF = (c AND 0x7FFF00) OR drop_bit 24 s"
    unfolding m by (rule bit_word_eqI) (auto simp: be_word_Cons bit_simps dest: top)
  show "be_word [ucast (c AND 0x7FFFFF), ucast (drop_bit 16 s), ucast (drop_bit 8 s), ucast s] =
      push_bit 24 (c AND 0xFF) OR (s AND 0xFFFFFF)"
    unfolding m
  proof (rule bit_word_eqI)
    fix n assume "n < LENGTH(32)"
    then show "bit (be_word [ucast (c AND mask 23), ucast (drop_bit 16 s), ucast (drop_bit 8 s), ucast s] :: u32) n =
        bit (push_bit 24 (c AND mask 8) OR (s AND mask 24)) n"
      by (cases "n < 16") (auto simp: be_word_Cons bit_simps)
  qed
  show "be_word [ucast c, 0, 0, 0] = push_bit 24 (c AND 0xFF)"
    unfolding m by (rule bit_word_eqI) (auto simp: be_word_Cons bit_simps)
qed

text \<open>
  C28. The 24-bit loss count is stored as four bytes from offset five and so shares its last
  byte with the first of the highest sequence number: whichever of the two is set last is
  read back exactly and overwrites eight bits of the other. \<open>SetSSRC\<close> stores only the low
  byte of the source, as the first of the four.
\<close>

theorem report_block_overlap:
  assumes "block_ok b"
  shows "(\<exists>b1 b2. SetLostCount b c = Inr b1 \<and> SetLastSeqNum b1 s = Inr b2 \<and> GetLastSeqNum b2 = Inr s \<and>
      GetLostCount b2 = Inr ((c AND 0x7FFF00) OR drop_bit 24 s)) \<and>
    (\<exists>b1 b2. SetLastSeqNum b s = Inr b1 \<and> SetLostCount b1 c = Inr b2 \<and> GetLostCount b2 = Inr (c AND 0x7FFFFF) \<and>
      GetLastSeqNum b2 = Inr (push_bit 24 (c AND 0xFF) OR (s AND 0xFFFFFF))) \<and>
    (\<exists>b1. SetSSRC RTCPReceiverReportBlock_new r = Inr b1 \<and> GetSSRC b1 = Inr (push_bit 24 (r AND 0xFF)))"
proof -
  have len: "length (rb_buffer b) = 24" using assms by (simp add: block_ok_def)
  define d where "d = c AND 0x7FFFFF"
  note bits = overlap_bits(1,2) [of c s, folded d_def]
  let ?x = "take 5 (rb_buffer b) @ be_bytes 4 d @ drop 9 (rb_buffer b)"
  let ?y = "take 8 (rb_buffer b) @ be_bytes 4 s @ drop 12 (rb_buffer b)"
  have x: "SetLostCount b c = Inr \<lparr>rb_buffer = ?x\<rparr>"
    using len by (simp add: SetLostCount_def d_def [symmetric] set_buffer_def be32.wr_in_range)
  have y: "SetLastSeqNum b s = Inr \<lparr>rb_buffer = ?y\<rparr>"
    using len by (simp add: SetLastSeqNum_def set_buffer_def be32.wr_in_range)
  let ?x2 = "take 8 ?x @ be_bytes 4 s @ drop 12 ?x" and ?y2 = "take 5 ?y @ be_bytes 4 d @ drop 9 ?y"
  have x2: "SetLastSeqNum \<lparr>rb_buffer = ?x\<rparr> s = Inr \<lparr>rb_buffer = ?x2\<rparr>"
    using len by (simp add: SetLastSeqNum_def set_buffer_def be32.wr_in_range)
  have y2: "SetLostCount \<lparr>rb_buffer = ?y\<rparr> c = Inr \<lparr>rb_buffer = ?y2\<rparr>"
    using len by (simp add: SetLostCount_def d_def [symmetric] set_buffer_def be32.wr_in_range)
  have "take 4 (drop 5 ?x2) = [ucast (drop_bit 24 d), ucast (drop_bit 16 d), ucast (drop_bit 8 d), ucast (drop_bit 24 s)]"
    using len by (simp add: be_bytes_unfold(3))
  then have gx: "GetLostCount \<lparr>rb_buffer = ?x2\<rparr> = Inr ((c AND 0x7FFF00) OR drop_bit 24 s)"
    using len bits(1) by (simp add: GetLostCount_def be32.rd_in_range)
  have sx: "GetLastSeqNum \<lparr>rb_buffer = ?x2\<rparr> = Inr s"
    using len by (simp add: GetLastSeqNum_def be32.rd_in_range)
  have "take 4 (drop 8 ?y2) = [ucast d, ucast (drop_bit 16 s), ucast (drop_bit 8 s), ucast s]"
    using len by (simp add: be_bytes_unfold(3))
  then have gy: "GetLastSeqNum \<lparr>rb_buffer = ?y2\<rparr> = Inr (push_bit 24 (c AND 0xFF) OR (s AND 0xFFFFFF))"
    using len bits(2) by (simp add: GetLastSeqNum_def be32.rd_in_range)
  have sy: "GetLostCount \<lparr>rb_buffer = ?y2\<rparr> = Inr (c AND 0x7FFFFF)"
    using len by (simp add: GetLostCount_def be32.rd_in_range) (simp add: d_def and.assoc)
  have "SetSSRC RTCPReceiverReportBlock_new r = Inr \<lparr>rb_buffer = ucast r # replicate 23 0\<rparr>"
    by (simp add: SetSSRC_def set_buffer_def write_byte RTCPReceiverReportBlock_new_def)
  moreover have "GetSSRC \<lparr>rb_buffer = ucast r # replicate 23 0\<rparr> = Inr (push_bit 24 (r AND 0xFF))"
    using overlap_bits(3) [of r] by (simp add: GetSSRC_def be32.rd_in_range numeral_3_eq_3)
  ultimately have r: "\<exists>b1. SetSSRC RTCPReceiverReportBlock_new r = Inr b1 \<and> GetSSRC b1 = Inr (push_bit 24 (r AND 0xFF))"
    by blast
  show ?thesis using x x2 gx sx y y2 gy sy r by blast
qed

theorem report_block_overlap_witness:
  "\<exists>b1 b2. SetLastSeqNum RTCPReceiverReportBlock_new 0x01020304 = Inr b1 \<and> SetLostCount b1 0xAB = Inr b2 \<and>
    GetLastSeqNum b2 = Inr 0xAB020304"
  using report_block_overlap [OF block_ok_new, of "0xAB" "0x01020304" 0] by auto

section \<open>Sender reports\<close>

definition enc_sr :: "SendReportPacket \<Rightarrow> bytes" where
  "enc_sr p = enc_header \<lparr>hdr_count = word_of_nat (length (sr_reports p)), hdr_padding = False, hdr_version = 2,
       hdr_packetType = SenderReport, hdr_length = 28\<rparr> @
     be_bytes 4 (sr_ssrc p) @ be_bytes 4 (sr_ntpSec p) @ be_bytes 4 (sr_ntpFrac p) @ be_bytes 4 (sr_rtpTimestamp p) @
     be_bytes 4 (sr_packetsSent p) @ be_bytes 4 (sr_octectsSent p)"

lemma length_enc_sr [simp]: "length (enc_sr p) = 28"
  by (simp add: enc_sr_def)

lemma SR_Serialize_eq:
  assumes "length mem = 28"
  shows "SendReportPacket_Serialize mem p = Inr (enc_sr p, 28)"
proof -
  have "SendReportPacket_Serialize mem p = bindr (wr_bytes mem 0 (enc_sr p)) (\<lambda>d. Inr (d, 28))"
    by (simp add: SendReportPacket_Serialize_def Header_Serialize_eq rtcp_sizes bindr_assoc be32.wr_eq buffer_simps
        enc_sr_def RTCPCommonHeader_new_def del: wr_bytes_ok)
  then show ?thesis using assms by simp
qed

text \<open>The sizes that the header of a received packet and the caller compute from its length field.\<close>

lemma packetLen_word:
  "uint (word_of_int (4 + 4 * uint (l :: u16)) :: u32) = 4 + 4 * uint l"
  "4 \<le> unat (word_of_int (4 + 4 * uint l) :: u32)"
proof -
  have b: "0 \<le> uint l" "uint l < 2 ^ 16" using unsigned_less [of l, where ?'a = int] by simp_all
  then have "(4 + 4 * uint l) mod 2 ^ 32 = 4 + 4 * uint l" by (intro mod_pos_pos_trivial) auto
  then show u: "uint (word_of_int (4 + 4 * uint l) :: u32) = 4 + 4 * uint l"
    by (simp only: uint_word_of_int) simp
  show "4 \<le> unat (word_of_int (4 + 4 * uint l) :: u32)"
    unfolding unat_eq_nat_uint u using b by linarith
qed

lemma header_length_le_packetLen:
  "uint (ucast (push_bit 2 (ucast l + 1 :: u32)) :: u16) \<le> 4 + 4 * uint (l :: u16)"
proof -
  have "push_bit 2 (ucast l + 1 :: u32) = word_of_int (4 + 4 * uint l)"
    by (simp add: push_bit_eq_mult algebra_simps)
  then have "uint (push_bit 2 (ucast l + 1 :: u32)) = 4 + 4 * uint l"
    by (simp only: packetLen_word)
  moreover have "uint (ucast x :: u16) \<le> uint x" for x :: u32
    by (simp add: unsigned_ucast_eq take_bit_int_less_eq_self_iff)
  ultimately show ?thesis by metis
qed

text \<open>
  C29. A sender report serialises to 28 bytes whatever the allocated block contained, and the
  parser reads those bytes back to the same report, without the report blocks, which the
  serialiser counts in the header but does not write.
\<close>

theorem sender_report_roundtrip:
  assumes "length mem = 28"
  shows "\<exists>out. SendReportPacket_Serialize mem p = Inr (out, 28) \<and> length out = 28 \<and>
    SendReportPacket_new (out @ rest) 0 28 = Inr (p\<lparr>sr_reports := []\<rparr>)"
proof -
  have "take 4 (drop 0 (enc_sr p @ rest)) = enc_header \<lparr>hdr_count = word_of_nat (length (sr_reports p)), hdr_padding = False,
      hdr_version = 2, hdr_packetType = SenderReport, hdr_length = 28\<rparr>"
    by (simp add: enc_sr_def)
  from Header_Parse_enc [OF _ this, of 28 RTCPCommonHeader_new]
  have "SendReportPacket_new (enc_sr p @ rest) 0 28 = Inr (p\<lparr>sr_reports := []\<rparr>)"
    by (simp add: SendReportPacket_new_def SendReportPacket_Parse_def SendReportPacket_default_def be32.rd_eq)
      (simp add: enc_sr_def)
  with SR_Serialize_eq [OF assms] show ?thesis by simp
qed

theorem sender_report_roundtrip_witness:
  "\<exists>out. SendReportPacket_Serialize (replicate 28 0xCC) (SendReportPacket_default\<lparr>sr_ssrc := 42\<rparr>) = Inr (out, 28) \<and>
    SendReportPacket_new out 0 28 = Inr (SendReportPacket_default\<lparr>sr_ssrc := 42\<rparr>)"
  using sender_report_roundtrip [of "replicate 28 0xCC" "SendReportPacket_default\<lparr>sr_ssrc := 42\<rparr>" "[]"]
  by (auto simp: SendReportPacket_default_def)

text \<open>
  Constructing a sender report from a received packet, with the size its length field
  announces, never stops at the size check and reads 28 bytes: it is defined exactly if the
  buffer has them, whatever length the packet announces.
\<close>

lemma sender_report_reads_28_bytes:
  assumes "p + 4 \<le> length data" and "ReadBigEndian 2 data (p + 2) = Inr (l :: u16)"
  shows "if p + 28 \<le> length data then \<exists>sr. SendReportPacket_new data p (4 + 4 * uint l) = Inr sr
    else SendReportPacket_new data p (4 + 4 * uint l) = Inl OutOfBounds"
proof -
  from packetLen_word(2) [of l] assms obtain h where h: "RTCPCommonHeader_Parse RTCPCommonHeader_new data p (word_of_int (4 + 4 * uint l)) = Inr (h, 4)"
      "hdr_length h = ucast (push_bit 2 (ucast l + 1 :: u32))"
    by (simp add: RTCPCommonHeader_Parse_def rtcp_sizes)
  have ge: "\<not> 4 + 4 * uint l < uint (hdr_length h)"
    unfolding h(2) using header_length_le_packetLen [of l] by linarith
  have rd: "(\<exists>x. ReadBigEndian 4 data q = Inr (x :: u32)) \<or> ReadBigEndian 4 data q = (Inl OutOfBounds :: u32 res)" for q
    using be32.rd_in_range be32.rd_fault by blast
  have "ReadBigEndian 4 data (p + 4 + 20) = (Inl OutOfBounds :: u32 res)" if "\<not> p + 28 \<le> length data"
    using that by (intro be32.rd_fault) simp
  then show ?thesis
    unfolding SendReportPacket_new_def SendReportPacket_Parse_def h(1)
    using ge rd [of "p + 4"] rd [of "p + 4 + 4"] rd [of "p + 4 + 8"] rd [of "p + 4 + 12"] rd [of "p + 4 + 16"]
    by (auto simp: be32.rd_in_range Let_def)
qed

lemma GetNTPTimestamp_frac: "GetNTPTimestamp p = sr_ntpFrac p"
  unfolding GetNTPTimestamp_def by (rule bit_word_eqI) (auto simp: bit_simps)

lemma byte_and_mask:
  assumes "unat (x :: byte) < 32"
  shows "x AND 0x1F = x"
proof -
  have "unat (take_bit 5 x) = unat x"
    using assms by (simp add: unsigned_take_bit_eq take_bit_nat_eq_self_iff)
  then have "take_bit 5 x = x" by (simp only: word_unat_eq_iff)
  then show ?thesis by (simp add: take_bit_eq_mask mask_eq_exp_minus_1)
qed

section \<open>Receiver reports\<close>

definition rr_header :: "ReceiverReportPacket \<Rightarrow> RTCPCommonHeader" where
  "rr_header p = \<lparr>hdr_count = word_of_nat (length (rr_reports p)), hdr_padding = False, hdr_version = 2,
     hdr_packetType = ReceiverReport, hdr_length = 32\<rparr>"

lemma RR_Serialize_loop_full:
  "i + n \<le> length reports \<Longrightarrow> RR_Serialize_loop n reports i 32 data 32 = Inr (data, 32)"
  by (induction n arbitrary: i) (auto simp: ReportBlock_Serialize_def)

lemma RR_Serialize_prefix:
  assumes "length mem = 32" and "length (rr_reports p) < 256"
  shows "ReceiverReportPacket_Serialize mem p =
    bindr (RR_Serialize_loop (length (rr_reports p)) (rr_reports p) 0 32
      (enc_header (rr_header p) @ be_bytes 4 (rr_ssrc p) @ drop 8 mem) 8) (\<lambda>(data, len). Inr (data, uint len))"
proof -
  have "unat (word_of_nat (length (rr_reports p)) :: byte) = length (rr_reports p)"
    using assms(2) by (simp add: unat_of_nat)
  then show ?thesis
    using assms(1)
    by (simp add: ReceiverReportPacket_Serialize_def Header_Serialize_eq rtcp_sizes be32.wr_eq
        rr_header_def RTCPCommonHeader_new_def)
qed

lemma RR_Serialize_nonempty:
  assumes mem: "length mem = 32" and n: "length (rr_reports p) < 256" and r: "rr_reports p = b # bs" and b: "block_ok b"
  shows "ReceiverReportPacket_Serialize mem p =
    Inr (enc_header (rr_header p) @ be_bytes 4 (rr_ssrc p) @ rb_buffer b, 32)"
proof -
  have "ReportBlock_Serialize b (enc_header (rr_header p) @ be_bytes 4 (rr_ssrc p) @ drop 8 mem) 8 24 =
      Inr (enc_header (rr_header p) @ be_bytes 4 (rr_ssrc p) @ rb_buffer b, 24)"
    using mem b by (simp add: ReportBlock_Serialize_def block_ok_def)
  then show ?thesis
    using RR_Serialize_loop_full [of 1 "length bs" "b # bs"] n
    by (simp add: RR_Serialize_prefix [OF mem n] r)
qed

text \<open>
  C30. A receiver report with at least one block serialises to 32 bytes that carry the header,
  the source and the first block only, independently of the allocated memory, and the
  parser recovers the source and that block. A report without blocks yields eight bytes
  although its header announces 32.
\<close>

theorem receiver_report_roundtrip:
  assumes mem: "length mem = 32" and p: "rr_reports p = b # bs" "length bs < 31" "block_ok b"
  shows "\<exists>out. ReceiverReportPacket_Serialize mem p = Inr (out, 32) \<and> length out = 32 \<and>
    ReceiverReportPacket_Parse \<lparr>rr_ssrc = junk, rr_reports = []\<rparr> out 0 32 = Inr \<lparr>rr_ssrc = rr_ssrc p, rr_reports = [b]\<rparr> \<and>
    ReceiverReportPacket_Serialize mem (p\<lparr>rr_reports := []\<rparr>) =
      Inr (enc_header (rr_header (p\<lparr>rr_reports := []\<rparr>)) @ be_bytes 4 (rr_ssrc p) @ drop 8 mem, 8)"
proof -
  let ?out = "enc_header (rr_header p) @ be_bytes 4 (rr_ssrc p) @ rb_buffer b"
  have n: "length (rr_reports p) < 256" using p by simp
  have len: "length (rb_buffer b) = 24" using p(3) by (simp add: block_ok_def)
  have "take 4 (drop 0 ?out) = enc_header (rr_header p)" by simp
  from Header_Parse_enc [OF _ this, of 32 RTCPCommonHeader_new]
  have hdr: "RTCPCommonHeader_Parse RTCPCommonHeader_new ?out 0 32 =
      Inr (RTCPCommonHeader_new\<lparr>hdr_version := 2, hdr_padding := bit (hdr_count (rr_header p)) 4,
        hdr_count := hdr_count (rr_header p) AND 0x1F, hdr_packetType := ReceiverReport, hdr_length := 32\<rparr>, 4)"
    by (simp add: rr_header_def)
  have "hdr_count (rr_header p) AND 0x1F = hdr_count (rr_header p)"
    by (rule byte_and_mask) (use p in \<open>simp add: rr_header_def unat_of_nat del: of_nat_Suc\<close>)
  then have cnt: "unat (hdr_count (rr_header p) AND 0x1F) = Suc (length bs)"
    using p by (simp add: rr_header_def unat_of_nat del: of_nat_Suc)
  have blk: "ReportBlock_Parse RTCPReceiverReportBlock_new ?out 8 24 = Inr (b, 24)"
    using len by (simp add: ReportBlock_Parse_def RTCPReceiverReportBlock_new_def)
  have stop: "RR_Parse_loop k data 0 32 32 rs = Inr rs" for k data rs by (cases k) auto
  have "ReceiverReportPacket_Parse \<lparr>rr_ssrc = junk, rr_reports = []\<rparr> ?out 0 32 =
      Inr \<lparr>rr_ssrc = rr_ssrc p, rr_reports = [b]\<rparr>"
    using hdr cnt blk stop
    by (simp add: ReceiverReportPacket_Parse_def be32.rd_eq)
  moreover have "ReceiverReportPacket_Serialize mem (p\<lparr>rr_reports := []\<rparr>) =
      Inr (enc_header (rr_header (p\<lparr>rr_reports := []\<rparr>)) @ be_bytes 4 (rr_ssrc p) @ drop 8 mem, 8)"
    by (subst RR_Serialize_prefix [OF mem]) simp_all
  ultimately show ?thesis
    using RR_Serialize_nonempty [OF mem n p(1,3)] len by simp
qed

theorem receiver_report_roundtrip_witness:
  "\<exists>out. ReceiverReportPacket_Serialize (replicate 32 0xCC)
      \<lparr>rr_ssrc = 42, rr_reports = [RTCPReceiverReportBlock_new, RTCPReceiverReportBlock_new]\<rparr> = Inr (out, 32) \<and>
    ReceiverReportPacket_Parse \<lparr>rr_ssrc = 9, rr_reports = []\<rparr> out 0 32 =
      Inr \<lparr>rr_ssrc = 42, rr_reports = [RTCPReceiverReportBlock_new]\<rparr>"
  using receiver_report_roundtrip [of "replicate 32 0xCC"
      "\<lparr>rr_ssrc = 42, rr_reports = [RTCPReceiverReportBlock_new, RTCPReceiverReportBlock_new]\<rparr>"
      RTCPReceiverReportBlock_new "[RTCPReceiverReportBlock_new]" 9] block_ok_new
  by auto

end
