(* ===== verification/Tools.thy ===== *)
theory Tools
  imports Spadia_Prelude
begin

text \<open>
  The helpers of \<open>tools.h\<close> and \<open>tools.cpp\<close>: alignment to 32 bits, the byte order of a port
  and the alphanumeric identifiers used as ICE credentials. The identifier that \<open>uuid()\<close>
  obtains from libuuid is an argument. The clock readers are in \<open>Clock\<close>; the operations that
  call them take the time they return as an argument.
\<close>

unbundle bit_operations_syntax

definition pad32 :: "u32 \<Rightarrow> u32" where
  "pad32 sz = (if sz AND 0x03 \<noteq> 0 then (sz AND 0xFFFFFFFC) + 0x04 else sz)"

definition get_port :: "u16 \<Rightarrow> u16" where
  "get_port sin_port = push_bit 8 (sin_port AND 0x00FF) OR drop_bit 8 (sin_port AND 0xFF00)"

text \<open>The character test of \<open>randomID\<close>; characters are compared by their codes.\<close>

definition code :: "char \<Rightarrow> nat" where
  "code c = of_char c"

definition is_id_char :: "char \<Rightarrow> bool" where
  "is_id_char c \<longleftrightarrow>
     code c \<ge> code (CHR ''0'') \<and> code c \<le> code (CHR ''9'') \<or>
     code c \<ge> code (CHR ''A'') \<and> code c \<le> code (CHR ''Z'') \<or>
     code c \<ge> code (CHR ''a'') \<and> code c \<le> code (CHR ''z'')"

text \<open>The loop over the characters of a fresh \<open>uuid\<close>.\<close>

fun randomID_loop :: "string \<Rightarrow> string \<Rightarrow> string" where
  "randomID_loop [] rv = rv"
| "randomID_loop (c # cs) rv = randomID_loop cs (if is_id_char c then rv @ [c] else rv)"

definition randomID :: "string \<Rightarrow> string" where
  "randomID uuid = randomID_loop uuid []"

section \<open>Alignment\<close>

lemma and_3_mod: "unat (w AND 3 :: u32) = unat w mod 4"
proof -
  have "w AND 3 = take_bit 2 w" by (simp add: take_bit_eq_mask mask_eq_exp_minus_1)
  then show ?thesis by (simp add: take_bit_eq_mod unat_mod)
qed

lemma and_not_3: "w AND 0xFFFFFFFC = w - (w AND 3 :: u32)"
proof -
  have "0xFFFFFFFC AND (3 :: u32) = 0" by simp
  then have "(w AND 0xFFFFFFFC) AND (w AND 3) = 0"
    by (metis and.assoc and.left_commute and_zero_eq)
  then have "(w AND 0xFFFFFFFC) + (w AND 3) = (w AND 0xFFFFFFFC) OR (w AND 3)"
    by (rule disjunctive_add_eq_or)
  also have "\<dots> = w AND (0xFFFFFFFC OR 3)" by (simp only: bit.conj_disj_distrib)
  also have "(0xFFFFFFFC OR 3 :: u32) = - 1" by simp
  finally show ?thesis by (simp add: eq_diff_eq)
qed

lemma round_up_4:
  assumes "(n :: nat) mod 4 \<noteq> 0"
  shows "n - n mod 4 + 4 = (n + 3) div 4 * 4"
proof -
  have "n = 4 * (n div 4) + n mod 4" by simp
  moreover have "n mod 4 < 4" by simp
  ultimately have "(n + 3) div 4 = n div 4 + 1" using assms by linarith
  then show ?thesis by (simp add: minus_mod_eq_div_mult)
qed

lemma round_up_bounds: "(n :: nat) \<le> (n + 3) div 4 * 4" "(n + 3) div 4 * 4 < n + 4"
  by linarith+

lemma unat_pad32:
  assumes "unat sz \<le> 2 ^ 32 - 4"
  shows "unat (pad32 sz) = (unat sz + 3) div 4 * 4"
proof -
  let ?n = "unat sz"
  have le: "sz AND 3 \<le> sz" by (rule word_and_le2)
  have base: "unat (sz AND 0xFFFFFFFC) = ?n - ?n mod 4"
    using le by (simp add: and_not_3 unat_sub and_3_mod)
  show ?thesis
  proof (cases "?n mod 4 = 0")
    case True
    then have "sz AND 3 = 0" using and_3_mod [of sz] by (metis unat_eq_zero)
    with True show ?thesis by (auto simp: pad32_def)
  next
    case False
    then have "sz AND 3 \<noteq> 0" using and_3_mod [of sz] by (metis unat_0)
    moreover have "?n - ?n mod 4 + 4 < 2 ^ 32" using False assms by simp
    ultimately have "unat (pad32 sz) = ?n - ?n mod 4 + 4"
      using base by (simp add: pad32_def unat_word_ariths)
    also have "\<dots> = (?n + 3) div 4 * 4" using False by (rule round_up_4)
    finally show ?thesis .
  qed
qed

text \<open>
  \<open>pad32\<close> rounds up to the next multiple of four: the result is a multiple of four, at
  least the argument and less than four above it, for every size that has such a multiple
  in 32 bits; the three largest sizes wrap around to zero.
\<close>

theorem pad32_least_multiple:
  "(unat sz \<le> 2 ^ 32 - 4 \<longrightarrow>
      4 dvd unat (pad32 sz) \<and> unat sz \<le> unat (pad32 sz) \<and> unat (pad32 sz) < unat sz + 4) \<and>
   (2 ^ 32 - 4 < unat sz \<longrightarrow> pad32 sz = 0)"
proof (intro conjI impI)
  assume "2 ^ 32 - 4 < unat sz"
  then have "unat sz \<in> {4294967293, 4294967294, 4294967295}"
    using unsigned_less [of sz, where ?'a = nat] by auto
  then have "sz \<in> {4294967293, 4294967294, 4294967295}"
    by (auto simp: word_unat_eq_iff)
  then show "pad32 sz = 0" by (auto simp: pad32_def)
next
  assume fits: "unat sz \<le> 2 ^ 32 - 4"
  note eq = unat_pad32 [OF fits]
  show "4 dvd unat (pad32 sz)" unfolding eq by (rule dvd_triv_right)
  show "unat sz \<le> unat (pad32 sz)" and "unat (pad32 sz) < unat sz + 4"
    unfolding eq by (rule round_up_bounds)+
qed

theorem pad32_least_multiple_witness: "pad32 5 = 8 \<and> unat (pad32 5) < unat (5 :: u32) + 4 \<and> pad32 0xFFFFFFFE = 0"
  using pad32_least_multiple [of 5] pad32_least_multiple [of "0xFFFFFFFE"] by (simp add: pad32_def)

section \<open>Ports\<close>

lemma bit_get_port: "bit (get_port w) k \<longleftrightarrow> k < 16 \<and> bit w (if k < 8 then k + 8 else k - 8)"
proof -
  have m1: "(0x00FF :: u16) = mask 8" by (simp add: mask_eq_exp_minus_1)
  have m2: "(0xFF00 :: u16) = push_bit 8 (mask 8)" by (simp add: mask_eq_exp_minus_1 push_bit_eq_mult)
  show ?thesis
    unfolding get_port_def m1 m2 by (auto simp: bit_simps add.commute dest: bit_imp_le_length)
qed

text \<open>
  \<open>get_port\<close> swaps the two bytes of a port, so applying it twice gives the port back:
  it converts between host and network order in both directions.
\<close>

theorem get_port_swaps_bytes:
  "get_port (get_port w) = w \<and>
   (ucast (get_port w) :: byte) = ucast (drop_bit 8 w) \<and>
   (ucast (drop_bit 8 (get_port w)) :: byte) = ucast w"
proof (intro conjI)
  show "get_port (get_port w) = w"
    by (rule bit_word_eqI) (auto simp: bit_get_port)
  show "(ucast (get_port w) :: byte) = ucast (drop_bit 8 w)"
    by (rule bit_word_eqI) (auto simp: bit_get_port bit_simps add.commute)
  show "(ucast (drop_bit 8 (get_port w)) :: byte) = ucast w"
    by (rule bit_word_eqI) (auto simp: bit_get_port bit_simps)
qed

section \<open>Identifiers\<close>

lemma randomID_loop_filter: "randomID_loop cs rv = rv @ filter is_id_char cs"
  by (induction cs arbitrary: rv) auto

lemma randomID_filter: "randomID uuid = filter is_id_char uuid"
  by (simp add: randomID_def randomID_loop_filter)

lemma colon_not_id_char: "\<not> is_id_char (CHR '':'')"
  by (simp add: is_id_char_def code_def)

lemma randomID_no_colon: "CHR '':'' \<notin> set (randomID uuid)"
  using colon_not_id_char by (auto simp: randomID_filter)

end
