(* ===== verification/Transport_CC.thy ===== *)
theory Transport_CC
  imports Rtcp_Packet Tools
begin

text \<open>
  Transport-wide congestion control feedback (\<open>TransportCCFeedBack\<close> in \<open>rtcp_packet.h\<close>): the
  ordered map from transport sequence numbers to arrival times in microseconds, its
  serialisation as status chunks and time deltas, and the parser. A received packet has a
  non-zero time. \<open>data\<close> with an offset is the pointer the code is called with; the running
  \<open>len\<close> is relative to it. \<open>len\<close> is a natural number: in the parser it never exceeds the
  \<open>size\<close> argument, and the code's 32-bit counter is the same for sizes below $2^{32}$.
\<close>

unbundle bit_operations_syntax

section \<open>Data\<close>

datatype PacketStatus = NotReceived | SmallDelta | LargeOrNegativeDelta | Reserved

record TransportCCFeedBack =
  tcc_feedbackPacketCount :: byte
  tcc_referenceTime :: u32
  tcc_packets :: "(u32, u64) std_map"

text \<open>The default constructor leaves the feedback packet count indeterminate.\<close>

definition TransportCCFeedBack_new :: "byte \<Rightarrow> TransportCCFeedBack" where
  "TransportCCFeedBack_new junk = \<lparr>tcc_feedbackPacketCount = junk, tcc_referenceTime = 0, tcc_packets = []\<rparr>"

definition InsertPacket :: "TransportCCFeedBack \<Rightarrow> u32 \<Rightarrow> u64 \<Rightarrow> TransportCCFeedBack" where
  "InsertPacket self transportNum timeUS =
     self\<lparr>tcc_packets := map_set transportNum timeUS (tcc_packets self)\<rparr>"

fun status_code :: "PacketStatus \<Rightarrow> u16" where
  "status_code NotReceived = 0"
| "status_code SmallDelta = 1"
| "status_code LargeOrNegativeDelta = 2"
| "status_code Reserved = 3"

text \<open>The conversion of a value below four to \<open>PacketStatus\<close>.\<close>

definition status_of :: "u16 \<Rightarrow> PacketStatus" where
  "status_of w = (if w = 0 then NotReceived else if w = 1 then SmallDelta
                  else if w = 2 then LargeOrNegativeDelta else Reserved)"

section \<open>Parsing\<close>

text \<open>The statuses one chunk appends: two-bit and one-bit vectors and runs.\<close>

definition chunk_statuses :: "u16 \<Rightarrow> PacketStatus list" where
  "chunk_statuses chunk =
     (if drop_bit 15 chunk \<noteq> 0
      then if drop_bit 14 chunk AND 1 \<noteq> 0
           then map (\<lambda>j. status_of (drop_bit (12 - 2 * j) chunk AND 0x03)) [0..<7]
           else map (\<lambda>j. status_of (drop_bit (13 - j) chunk AND 0x01)) [0..<14]
      else replicate (unat (chunk AND 0x1FFF)) (status_of (drop_bit 13 chunk)))"

text \<open>The chunk loop; \<open>None\<close> is the early return on a packet that ends within the chunks.\<close>

function TCC_Parse_chunks ::
  "bytes \<Rightarrow> nat \<Rightarrow> int \<Rightarrow> nat \<Rightarrow> nat \<Rightarrow> PacketStatus list \<Rightarrow> (PacketStatus list \<times> nat) option res" where
  "TCC_Parse_chunks data p sz packetStatusCount len statuses =
     (if length statuses < packetStatusCount
      then if int len + 2 > sz then Inr None
           else bindr (ReadBigEndian 2 data (p + len)) (\<lambda>chunk.
                TCC_Parse_chunks data p sz packetStatusCount (len + 2) (statuses @ chunk_statuses chunk))
      else Inr (Some (statuses, len)))"
  by pat_completeness auto
termination
  by (relation "measure (\<lambda>(data, p, sz, n, len, statuses). nat (sz - int len))") auto

declare TCC_Parse_chunks.simps [simp del]

text \<open>The loop over the first \<open>packetStatusCount\<close> statuses, which stops where a delta is cut off.\<close>

fun TCC_Parse_deltas ::
  "bytes \<Rightarrow> nat \<Rightarrow> int \<Rightarrow> u32 \<Rightarrow> nat \<Rightarrow> u64 \<Rightarrow> PacketStatus list \<Rightarrow> (u32, u64) std_map \<Rightarrow> (u32, u64) std_map res" where
  "TCC_Parse_deltas data p sz num len time [] packets = Inr packets"
| "TCC_Parse_deltas data p sz num len time (NotReceived # ss) packets =
     TCC_Parse_deltas data p sz (num + 1) len time ss (map_set num 0 packets)"
| "TCC_Parse_deltas data p sz num len time (SmallDelta # ss) packets =
     (if int len + 1 > sz then Inr packets
      else bindr (ReadBigEndian 1 data (p + len)) (\<lambda>b :: byte.
           let delta = uint b * 250; time = time + word_of_int delta in
           TCC_Parse_deltas data p sz (num + 1) (len + 1) time ss (map_set num time packets)))"
| "TCC_Parse_deltas data p sz num len time (LargeOrNegativeDelta # ss) packets =
     (if int len + 2 > sz then Inr packets
      else bindr (ReadBigEndian_signed TYPE(u16) 2 data (p + len)) (\<lambda>aux.
           let delta = aux * 250; time = time + word_of_int delta in
           TCC_Parse_deltas data p sz (num + 1) (len + 2) time ss (map_set num time packets)))"
| "TCC_Parse_deltas data p sz num len time (Reserved # ss) packets =
     TCC_Parse_deltas data p sz (num + 1) len time ss packets"

text \<open>
  \<open>Parse\<close>. The base sequence number is read as 32 bits, the reference time keeps its eight
  low bits cleared instead of being shifted, and \<open>referenceTime * 64000\<close> is computed in
  32 bits.
\<close>

definition TransportCCFeedBack_Parse :: "TransportCCFeedBack \<Rightarrow> bytes \<Rightarrow> nat \<Rightarrow> int \<Rightarrow> TransportCCFeedBack res" where
  "TransportCCFeedBack_Parse self data p sz =
     (if sz < 8 then Inr self
      else bindr (ReadBigEndian 4 data p) (\<lambda>baseSeqNumber :: u32.
           bindr (ReadBigEndian 2 data (p + 2)) (\<lambda>packetStatusCount :: u16.
           bindr (ReadBigEndian 4 data (p + 4)) (\<lambda>r :: u32.
           bindr (ReadBigEndian 1 data (p + 7)) (\<lambda>fb :: byte.
           let self = self\<lparr>tcc_referenceTime := r AND 0xFFFFFF00, tcc_feedbackPacketCount := fb\<rparr> in
           bindr (TCC_Parse_chunks data p sz (unat packetStatusCount) 8 []) (\<lambda>st.
           case st of None \<Rightarrow> Inr self
           | Some (statuses, len) \<Rightarrow>
               let time = ucast (tcc_referenceTime self * 64000) :: u64 in
               bindr (TCC_Parse_deltas data p sz baseSeqNumber len time
                        (take (unat packetStatusCount) statuses) (tcc_packets self)) (\<lambda>packets.
               Inr (self\<lparr>tcc_packets := packets\<rparr>))))))))"

section \<open>Serialisation\<close>

text \<open>The delta of an arrival at \<open>t\<close> to the running time, in units of 250 microseconds.\<close>

definition arrival_delta :: "u64 \<Rightarrow> u64 \<Rightarrow> int res" where
  "arrival_delta t time =
     (if time < t then Inr (sint (ucast ((t - time) div 250) :: u32))
      else int32 (- sint (ucast ((time - t) div 250) :: u32)))"

definition delta_is_large :: "int \<Rightarrow> bool" where
  "delta_is_large delta \<longleftrightarrow> delta < 0 \<or> delta > 127"

text \<open>
  The loop over the packets: buffer, \<open>len\<close>, \<open>firstReceived\<close>, \<open>time\<close>, \<open>deltas\<close> and \<open>statuses\<close> are
  its variables. The first received packet writes the second word of the header.
\<close>

fun TCC_scan ::
  "nat \<Rightarrow> byte \<Rightarrow> (u32, u64) std_map \<Rightarrow> bytes \<Rightarrow> nat \<Rightarrow> bool \<Rightarrow> u64 \<Rightarrow> int list \<Rightarrow> PacketStatus list
    \<Rightarrow> (bytes \<times> nat \<times> int list \<times> PacketStatus list) res" where
  "TCC_scan p fb [] data len firstReceived time deltas statuses = Inr (data, len, deltas, statuses)"
| "TCC_scan p fb ((k, t) # packets) data len firstReceived time deltas statuses =
     (if t = 0 then TCC_scan p fb packets data len firstReceived time deltas (statuses @ [NotReceived])
      else bindr
        (if firstReceived then Inr (data, len, time)
         else let referenceTime = (t div 64000) AND 0x7FFFFF in
           bindr (WriteBigEndian 4 data (p + 4) (ucast (push_bit 8 referenceTime) :: u32)) (\<lambda>data.
           bindr (WriteBigEndian 2 data (p + 7) (ucast fb :: u16)) (\<lambda>data.
           Inr (data, len + 4, referenceTime * 64000)))) (\<lambda>(data, len, time).
        bindr (arrival_delta t time) (\<lambda>delta.
        let status = if delta_is_large delta then LargeOrNegativeDelta else SmallDelta in
        bindr (int32 (delta * 250)) (\<lambda>us.
        TCC_scan p fb packets data len True (time + word_of_int us) (deltas @ [delta]) (statuses @ [status])))))"

text \<open>One chunk of up to seven statuses, from index \<open>j\<close> on.\<close>

fun chunk_or :: "nat \<Rightarrow> PacketStatus list \<Rightarrow> u16 \<Rightarrow> u16" where
  "chunk_or j [] chunk = chunk"
| "chunk_or j (s # ss) chunk = chunk_or (j + 1) ss (chunk OR push_bit (12 - 2 * j) (status_code s))"

function TCC_write_chunks :: "nat \<Rightarrow> PacketStatus list \<Rightarrow> bytes \<Rightarrow> nat \<Rightarrow> (bytes \<times> nat) res" where
  "TCC_write_chunks p statuses data len =
     (if statuses = [] then Inr (data, len)
      else bindr (WriteBigEndian 2 data (p + len) (chunk_or 0 (take 7 statuses) 0xC000)) (\<lambda>data.
           TCC_write_chunks p (drop 7 statuses) data (len + 2)))"
  by pat_completeness auto
termination
  by (relation "measure (\<lambda>(p, statuses, data, len). length statuses)") auto

declare TCC_write_chunks.simps [simp del]

fun TCC_write_deltas :: "nat \<Rightarrow> int list \<Rightarrow> bytes \<Rightarrow> nat \<Rightarrow> (bytes \<times> nat) res" where
  "TCC_write_deltas p [] data len = Inr (data, len)"
| "TCC_write_deltas p (d # ds) data len =
     (if delta_is_large d
      then bindr (WriteBigEndian 2 data (p + len) (word_of_int d :: u16)) (\<lambda>data.
           TCC_write_deltas p ds data (len + 2))
      else bindr (WriteBigEndian 1 data (p + len) (word_of_int d :: byte)) (\<lambda>data.
           TCC_write_deltas p ds data (len + 1)))"

function TCC_zero_pad :: "nat \<Rightarrow> bytes \<Rightarrow> nat \<Rightarrow> (bytes \<times> nat) res" where
  "TCC_zero_pad p data len =
     (if len mod 4 \<noteq> 0 then bindr (wr8 data (p + len) 0) (\<lambda>data. TCC_zero_pad p data (len + 1))
      else Inr (data, len))"
  by pat_completeness auto
termination
  by (relation "measure (\<lambda>(p, data, len). (4 - len mod 4) mod 4)") (auto simp: mod_Suc)

declare TCC_zero_pad.simps [simp del]

definition TransportCCFeedBack_Serialize :: "TransportCCFeedBack \<Rightarrow> bytes \<Rightarrow> nat \<Rightarrow> (bytes \<times> nat) res" where
  "TransportCCFeedBack_Serialize self data p =
     (case tcc_packets self of [] \<Rightarrow> Inr (data, 0)
      | (baseSeqNumber, _) # _ \<Rightarrow>
        bindr (WriteBigEndian 2 data p (ucast baseSeqNumber :: u16)) (\<lambda>data.
        bindr (WriteBigEndian 2 data (p + 2) (word_of_nat (length (tcc_packets self)) :: u16)) (\<lambda>data.
        bindr (TCC_scan p (tcc_feedbackPacketCount self) (tcc_packets self) data 4 False 0 [] [])
          (\<lambda>(data, len, deltas, statuses).
        bindr (TCC_write_chunks p statuses data len) (\<lambda>(data, len).
        bindr (TCC_write_deltas p deltas data len) (\<lambda>(data, len).
        TCC_zero_pad p data len))))))"

section \<open>Status chunks\<close>

lemma bit_status_code: "bit (status_code s) k \<Longrightarrow> k < 2"
proof -
  assume "bit (status_code s) k"
  moreover have "status_code s = take_bit 2 (status_code s)" by (cases s) simp_all
  ultimately show "k < 2" by (metis bit_take_bit_iff)
qed

lemma status_of_code [simp]: "status_of (status_code s) = s"
  by (cases s) (simp_all add: status_of_def)

lemma bit_chunk_or:
  assumes "j + length ss \<le> 7"
  shows "bit (chunk_or j ss c) n \<longleftrightarrow> bit c n \<or>
    (n < 14 \<and> j \<le> (13 - n) div 2 \<and> (13 - n) div 2 < j + length ss \<and>
     bit (status_code (ss ! ((13 - n) div 2 - j))) (n mod 2))"
  using assms
proof (induction ss arbitrary: j c)
  case (Cons s ss)
  let ?i = "(13 - n) div 2"
  have "bit (push_bit (12 - 2 * j) (status_code s)) n \<longleftrightarrow> n < 14 \<and> ?i = j \<and> bit (status_code s) (n mod 2)"
  proof (cases "n < 14 \<and> ?i = j")
    case True
    then have "12 - 2 * j \<le> n" "n - (12 - 2 * j) = n mod 2" using Cons.prems by (simp_all, presburger+)
    then show ?thesis using True by (simp add: bit_simps)
  next
    case False
    have "\<not> (12 - 2 * j \<le> n \<and> n - (12 - 2 * j) < 2)" using False Cons.prems by (simp, presburger)
    then show ?thesis using False bit_status_code [of s "n - (12 - 2 * j)"] by (auto simp: bit_simps)
  qed
  then show ?case
    using Cons.IH [of "j + 1" "c OR push_bit (12 - 2 * j) (status_code s)"] Cons.prems
    by (auto simp: bit_or_iff nth_Cons' dest: le_neq_implies_less)
qed auto

lemma chunk_roundtrip:
  assumes "length ss \<le> 7"
  shows "chunk_statuses (chunk_or 0 ss 0xC000) = ss @ replicate (7 - length ss) NotReceived"
proof -
  let ?c = "chunk_or 0 ss 0xC000"
  have c0: "(0xC000 :: u16) = push_bit 14 1 OR push_bit 15 1" by simp
  have hi: "bit (0xC000 :: u16) n \<longleftrightarrow> n = 14 \<or> n = 15" for n
    by (simp only: c0 bit_or_iff bit_push_bit_iff bit_1_iff) auto
  have bits: "bit ?c n \<longleftrightarrow> n = 14 \<or> n = 15 \<or> (n < 14 \<and> (13 - n) div 2 < length ss \<and>
     bit (status_code (ss ! ((13 - n) div 2))) (n mod 2))" for n
    using bit_chunk_or [of 0 ss "0xC000" n, unfolded hi] assms by auto
  have "bit (drop_bit 15 ?c) 0" "bit (drop_bit 14 ?c AND 1) 0" by (simp_all add: bit_simps bits)
  then have top: "drop_bit 15 ?c \<noteq> 0" "drop_bit 14 ?c AND 1 \<noteq> 0" by (metis bit_0_eq bot_apply bot_bool_def)+
  have m: "(0x03 :: u16) = mask 2" by (simp add: mask_eq_exp_minus_1)
  have code: "drop_bit (12 - 2 * j) ?c AND 0x03 = (if j < length ss then status_code (ss ! j) else 0)" if "j < 7" for j
    unfolding m
  proof (rule bit_word_eqI)
    fix k assume "k < LENGTH(16)"
    have "bit ?c (12 - 2 * j + k) \<longleftrightarrow> j < length ss \<and> bit (status_code (ss ! j)) k" if "k < 2"
    proof -
      have "j = 0 \<or> j = 1 \<or> j = 2 \<or> j = 3 \<or> j = 4 \<or> j = 5 \<or> j = 6" "k = 0 \<or> k = 1"
        using \<open>j < 7\<close> that by linarith+
      then have n: "12 - 2 * j + k < 14" "(13 - (12 - 2 * j + k)) div 2 = j" "(12 - 2 * j + k) mod 2 = k"
        by auto
      show ?thesis unfolding bits n using n(1) by auto
    qed
    then show "bit (drop_bit (12 - 2 * j) ?c AND mask 2) k =
        bit (if j < length ss then status_code (ss ! j) else 0) k"
      using bit_status_code [of "ss ! j" k] by (auto simp: bit_simps)
  qed
  have "status_of 0 = NotReceived" by (simp add: status_of_def)
  then have "status_of (drop_bit (12 - 2 * j) ?c AND 0x03) = (ss @ replicate (7 - length ss) NotReceived) ! j"
    if "j < 7" for j
    using that code [OF that] by (simp add: nth_append)
  then show ?thesis
    unfolding chunk_statuses_def using top assms by (simp add: list_eq_iff_nth_eq)
qed

section \<open>The encoding\<close>

fun enc_chunks :: "PacketStatus list \<Rightarrow> bytes" where
  "enc_chunks ss = (if ss = [] then [] else be_bytes 2 (chunk_or 0 (take 7 ss) 0xC000) @ enc_chunks (drop 7 ss))"

declare enc_chunks.simps [simp del]

lemma enc_chunks_Nil [simp]: "enc_chunks [] = []"
  by (simp add: enc_chunks.simps)

definition enc_delta :: "int \<Rightarrow> bytes" where
  "enc_delta d = (if delta_is_large d then be_bytes 2 (word_of_int d :: u16) else [word_of_int d])"

definition enc_deltas :: "int list \<Rightarrow> bytes" where
  "enc_deltas ds = concat (map enc_delta ds)"

lemma enc_deltas_simps [simp]: "enc_deltas [] = []" "enc_deltas (d # ds) = enc_delta d @ enc_deltas ds"
  by (simp_all add: enc_deltas_def)

definition pad4 :: "nat \<Rightarrow> nat" where
  "pad4 len = (4 - len mod 4) mod 4"

lemma pad4_step: "pad4 len = 0 \<Longrightarrow> len mod 4 = 0" "pad4 len = Suc n \<Longrightarrow> len mod 4 \<noteq> 0 \<and> pad4 (len + 1) = n"
proof -
  have "len mod 4 < 4" by simp
  then have "len mod 4 = 0 \<or> len mod 4 = 1 \<or> len mod 4 = 2 \<or> len mod 4 = 3" by linarith
  then show "pad4 len = 0 \<Longrightarrow> len mod 4 = 0" "pad4 len = Suc n \<Longrightarrow> len mod 4 \<noteq> 0 \<and> pad4 (len + 1) = n"
    by (auto simp: pad4_def mod_Suc)
qed

lemma wr_bytes_length: "wr_bytes buf q xs = Inr buf' \<Longrightarrow> q + length xs \<le> length buf'"
  using wr_bytes_Inr_length [of buf q xs buf'] by (auto simp: wr_bytes_def split: if_splits)

lemma wr_bytes_nil: "q \<le> length buf \<Longrightarrow> wr_bytes buf q [] = Inr buf"
  by simp

lemma write_chunks_eq:
  "p + len \<le> length data \<Longrightarrow> TCC_write_chunks p ss data len =
     bindr (wr_bytes data (p + len) (enc_chunks ss)) (\<lambda>d. Inr (d, len + length (enc_chunks ss)))"
proof (induction p ss data len rule: TCC_write_chunks.induct)
  case (1 p ss data len)
  show ?case
  proof (cases "ss = []")
    case True
    then show ?thesis using "1.prems" by (simp add: TCC_write_chunks.simps)
  next
    case False
    let ?c = "be_bytes 2 (chunk_or 0 (take 7 ss) 0xC000)"
    have "TCC_write_chunks p ss data len =
        bindr (wr_bytes data (p + len) ?c) (\<lambda>d. TCC_write_chunks p (drop 7 ss) d (len + 2))"
      using False by (subst TCC_write_chunks.simps) (simp add: be16.wr_eq)
    also have "\<dots> = bindr (wr_bytes data (p + len) ?c) (\<lambda>d. bindr (wr_bytes d (p + (len + 2)) (enc_chunks (drop 7 ss)))
        (\<lambda>d. Inr (d, len + 2 + length (enc_chunks (drop 7 ss)))))"
    proof (rule bindr_cong [OF refl])
      fix d assume d: "wr_bytes data (p + len) ?c = Inr d"
      then have "WriteBigEndian 2 data (p + len) (chunk_or 0 (take 7 ss) 0xC000 :: u16) = Inr d" by (simp add: be16.wr_eq)
      moreover have "p + (len + 2) \<le> length d" using wr_bytes_length [OF d] by simp
      ultimately show "TCC_write_chunks p (drop 7 ss) d (len + 2) =
          bindr (wr_bytes d (p + (len + 2)) (enc_chunks (drop 7 ss)))
            (\<lambda>d. Inr (d, len + 2 + length (enc_chunks (drop 7 ss))))"
        using "1.IH" [OF False] by blast
    qed
    also have "\<dots> = bindr (wr_bytes data (p + len) (enc_chunks ss)) (\<lambda>d. Inr (d, len + length (enc_chunks ss)))"
      using False by (subst wr_bytes_fuse_bind) (simp_all add: enc_chunks.simps [of ss] add.assoc del: wr_bytes_ok)
    finally show ?thesis .
  qed
qed

lemma write_deltas_eq:
  "p + len \<le> length data \<Longrightarrow> TCC_write_deltas p ds data len =
     bindr (wr_bytes data (p + len) (enc_deltas ds)) (\<lambda>d. Inr (d, len + length (enc_deltas ds)))"
proof (induction ds arbitrary: data len)
  case (Cons x ds)
  have "TCC_write_deltas p (x # ds) data len =
      bindr (wr_bytes data (p + len) (enc_delta x)) (\<lambda>d. TCC_write_deltas p ds d (len + length (enc_delta x)))"
    by (simp add: be16.wr_eq write_byte enc_delta_def del: wr_bytes_ok)
  also have "\<dots> = bindr (wr_bytes data (p + len) (enc_delta x)) (\<lambda>d. bindr (wr_bytes d (p + (len + length (enc_delta x))) (enc_deltas ds))
        (\<lambda>d. Inr (d, len + length (enc_delta x) + length (enc_deltas ds))))"
  proof (rule bindr_cong [OF refl])
    fix d assume "wr_bytes data (p + len) (enc_delta x) = Inr d"
    then have "p + (len + length (enc_delta x)) \<le> length d" using wr_bytes_length by fastforce
    then show "TCC_write_deltas p ds d (len + length (enc_delta x)) =
        bindr (wr_bytes d (p + (len + length (enc_delta x))) (enc_deltas ds))
          (\<lambda>d. Inr (d, len + length (enc_delta x) + length (enc_deltas ds)))"
      by (rule Cons.IH)
  qed
  also have "\<dots> = bindr (wr_bytes data (p + len) (enc_deltas (x # ds))) (\<lambda>d. Inr (d, len + length (enc_deltas (x # ds))))"
    by (subst wr_bytes_fuse_bind) (simp_all add: add.assoc del: wr_bytes_ok)
  finally show ?case .
qed simp

lemma zero_pad_eq:
  "p + len \<le> length data \<Longrightarrow> TCC_zero_pad p data len =
     bindr (wr_bytes data (p + len) (replicate (pad4 len) 0)) (\<lambda>d. Inr (d, len + pad4 len))"
proof (induction "pad4 len" arbitrary: data len)
  case 0
  then have "len mod 4 = 0" using pad4_step(1) by simp
  then show ?case using 0 by (subst TCC_zero_pad.simps) simp
next
  case (Suc n)
  then have m: "len mod 4 \<noteq> 0" "pad4 (len + 1) = n" using pad4_step(2) [of len n] by simp_all
  have "TCC_zero_pad p data len = bindr (wr_bytes data (p + len) [0]) (\<lambda>d. TCC_zero_pad p d (len + 1))"
    using m by (subst TCC_zero_pad.simps) (simp add: wr8_wr_bytes)
  also have "\<dots> = bindr (wr_bytes data (p + len) [0]) (\<lambda>d. bindr (wr_bytes d (p + (len + 1)) (replicate n 0))
      (\<lambda>d. Inr (d, len + 1 + n)))"
  proof (rule bindr_cong [OF refl])
    fix d assume "wr_bytes data (p + len) [0] = Inr d"
    then have "p + (len + 1) \<le> length d" using wr_bytes_length by fastforce
    then show "TCC_zero_pad p d (len + 1) = bindr (wr_bytes d (p + (len + 1)) (replicate n 0)) (\<lambda>d. Inr (d, len + 1 + n))"
      using Suc.hyps(1) [of "len + 1" d] m(2) by simp
  qed
  also have "\<dots> = bindr (wr_bytes data (p + len) (replicate (pad4 len) 0)) (\<lambda>d. Inr (d, len + pad4 len))"
    unfolding Suc.hyps(2) [symmetric] by (subst wr_bytes_fuse_bind) (simp_all del: wr_bytes_ok)
  finally show ?case .
qed

section \<open>Quantisation of arrival times\<close>

text \<open>
  The 23-bit reference time counts units of 64 ms, so the code works modulo a window of
  $2^{23} \cdot 64000 = 2^{31} \cdot 250$ microseconds. With \<open>B\<close> the start of the window of all
  the arrivals and \<open>T\<close> the time reached so far, an arrival at \<open>t\<close> contributes \<open>qdelta B T t\<close>.
\<close>

definition tcc_window :: int where "tcc_window = 536870912000"

definition qdelta :: "int \<Rightarrow> int \<Rightarrow> int \<Rightarrow> int" where
  "qdelta B T t = (if T - B < t then (t - T) div 250 else - ((T - t) div 250))"

fun track :: "int \<Rightarrow> int \<Rightarrow> int list \<Rightarrow> (int \<times> int) option list" where
  "track B T [] = []"
| "track B T (t # ts) =
     (if t = 0 then None # track B T ts
      else Some (qdelta B T t, T + 250 * qdelta B T t) # track B (T + 250 * qdelta B T t) ts)"

fun tr_deltas :: "(int \<times> int) option list \<Rightarrow> int list" where
  "tr_deltas [] = []"
| "tr_deltas (None # tr) = tr_deltas tr"
| "tr_deltas (Some (d, T) # tr) = d # tr_deltas tr"

definition tr_status :: "(int \<times> int) option \<Rightarrow> PacketStatus" where
  "tr_status x = (case x of None \<Rightarrow> NotReceived
     | Some (d, T) \<Rightarrow> if delta_is_large d then LargeOrNegativeDelta else SmallDelta)"

lemma tr_status_simps [simp]: "tr_status None = NotReceived"
  "tr_status (Some (d, T)) = (if delta_is_large d then LargeOrNegativeDelta else SmallDelta)"
  by (simp_all add: tr_status_def)

definition arrivals :: "(u32, u64) std_map \<Rightarrow> int list" where
  "arrivals ps = map (\<lambda>e. uint (snd e)) ps"

lemma arrivals_simps [simp]: "arrivals [] = []" "arrivals (e # ps) = uint (snd e) # arrivals ps"
  "length (arrivals ps) = length ps"
  by (simp_all add: arrivals_def)

definition in_window :: "int \<Rightarrow> int \<Rightarrow> bool" where
  "in_window B t \<longleftrightarrow> B \<le> t \<and> t < B + tcc_window"

definition window_start :: "int \<Rightarrow> bool" where
  "window_start B \<longleftrightarrow> 0 \<le> B \<and> 2 * tcc_window dvd B"

lemma qdelta_close:
  assumes "in_window B T" "250 dvd T" "in_window B t" "window_start B"
  shows "in_window B (T + 250 * qdelta B T t)" "250 dvd T + 250 * qdelta B T t"
    "\<bar>t - (T + 250 * qdelta B T t)\<bar> < 250" "- (2 ^ 31) \<le> qdelta B T t" "qdelta B T t < 2 ^ 31"
proof -
  obtain k where "B = 1073741824000 * k" using assms(4) by (auto simp: window_start_def tcc_window_def)
  then obtain b where B: "B = 250 * b" by (simp add: that [of "4294967296 * k"])
  obtain j where T: "T = 250 * j" using assms(2) by auto
  have w: "B \<le> T" "T < B + 536870912000" "B \<le> t" "t < B + 536870912000" "0 \<le> B"
    using assms by (auto simp: in_window_def tcc_window_def window_start_def)
  let ?q = "(t - T) div 250" and ?r = "(T - t) div 250"
  have q: "250 * ?q \<le> t - T" "t - T < 250 * ?q + 250" by simp_all
  have r: "250 * ?r \<le> T - t" "T - t < 250 * ?r + 250" by simp_all
  have "b - 1 < j + ?q" using q(2) w(3) B T by linarith
  then have "b \<le> j + ?q" by linarith
  then have 1: "T + 250 * ?q \<ge> B" using B T by linarith
  have 2: "0 \<le> ?r" if "\<not> T - B < t" using that w by (simp add: pos_imp_zdiv_nonneg_iff)
  show "250 dvd T + 250 * qdelta B T t" using assms(2) by simp
  show "\<bar>t - (T + 250 * qdelta B T t)\<bar> < 250" using q r by (auto simp: qdelta_def)
  show "in_window B (T + 250 * qdelta B T t)"
  proof (cases "T - B < t")
    case True
    then show ?thesis unfolding qdelta_def in_window_def tcc_window_def using q w 1 by simp
  next
    case False
    show ?thesis
      unfolding qdelta_def in_window_def tcc_window_def if_not_P [OF False]
      using r w 2 [OF False] by (intro conjI; linarith)
  qed
  show "- (2 ^ 31) \<le> qdelta B T t" "qdelta B T t < 2 ^ 31" using q r w by (auto simp: qdelta_def)
qed

lemma uint_u64: "0 \<le> x \<Longrightarrow> x < 2 ^ 64 \<Longrightarrow> uint (word_of_int x :: u64) = x"
  by (simp add: uint_word_of_int)

lemma signed_wrap:
  assumes "- (2 ^ 31) \<le> d" "d < 2 ^ 31"
  shows "sint (word_of_int (4294967296 * k + d) :: u32) = d"
proof -
  have "(word_of_int (4294967296 * k + d) :: u32) = word_of_int d"
    by (rule word_uint_eqI) (simp only: uint_word_of_int, simp)
  then show ?thesis using assms by (simp only: sint_sbintrunc') (simp add: signed_take_bit_int_eq_self)
qed

lemma arrival_delta_eq:
  assumes T: "in_window B T" "250 dvd T" and t: "in_window B (uint t)" and B: "window_start B"
  shows "arrival_delta t (word_of_int (T - B)) = Inr (qdelta B T (uint t))"
proof -
  obtain k where k: "B = 1073741824000 * k" using B by (auto simp: window_start_def tcc_window_def)
  have w: "B \<le> T" "T < B + 536870912000" "B \<le> uint t" "uint t < B + 536870912000" "0 \<le> B"
    using T t B by (auto simp: in_window_def tcc_window_def window_start_def)
  define x where "x = (word_of_int (T - B) :: u64)"
  have u: "uint x = T - B" unfolding x_def using w by (intro uint_u64) auto
  have lt: "x < t \<longleftrightarrow> T - B < uint t" unfolding word_less_def u by (rule refl)
  note close = qdelta_close [OF T t B]
  have t64: "uint t < 2 ^ 64" using unsigned_less [of t, where ?'a = int] by simp
  have "arrival_delta t x = Inr (qdelta B T (uint t))"
  proof (cases "T - B < uint t")
    case True
    have "uint (t - x) = uint t - (T - B)"
      using True w t64 by (subst uint_sub_if') (simp add: u)
    moreover have "(uint t - (T - B)) div 250 = 4294967296 * k + (uint t - T) div 250"
    proof -
      have "uint t - (T - B) = (uint t - T) + (4294967296 * k) * 250" using k by simp
      then show ?thesis by simp
    qed
    ultimately have "uint ((t - x) div 250) = 4294967296 * k + (uint t - T) div 250"
      by (simp add: uint_div)
    then have "(ucast ((t - x) div 250) :: u32) = word_of_int (4294967296 * k + (uint t - T) div 250)"
      by (metis of_int_uint)
    then show "arrival_delta t x = Inr (qdelta B T (uint t))"
      using True lt close(4,5) signed_wrap [of "(uint t - T) div 250" k] by (simp add: arrival_delta_def qdelta_def)
  next
    case False
    have "k < 1" "0 \<le> k" using False w k by linarith+
    then have B0: "B = 0" using k by simp
    have "uint (x - t) = T - uint t"
      using False w by (subst uint_sub_if') (simp add: u B0)
    then have "uint ((x - t) div 250) = (T - uint t) div 250" by (simp add: uint_div)
    then have e: "(ucast ((x - t) div 250) :: u32) = word_of_int ((T - uint t) div 250)"
      by (metis of_int_uint)
    have "250 * ((T - uint t) div 250) \<le> T - uint t" by simp
    then have "(T - uint t) div 250 < 2147483648" using w B0 unsigned_greater_eq [of t] by linarith
    moreover have "0 \<le> (T - uint t) div 250" using False B0 by (simp add: pos_imp_zdiv_nonneg_iff)
    ultimately have "0 \<le> (T - uint t) div 250" "(T - uint t) div 250 < 2147483648" by blast+
    then show "arrival_delta t x = Inr (qdelta B T (uint t))"
      using False lt e signed_wrap [of "(T - uint t) div 250" 0] by (simp add: arrival_delta_def qdelta_def)
  qed
  then show ?thesis by (simp only: x_def)
qed

text \<open>The scan after the first received packet leaves the buffer alone and follows \<open>track\<close>.\<close>

lemma scan_received:
  assumes "in_window B T" "250 dvd T" "window_start B"
    and "\<forall>t \<in> set (arrivals ps). t \<noteq> 0 \<longrightarrow> in_window B t"
    and "\<forall>d \<in> set (tr_deltas (track B T (arrivals ps))). - 32768 \<le> d \<and> d < 32768"
  shows "TCC_scan p fb ps data len True (word_of_int (T - B)) ds ss = Inr (data, len,
    ds @ tr_deltas (track B T (arrivals ps)), ss @ map tr_status (track B T (arrivals ps)))"
  using assms
proof (induction ps arbitrary: T ds ss)
  case (Cons kt ps)
  obtain k t where kt: "kt = (k, t)" by fastforce
  show ?case
  proof (cases "t = 0")
    case True
    then show ?thesis using Cons.IH [of T ds "ss @ [NotReceived]"] Cons.prems by (simp add: kt)
  next
    case False
    let ?d = "qdelta B T (uint t)"
    have t: "uint t \<noteq> 0" "in_window B (uint t)" using False Cons.prems(4) by (auto simp: kt uint_0_iff)
    note close = qdelta_close [OF Cons.prems(1,2) t(2) Cons.prems(3)]
    have delta: "arrival_delta t (word_of_int (T - B)) = Inr ?d"
      by (rule arrival_delta_eq [OF Cons.prems(1,2) t(2) Cons.prems(3)])
    have d: "- 32768 \<le> ?d" "?d < 32768" using Cons.prems(5) t(1) by (simp_all add: kt)
    have us: "int32 (?d * 250) = Inr (?d * 250)" using d by simp
    have time: "word_of_int (T - B) + word_of_int (?d * 250) = (word_of_int (T + 250 * ?d - B) :: u64)"
      by (simp add: algebra_simps)
    have "TCC_scan p fb (kt # ps) data len True (word_of_int (T - B)) ds ss =
        TCC_scan p fb ps data len True (word_of_int (T + 250 * ?d - B)) (ds @ [?d])
          (ss @ [if delta_is_large ?d then LargeOrNegativeDelta else SmallDelta])"
      unfolding kt TCC_scan.simps Let_def using False
      by (simp only: if_False if_True bindr_Inr prod.case delta us time)
    also have "\<dots> = Inr (data, len,
        (ds @ [?d]) @ tr_deltas (track B (T + 250 * ?d) (arrivals ps)),
        (ss @ [if delta_is_large ?d then LargeOrNegativeDelta else SmallDelta]) @
          map tr_status (track B (T + 250 * ?d) (arrivals ps)))"
      using Cons.prems close(1,2) t(1) by (intro Cons.IH) (auto simp: kt)
    finally show ?thesis using t(1) by (simp add: kt)
  qed
qed simp

text \<open>The first received packet fixes the reference time.\<close>

definition tcc_ref :: "int \<Rightarrow> int \<Rightarrow> int" where
  "tcc_ref B t = (t - B) div 64000"

definition tcc_start :: "int \<Rightarrow> int \<Rightarrow> int" where
  "tcc_start B t = B + tcc_ref B t * 64000"

lemma tcc_ref_bounds:
  assumes "in_window B t"
  shows "0 \<le> tcc_ref B t" "tcc_ref B t < 2 ^ 23" "tcc_start B t \<le> t" "t < tcc_start B t + 64000"
proof -
  have w: "0 \<le> t - B" "t - B < 536870912000" using assms by (auto simp: in_window_def tcc_window_def)
  show "0 \<le> tcc_ref B t" using w by (simp add: tcc_ref_def pos_imp_zdiv_nonneg_iff)
  have "64000 * tcc_ref B t \<le> t - B" "t - B < 64000 * tcc_ref B t + 64000" by (simp_all add: tcc_ref_def)
  then show "tcc_ref B t < 2 ^ 23" "tcc_start B t \<le> t" "t < tcc_start B t + 64000"
    using w by (simp_all add: tcc_start_def)
qed

lemma reference_time:
  fixes t :: u64
  assumes t: "in_window B (uint t)" and B: "tcc_window dvd B"
  shows "(t div 64000) AND 0x7FFFFF = word_of_int (tcc_ref B (uint t))"
proof -
  obtain k where k: "B = 536870912000 * k" using B by (auto simp: tcc_window_def)
  note r = tcc_ref_bounds(1,2) [OF t]
  have "uint t = (uint t - B) + (8388608 * k) * 64000" using k by simp
  then have "uint t div 64000 = tcc_ref B (uint t) + k * 8388608" unfolding tcc_ref_def by simp
  then have "uint t div 64000 mod 8388608 = tcc_ref B (uint t) mod 8388608" by (simp only: mod_mult_self1)
  then have "uint t div 64000 mod 2 ^ 23 = tcc_ref B (uint t)" using r by simp
  moreover have m: "(t div 64000) AND 0x7FFFFF = take_bit 23 (t div 64000)"
    by (simp add: take_bit_eq_mask mask_eq_exp_minus_1)
  ultimately have "uint ((t div 64000) AND 0x7FFFFF) = tcc_ref B (uint t)"
    unfolding m by (simp add: uint_div uint_mod take_bit_eq_mod)
  then show ?thesis by (metis word_of_int_uint)
qed

lemma start_in_window:
  assumes "in_window B t" "window_start B"
  shows "in_window B (tcc_start B t)" "250 dvd tcc_start B t"
proof -
  show "in_window B (tcc_start B t)"
    using tcc_ref_bounds [OF assms(1)] assms(1) by (auto simp: in_window_def tcc_start_def)
  obtain k where k: "B = 1073741824000 * k" using assms(2) by (auto simp: window_start_def tcc_window_def)
  have "tcc_start B t = 250 * (4294967296 * k + 256 * tcc_ref B t)" by (simp add: tcc_start_def k)
  then show "250 dvd tcc_start B t" by (rule dvdI)
qed

definition first_arrival :: "(u32, u64) std_map \<Rightarrow> int" where
  "first_arrival ps = hd (filter (\<lambda>t. t \<noteq> 0) (arrivals ps))"

lemma scan_eq:
  assumes B: "window_start B" and rec: "\<exists>t \<in> set (arrivals ps). t \<noteq> 0"
    and win: "\<forall>t \<in> set (arrivals ps). t \<noteq> 0 \<longrightarrow> in_window B t"
    and tr: "tr = track B (tcc_start B (first_arrival ps)) (arrivals ps)"
    and fit: "\<forall>d \<in> set (tr_deltas tr). - 32768 \<le> d \<and> d < 32768"
  shows "TCC_scan p fb ps data 4 False 0 [] ss =
    bindr (WriteBigEndian 4 data (p + 4) (word_of_int (256 * tcc_ref B (first_arrival ps)) :: u32)) (\<lambda>data.
    bindr (WriteBigEndian 2 data (p + 7) (ucast fb :: u16)) (\<lambda>data.
    Inr (data, 8, tr_deltas tr, ss @ map tr_status tr)))"
  using rec win tr fit
proof (induction ps arbitrary: ss tr)
  case (Cons kt ps)
  obtain k t where kt: "kt = (k, t)" by fastforce
  show ?case
  proof (cases "t = 0")
    case True
    define tr' where "tr' = track B (tcc_start B (first_arrival ps)) (arrivals ps)"
    have fa: "first_arrival (kt # ps) = first_arrival ps" using True by (simp add: kt first_arrival_def)
    have tr: "tr = None # tr'" unfolding Cons.prems(3) fa tr'_def using True by (simp add: kt)
    have "TCC_scan p fb (kt # ps) data 4 False 0 [] ss = TCC_scan p fb ps data 4 False 0 [] (ss @ [NotReceived])"
      using True by (simp add: kt)
    also have "\<dots> = bindr (WriteBigEndian 4 data (p + 4) (word_of_int (256 * tcc_ref B (first_arrival ps)) :: u32)) (\<lambda>data.
      bindr (WriteBigEndian 2 data (p + 7) (ucast fb :: u16)) (\<lambda>data.
      Inr (data, 8, tr_deltas tr', (ss @ [NotReceived]) @ map tr_status tr')))"
      by (rule Cons.IH) (use Cons.prems True in \<open>auto simp: kt tr tr'_def\<close>)
    finally show ?thesis by (simp add: fa tr)
  next
    case False
    let ?T = "tcc_start B (uint t)"
    have t: "uint t \<noteq> 0" "in_window B (uint t)" using False Cons.prems(2) by (auto simp: kt uint_0_iff)
    have fa: "first_arrival (kt # ps) = uint t" using t(1) by (simp add: kt first_arrival_def)
    note r = tcc_ref_bounds [OF t(2)] and T = start_in_window [OF t(2) B]
    have B': "tcc_window dvd B" using B by (auto simp: window_start_def intro: dvd_mult_right)
    have r32: "(ucast (push_bit 8 (word_of_int (tcc_ref B (uint t)) :: u64)) :: u32) = word_of_int (256 * tcc_ref B (uint t))"
    proof -
      have "uint (push_bit 8 (word_of_int (tcc_ref B (uint t)) :: u64)) = uint (word_of_int (256 * tcc_ref B (uint t)) :: u64)"
        by (simp add: push_bit_eq_mult mult.commute)
      also have "\<dots> = 256 * tcc_ref B (uint t)" using r by (intro uint_u64) auto
      finally show ?thesis by (metis of_int_uint)
    qed
    have time: "word_of_int (tcc_ref B (uint t)) * 64000 = (word_of_int (?T - B) :: u64)" by (simp add: tcc_start_def)
    have rest: "TCC_scan p fb (kt # ps) data' 8 True (word_of_int (?T - B)) [] ss =
        Inr (data', 8, tr_deltas tr, ss @ map tr_status tr)" for data'
      using scan_received [OF T B Cons.prems(2), of p fb data' 8 "[]" ss] Cons.prems(3,4) fa by simp
    have step: "TCC_scan p fb (kt # ps) data 4 False 0 [] ss =
      bindr (WriteBigEndian 4 data (p + 4) (word_of_int (256 * tcc_ref B (uint t)) :: u32)) (\<lambda>data.
      bindr (WriteBigEndian 2 data (p + 7) (ucast fb :: u16)) (\<lambda>data.
      TCC_scan p fb (kt # ps) data 8 True (word_of_int (?T - B)) [] ss))"
      unfolding kt TCC_scan.simps Let_def using False
      by (simp only: if_False if_True reference_time [OF t(2) B'] r32 time bindr_assoc bindr_Inr prod.case) simp
    show ?thesis unfolding step rest fa ..
  qed
qed simp

section \<open>The serialised message\<close>

definition tcc_body :: "(int \<times> int) option list \<Rightarrow> bytes" where
  "tcc_body tr = enc_chunks (map tr_status tr) @ enc_deltas (tr_deltas tr) @
     replicate (pad4 (length (enc_chunks (map tr_status tr) @ enc_deltas (tr_deltas tr)))) 0"

definition enc_tcc :: "u16 \<Rightarrow> u16 \<Rightarrow> int \<Rightarrow> (int \<times> int) option list \<Rightarrow> bytes" where
  "enc_tcc base n ref tr = be_bytes 2 base @ be_bytes 2 n @ be_bytes 4 (word_of_int (256 * ref) :: u32) @ tcc_body tr"

lemma pad4_add8: "pad4 (8 + n) = pad4 n"
proof -
  have "(n + 2 * 4) mod 4 = n mod 4" by (rule mod_mult_self1)
  then show ?thesis by (simp add: pad4_def add.commute)
qed

lemma be_bytes_u16_byte: "be_bytes 2 (ucast (b :: byte) :: u16) = [0, b]"
proof -
  have "(ucast (drop_bit 8 (ucast b :: u16)) :: byte) = 0" "(ucast (ucast b :: u16) :: byte) = b"
    by (rule bit_word_eqI; auto simp: bit_simps dest: bit_imp_le_length)+
  then show ?thesis by (simp add: be_bytes_unfold(2))
qed

lemma write_tail_eq:
  assumes "p + 8 \<le> length data"
  shows "bindr (TCC_write_chunks p (map tr_status tr) data 8) (\<lambda>(data, len).
      bindr (TCC_write_deltas p (tr_deltas tr) data len) (\<lambda>(data, len). TCC_zero_pad p data len)) =
    bindr (wr_bytes data (p + 8) (tcc_body tr)) (\<lambda>d. Inr (d, 8 + length (tcc_body tr)))"
proof -
  let ?c = "enc_chunks (map tr_status tr)" and ?d = "enc_deltas (tr_deltas tr)"
  have "bindr (TCC_write_chunks p (map tr_status tr) data 8) (\<lambda>(data, len).
      bindr (TCC_write_deltas p (tr_deltas tr) data len) (\<lambda>(data, len). TCC_zero_pad p data len)) =
    bindr (wr_bytes data (p + 8) ?c) (\<lambda>data.
      bindr (TCC_write_deltas p (tr_deltas tr) data (8 + length ?c)) (\<lambda>(data, len). TCC_zero_pad p data len))"
    by (simp add: write_chunks_eq [OF assms] bindr_assoc del: wr_bytes_ok)
  also have "\<dots> = bindr (wr_bytes data (p + 8) ?c) (\<lambda>data. bindr (wr_bytes data (p + (8 + length ?c)) ?d) (\<lambda>data.
      bindr (wr_bytes data (p + (8 + length ?c + length ?d)) (replicate (pad4 (8 + length ?c + length ?d)) 0)) (\<lambda>data.
      Inr (data, 8 + length ?c + length ?d + pad4 (8 + length ?c + length ?d)))))"
  proof (rule bindr_cong [OF refl])
    fix x assume "wr_bytes data (p + 8) ?c = Inr x"
    then have x: "p + (8 + length ?c) \<le> length x" using wr_bytes_length by fastforce
    have "TCC_zero_pad p y (8 + length ?c + length ?d) =
        bindr (wr_bytes y (p + (8 + length ?c + length ?d)) (replicate (pad4 (8 + length ?c + length ?d)) 0)) (\<lambda>y.
          Inr (y, 8 + length ?c + length ?d + pad4 (8 + length ?c + length ?d)))"
      if "wr_bytes x (p + (8 + length ?c)) ?d = Inr y" for y
      using wr_bytes_length [OF that] by (intro zero_pad_eq) simp
    then show "bindr (TCC_write_deltas p (tr_deltas tr) x (8 + length ?c)) (\<lambda>(data, len). TCC_zero_pad p data len) =
      bindr (wr_bytes x (p + (8 + length ?c)) ?d) (\<lambda>data.
      bindr (wr_bytes data (p + (8 + length ?c + length ?d)) (replicate (pad4 (8 + length ?c + length ?d)) 0)) (\<lambda>data.
      Inr (data, 8 + length ?c + length ?d + pad4 (8 + length ?c + length ?d))))"
      by (simp add: write_deltas_eq [OF x] bindr_assoc del: wr_bytes_ok cong: bindr_cong)
  qed
  also have "\<dots> = bindr (wr_bytes data (p + 8) (tcc_body tr)) (\<lambda>d. Inr (d, 8 + length (tcc_body tr)))"
    by (simp add: buffer_simps tcc_body_def pad4_add8 add.assoc del: wr_bytes_ok)
  finally show ?thesis .
qed

lemma tcc_body_nonempty: "tr \<noteq> [] \<Longrightarrow> 2 \<le> length (tcc_body tr)"
  by (simp add: tcc_body_def enc_chunks.simps [of "map tr_status tr"])

lemma low_byte_zero: "take 3 (be_bytes 4 (256 * w :: u32)) @ 0 # ys = be_bytes 4 (256 * w) @ ys"
proof -
  have "256 * w = push_bit 8 w" by (simp add: push_bit_eq_mult mult.commute)
  moreover have "(ucast (push_bit 8 w) :: byte) = 0" by (rule bit_word_eqI) (auto simp: bit_simps)
  ultimately show ?thesis by (simp add: be_bytes_unfold(3))
qed

lemma tcc_serialize_eq:
  assumes B: "window_start B" and ps: "ps = tcc_packets self" and rec: "\<exists>t \<in> set (arrivals ps). t \<noteq> 0"
    and win: "\<forall>t \<in> set (arrivals ps). t \<noteq> 0 \<longrightarrow> in_window B t"
    and tr: "tr = track B (tcc_start B (first_arrival ps)) (arrivals ps)"
    and fit: "\<forall>d \<in> set (tr_deltas tr). - 32768 \<le> d \<and> d < 32768"
    and enc: "enc = enc_tcc (ucast (fst (hd ps))) (word_of_nat (length ps)) (tcc_ref B (first_arrival ps)) tr"
  shows "TransportCCFeedBack_Serialize self data p = bindr (wr_bytes data p enc) (\<lambda>d. Inr (d, length enc))"
proof -
  let ?n = "word_of_nat (length ps) :: u16" and ?b = "ucast (fst (hd ps)) :: u16"
  let ?r = "word_of_int (256 * tcc_ref B (first_arrival ps)) :: u32"
  let ?fb = "tcc_feedbackPacketCount self"
  obtain k t ps' where ps1: "ps = (k, t) # ps'" using rec by (cases ps) auto
  have scan: "TCC_scan p ?fb ps data 4 False 0 [] [] =
      bindr (wr_bytes data (p + 4) (be_bytes 4 ?r)) (\<lambda>data. bindr (wr_bytes data (p + 7) [0, ?fb]) (\<lambda>data.
      Inr (data, 8, tr_deltas tr, map tr_status tr)))" for data
    using scan_eq [OF B rec win tr fit, of p ?fb data "[]"] by (simp add: be32.wr_eq be16.wr_eq be_bytes_u16_byte del: wr_bytes_ok)
  have "TransportCCFeedBack_Serialize self data p =
      bindr (wr_bytes data p (be_bytes 2 ?b @ be_bytes 2 ?n @ be_bytes 4 ?r)) (\<lambda>data.
      bindr (wr_bytes data (p + 7) [0, ?fb]) (\<lambda>data.
      bindr (TCC_write_chunks p (map tr_status tr) data 8) (\<lambda>(data, len).
      bindr (TCC_write_deltas p (tr_deltas tr) data len) (\<lambda>(data, len). TCC_zero_pad p data len))))"
    unfolding TransportCCFeedBack_Serialize_def ps [symmetric] ps1 list.case prod.case
    unfolding ps1 [symmetric] scan be16.wr_eq bindr_assoc bindr_Inr prod.case
    by (simp add: buffer_simps ps1 del: wr_bytes_ok)
  also have "\<dots> = bindr (wr_bytes data p (be_bytes 2 ?b @ be_bytes 2 ?n @ be_bytes 4 ?r)) (\<lambda>data.
      bindr (wr_bytes data (p + 7) [0, ?fb]) (\<lambda>data.
      bindr (wr_bytes data (p + 8) (tcc_body tr)) (\<lambda>d. Inr (d, 8 + length (tcc_body tr)))))"
  proof (intro bindr_cong refl)
    fix x y assume "wr_bytes x (p + 7) [0, ?fb] = Inr y"
    then have "p + 8 \<le> length y" using wr_bytes_length by fastforce
    then show "bindr (TCC_write_chunks p (map tr_status tr) y 8) (\<lambda>(data, len).
      bindr (TCC_write_deltas p (tr_deltas tr) data len) (\<lambda>(data, len). TCC_zero_pad p data len)) =
      bindr (wr_bytes y (p + 8) (tcc_body tr)) (\<lambda>d. Inr (d, 8 + length (tcc_body tr)))"
      by (rule write_tail_eq)
  qed
  also have "\<dots> = bindr (wr_bytes data p enc) (\<lambda>d. Inr (d, length enc))"
  proof -
    have "tr \<noteq> []" using ps1 tr by auto
    note len = tcc_body_nonempty [OF this]
    have "bindr (wr_bytes x (p + 7) [0, ?fb]) (\<lambda>data. bindr (wr_bytes data (p + 8) (tcc_body tr)) f) =
        bindr (wr_bytes x (p + 7) (0 # tcc_body tr)) f" for x and f :: "bytes \<Rightarrow> (bytes \<times> nat) res"
      using len by (subst wr_bytes_overwrite_bind) (simp_all del: wr_bytes_ok)
    moreover have "bindr (wr_bytes data p (be_bytes 2 ?b @ be_bytes 2 ?n @ be_bytes 4 ?r)) (\<lambda>data.
        bindr (wr_bytes data (p + 7) (0 # tcc_body tr)) f) = bindr (wr_bytes data p enc) f" for f :: "bytes \<Rightarrow> (bytes \<times> nat) res"
      using len by (subst wr_bytes_overwrite_bind) (simp_all add: enc enc_tcc_def low_byte_zero del: wr_bytes_ok)
    ultimately show ?thesis by (simp add: enc enc_tcc_def del: wr_bytes_ok)
  qed
  finally show ?thesis .
qed

section \<open>Parsing the serialised message\<close>

lemma rd16_here: "p = length pre \<Longrightarrow> ReadBigEndian 2 (pre @ be_bytes 2 (v :: u16) @ post) p = Inr v"
  by (simp add: be16.rd_eq)

lemma parse_chunks:
  assumes "int len + int (length (enc_chunks ss)) \<le> sz" "len = length mid"
  shows "\<exists>k. TCC_Parse_chunks (pre @ mid @ enc_chunks ss @ post) (length pre) sz (length st + length ss) len st =
    Inr (Some (st @ ss @ replicate k NotReceived, len + length (enc_chunks ss)))"
  using assms
proof (induction ss arbitrary: mid st len rule: enc_chunks.induct)
  case (1 ss)
  show ?case
  proof (cases "ss = []")
    case True
    then show ?thesis by (subst TCC_Parse_chunks.simps) simp
  next
    case False
    let ?c = "chunk_or 0 (take 7 ss) 0xC000" and ?data = "pre @ mid @ enc_chunks ss @ post"
    have enc: "enc_chunks ss = be_bytes 2 ?c @ enc_chunks (drop 7 ss)" using False by (simp add: enc_chunks.simps [of ss])
    have data: "?data = pre @ (mid @ be_bytes 2 ?c) @ enc_chunks (drop 7 ss) @ post" by (simp add: enc)
    have rd: "ReadBigEndian 2 ?data (length pre + len) = Inr ?c"
      using rd16_here [of "length pre + len" "pre @ mid" ?c] "1.prems"(2) by (simp add: enc)
    have st: "chunk_statuses ?c = take 7 ss @ replicate (7 - length ss) NotReceived"
      using chunk_roundtrip [of "take 7 ss"] by (simp add: min_def)
    have step: "TCC_Parse_chunks ?data (length pre) sz (length st + length ss) len st =
        TCC_Parse_chunks ?data (length pre) sz (length st + length ss) (len + 2)
          (st @ take 7 ss @ replicate (7 - length ss) NotReceived)"
      using False "1.prems"(1) rd by (subst TCC_Parse_chunks.simps) (simp add: enc st)
    show ?thesis
    proof (cases "length ss \<le> 7")
      case True
      then show ?thesis
        unfolding step by (subst TCC_Parse_chunks.simps) (auto simp: enc)
    next
      case long: False
      have td: "take 7 ss @ drop 7 ss @ ys = ss @ ys" for ys by (metis append_assoc append_take_drop_id)
      have "\<exists>k. TCC_Parse_chunks (pre @ (mid @ be_bytes 2 ?c) @ enc_chunks (drop 7 ss) @ post) (length pre) sz
          (length (st @ take 7 ss) + length (drop 7 ss)) (len + 2) (st @ take 7 ss) =
          Inr (Some ((st @ take 7 ss) @ drop 7 ss @ replicate k NotReceived, len + 2 + length (enc_chunks (drop 7 ss))))"
        using "1.prems" False by (intro "1.IH") (simp_all add: enc)
      then show ?thesis unfolding step using long by (simp add: enc td add.assoc)
    qed
  qed
qed

text \<open>The map that the delta loop builds: arrival \<open>T\<close> of the track becomes \<open>off + T\<close>.\<close>

fun decoded :: "u32 \<Rightarrow> u64 \<Rightarrow> (int \<times> int) option list \<Rightarrow> (u32, u64) std_map \<Rightarrow> (u32, u64) std_map" where
  "decoded num off [] m = m"
| "decoded num off (None # tr) m = decoded (num + 1) off tr (map_set num 0 m)"
| "decoded num off (Some (d, T) # tr) m = decoded (num + 1) off tr (map_set num (off + word_of_int T) m)"

lemma read_s16:
  assumes "ReadBigEndian 2 data p = Inr (word_of_int d :: u16)" "- 32768 \<le> d" "d < 32768"
  shows "ReadBigEndian_signed TYPE(u16) 2 data p = Inr d"
proof -
  have "word_of_int d = take_bit (8 * 2) (word_of_int d :: u16)"
    by (rule bit_word_eqI) (auto simp: bit_simps)
  from signed_read_back [OF _ _ _ _ _ _ this] assms show ?thesis
    by (simp add: ReadBigEndian_signed_def sizeof_def)
qed

lemma read_s8: "0 \<le> d \<Longrightarrow> d \<le> 127 \<Longrightarrow> uint (word_of_int d :: byte) = d"
  by (simp add: uint_word_of_int)

lemma rd8_here: "p = length pre \<Longrightarrow> ReadBigEndian 1 (pre @ [v :: byte] @ post) p = Inr v"
  unfolding be8.rd_eq by (simp add: be_word_def)

lemma parse_deltas:
  assumes "tr = track B T ts" "\<forall>d \<in> set (tr_deltas tr). - 32768 \<le> d \<and> d < 32768"
    and "len = length mid" "int len + int (length (enc_deltas (tr_deltas tr))) \<le> sz"
  shows "TCC_Parse_deltas (pre @ mid @ enc_deltas (tr_deltas tr) @ post) (length pre) sz num len
    (off + word_of_int T) (map tr_status tr) m = Inr (decoded num off tr m)"
  using assms
proof (induction ts arbitrary: tr T mid len num m)
  case (Cons t ts)
  show ?case
  proof (cases "t = 0")
    case True
    then show ?thesis using Cons.IH [OF refl, of T len mid "num + 1" "map_set num 0 m"] Cons.prems by simp
  next
    case False
    let ?d = "qdelta B T t" and ?T = "T + 250 * qdelta B T t"
    let ?tr = "track B ?T ts"
    let ?rest = "enc_deltas (tr_deltas ?tr) @ post"
    have tr: "tr = Some (?d, ?T) # ?tr" using Cons.prems(1) False by simp
    have d: "- 32768 \<le> ?d" "?d < 32768" using Cons.prems(2) by (simp_all add: tr)
    have time: "off + word_of_int T + word_of_int (?d * 250) = off + word_of_int ?T" by (simp add: mult.commute add.assoc)
    have IH: "TCC_Parse_deltas (pre @ (mid @ enc_delta ?d) @ ?rest) (length pre) sz (num + 1)
        (len + length (enc_delta ?d)) (off + word_of_int ?T) (map tr_status ?tr) m' = Inr (decoded (num + 1) off ?tr m')" for m'
      using Cons.prems by (intro Cons.IH [OF refl]) (simp_all add: tr)
    show ?thesis
    proof (cases "delta_is_large ?d")
      case True
      have "ReadBigEndian 2 (pre @ mid @ be_bytes 2 (word_of_int ?d :: u16) @ ?rest) (length pre + len) = Inr (word_of_int ?d :: u16)"
        using rd16_here [of "length pre + len" "pre @ mid"] Cons.prems(3) by simp
      from read_s16 [OF this d] show ?thesis
        using IH Cons.prems(4) True time by (simp add: tr enc_delta_def Let_def add.assoc del: of_int_add of_int_mult)
    next
      case False
      then have s: "uint (word_of_int ?d :: byte) = ?d" by (intro read_s8) (auto simp: delta_is_large_def)
      have "ReadBigEndian 1 (pre @ mid @ [word_of_int ?d :: byte] @ ?rest) (length pre + len) = Inr (word_of_int ?d :: byte)"
        using rd8_here [of "length pre + len" "pre @ mid"] Cons.prems(3) by simp
      then show ?thesis
        using IH Cons.prems(4) False time s by (simp add: tr enc_delta_def Let_def add.assoc del: of_int_add of_int_mult)
    qed
  qed
qed simp

lemma decoded_other:
  "\<forall>i < length tr. k \<noteq> num + word_of_nat i \<Longrightarrow> map_of (decoded num off tr m) k = map_of m k"
proof (induction num off tr m rule: decoded.induct)
  case (2 num off tr m)
  have "k \<noteq> num" "\<forall>i < length tr. k \<noteq> num + 1 + word_of_nat i"
    using "2.prems" [rule_format, of 0] "2.prems" [rule_format, of "Suc i" for i] by (auto simp: add.assoc)
  then show ?case using "2.IH" by simp
next
  case (3 num off d T tr m)
  have "k \<noteq> num" "\<forall>i < length tr. k \<noteq> num + 1 + word_of_nat i"
    using "3.prems" [rule_format, of 0] "3.prems" [rule_format, of "Suc i" for i] by (auto simp: add.assoc)
  then show ?case using "3.IH" by simp
qed simp

lemma succ_keys_differ: "Suc i < 4294967296 \<Longrightarrow> num \<noteq> num + 1 + (word_of_nat i :: u32)"
proof
  assume "Suc i < 4294967296" "num = num + 1 + (word_of_nat i :: u32)"
  then have "word_of_nat (Suc i) = (0 :: u32)" by (simp add: add.assoc)
  then have "unat (word_of_nat (Suc i) :: u32) = 0" by simp
  then show False using \<open>Suc i < 4294967296\<close> by (simp only: unat_of_nat) simp
qed

lemma decoded_lookup:
  assumes "i < length tr" "length tr < 4294967296"
  shows "map_of (decoded num off tr m) (num + word_of_nat i) =
    Some (case tr ! i of None \<Rightarrow> 0 | Some (d, T) \<Rightarrow> off + word_of_int T)"
  using assms
proof (induction num off tr m arbitrary: i rule: decoded.induct)
  case (2 num off tr m)
  show ?case
  proof (cases i)
    case 0
    have "map_of (decoded (num + 1) off tr (map_set num 0 m)) num = map_of (map_set num 0 m) num"
      using "2.prems" succ_keys_differ by (intro decoded_other) auto
    then show ?thesis using 0 by simp
  next
    case (Suc j)
    then show ?thesis using "2.IH" [of j] "2.prems" by (simp add: add.assoc)
  qed
next
  case (3 num off d T tr m)
  show ?case
  proof (cases i)
    case 0
    have "map_of (decoded (num + 1) off tr (map_set num (off + word_of_int T) m)) num =
        map_of (map_set num (off + word_of_int T) m) num"
      using "3.prems" succ_keys_differ by (intro decoded_other) auto
    then show ?thesis using 0 by simp
  next
    case (Suc j)
    then show ?thesis using "3.IH" [of j] "3.prems" by (simp add: add.assoc)
  qed
qed simp

lemma length_track [simp]: "length (track B T ts) = length ts"
  by (induction B T ts rule: track.induct) auto

lemma track_accurate:
  assumes "in_window B T" "250 dvd T" "window_start B" "\<forall>t \<in> set ts. t \<noteq> 0 \<longrightarrow> in_window B t" "i < length ts"
  shows "if ts ! i = 0 then track B T ts ! i = None
    else \<exists>d T'. track B T ts ! i = Some (d, T') \<and> \<bar>ts ! i - T'\<bar> < 250"
  using assms
proof (induction ts arbitrary: T i)
  case (Cons t ts)
  show ?case
  proof (cases "t = 0")
    case True
    then show ?thesis using Cons.IH [of T "i - 1"] Cons.prems by (cases i) auto
  next
    case False
    then have t: "in_window B t" using Cons.prems by simp
    note c = qdelta_close [OF Cons.prems(1,2) t Cons.prems(3)]
    show ?thesis
      using Cons.IH [OF c(1,2) Cons.prems(3), of "i - 1"] Cons.prems False c(3) by (cases i) auto
  qed
qed simp

text \<open>Arrivals within eight seconds of one another have deltas of 16 bits.\<close>

lemma track_fits:
  assumes "in_window B T" "250 dvd T" "window_start B" "\<forall>t \<in> set ts. t \<noteq> 0 \<longrightarrow> in_window B t"
    and "\<forall>t \<in> set ts. t \<noteq> 0 \<longrightarrow> \<bar>t - T\<bar> \<le> 8064000"
    and "\<forall>s \<in> set ts. \<forall>t \<in> set ts. s \<noteq> 0 \<longrightarrow> t \<noteq> 0 \<longrightarrow> \<bar>s - t\<bar> \<le> 8000000"
  shows "\<forall>d \<in> set (tr_deltas (track B T ts)). - 32768 \<le> d \<and> d < 32768"
  using assms
proof (induction ts arbitrary: T)
  case (Cons t ts)
  show ?case
  proof (cases "t = 0")
    case True
    then show ?thesis using Cons.IH [OF Cons.prems(1-3)] Cons.prems(4-6) by simp
  next
    case False
    then have t: "in_window B t" using Cons.prems by simp
    let ?d = "qdelta B T t"
    note c = qdelta_close [OF Cons.prems(1,2) t Cons.prems(3)]
    have "\<bar>t - T\<bar> \<le> 8064000" using False Cons.prems(5) by simp
    then have "- 32768 \<le> ?d" "?d < 32768" using c(3) by linarith+
    moreover have "\<forall>s \<in> set ts. s \<noteq> 0 \<longrightarrow> \<bar>s - (T + 250 * ?d)\<bar> \<le> 8064000"
    proof (intro ballI impI)
      fix s assume "s \<in> set ts" "s \<noteq> 0"
      then have "\<bar>s - t\<bar> \<le> 8000000" using False Cons.prems(6) by simp
      then show "\<bar>s - (T + 250 * ?d)\<bar> \<le> 8064000" using c(3) by linarith
    qed
    ultimately show ?thesis using Cons.IH [OF c(1,2) Cons.prems(3)] Cons.prems(4,6) False by simp
  qed
qed simp

lemma base_number: "(be_word (be_bytes 2 (b :: u16) @ be_bytes 2 (n :: u16)) :: u32) = push_bit 16 (ucast b) OR ucast n"
proof (rule bit_word_eqI)
  fix k assume "k < LENGTH(32)"
  then show "bit (be_word (be_bytes 2 b @ be_bytes 2 n) :: u32) k = bit (push_bit 16 (ucast b) OR ucast n :: u32) k"
    by (cases "k < 8"; cases "k < 16"; cases "k < 24")
      (auto simp: be_bytes_unfold(2) be_word_Cons bit_simps dest: bit_imp_le_length)
qed

lemma low_byte_masked: "(256 * w :: u32) AND 0xFFFFFF00 = 256 * w"
proof -
  have e: "256 * w = push_bit 8 w" "(0xFFFFFF00 :: u32) = NOT (mask 8)"
    by (simp_all add: push_bit_eq_mult mult.commute mask_eq_exp_minus_1)
  show ?thesis unfolding e by (rule bit_word_eqI) (auto simp: bit_simps)
qed

lemma tcc_parse_enc:
  assumes tr: "tr = track B T ts" "\<forall>d \<in> set (tr_deltas tr). - 32768 \<le> d \<and> d < 32768" "length ts < 65536"
    and enc: "enc = enc_tcc b (word_of_nat (length ts)) r tr" and sz: "sz = int (length enc)"
  shows "\<exists>fb. TransportCCFeedBack_Parse self (pre @ enc @ post) (length pre) sz = Inr fb \<and>
    tcc_packets fb = decoded (push_bit 16 (ucast b) OR word_of_nat (length ts))
      (ucast (256 * word_of_int r * 64000 :: u32) - word_of_int T) tr (tcc_packets self)"
proof -
  let ?n = "word_of_nat (length ts) :: u16" and ?r = "256 * word_of_int r :: u32"
  let ?hdr = "be_bytes 2 b @ be_bytes 2 ?n @ be_bytes 4 ?r"
  let ?c = "enc_chunks (map tr_status tr)" and ?d = "enc_deltas (tr_deltas tr)"
  define pad where "pad = replicate (pad4 (length (?c @ ?d))) (0 :: byte)"
  have e: "enc = ?hdr @ ?c @ ?d @ pad" unfolding enc enc_tcc_def tcc_body_def pad_def by simp
  let ?data = "pre @ enc @ post"
  have n: "unat ?n = length tr" using tr(3) by (simp add: unat_of_nat tr(1))
  have n32: "ucast ?n = (word_of_nat (length ts) :: u32)"
    using tr(3) by (metis n tr(1) length_track of_nat_unat)
  have rds: "ReadBigEndian 4 ?data (length pre) = Inr (push_bit 16 (ucast b) OR ucast ?n :: u32)"
      "ReadBigEndian 2 ?data (length pre + 2) = Inr ?n" "ReadBigEndian 4 ?data (length pre + 4) = Inr ?r"
    by (simp_all add: be32.rd_eq be16.rd_eq e base_number)
  obtain x :: byte where x: "ReadBigEndian 1 ?data (length pre + 7) = Inr x"
    using be8.rd_ok_iff [of ?data "length pre + 7"] e by auto
  have "\<exists>k. TCC_Parse_chunks (pre @ ?hdr @ ?c @ ?d @ pad @ post) (length pre) sz (length ([] :: PacketStatus list) + length (map tr_status tr)) 8 [] =
      Inr (Some ([] @ map tr_status tr @ replicate k NotReceived, 8 + length ?c))"
    by (rule parse_chunks) (simp_all add: sz e)
  then obtain k where chunks: "TCC_Parse_chunks ?data (length pre) sz (length tr) 8 [] =
      Inr (Some (map tr_status tr @ replicate k NotReceived, 8 + length ?c))"
    by (auto simp: e)
  let ?off = "ucast (?r * 64000) - word_of_int T :: u64" and ?num = "push_bit 16 (ucast b) OR ucast ?n :: u32"
  have "TCC_Parse_deltas (pre @ (?hdr @ ?c) @ ?d @ pad @ post) (length pre) sz ?num (8 + length ?c)
      (?off + word_of_int T) (map tr_status tr) (tcc_packets self) = Inr (decoded ?num ?off tr (tcc_packets self))"
    by (rule parse_deltas [OF tr(1,2)]) (simp_all add: sz e)
  then have deltas: "TCC_Parse_deltas ?data (length pre) sz ?num (8 + length ?c)
      (ucast (?r * 64000)) (map tr_status tr) (tcc_packets self) = Inr (decoded ?num ?off tr (tcc_packets self))"
    by (simp add: e)
  have "\<not> sz < 8" by (simp add: sz e)
  then show ?thesis
    unfolding TransportCCFeedBack_Parse_def rds bindr_Inr x Let_def n chunks n32 [symmetric]
    using deltas by (simp add: low_byte_masked)
qed

lemma length_enc_tcc_le: "length (enc_tcc b n r tr) \<le> 4 * length tr + 11"
proof -
  have "length (enc_chunks ss) \<le> 2 * length ss" for ss
  proof (induction ss rule: enc_chunks.induct)
    case (1 ss)
    then show ?case by (cases "ss = []") (auto simp: enc_chunks.simps [of ss] neq_Nil_conv)
  qed
  then have "length (enc_chunks (map tr_status tr)) \<le> 2 * length tr" by (metis length_map)
  moreover have "length (enc_deltas (tr_deltas tr)) \<le> 2 * length tr"
    by (induction tr rule: tr_deltas.induct) (auto simp: enc_delta_def)
  moreover have "pad4 k \<le> 3" for k using mod_less_divisor [of 4 "4 - k mod 4"] by (simp add: pad4_def)
  ultimately have "length (enc_chunks (map tr_status tr)) + length (enc_deltas (tr_deltas tr)) +
      pad4 (length (enc_chunks (map tr_status tr)) + length (enc_deltas (tr_deltas tr))) \<le> 2 * length tr + 2 * length tr + 3"
    by (intro add_mono)
  then show ?thesis by (simp add: enc_tcc_def tcc_body_def)
qed

lemma pad4_aligns: "(len + pad4 len) mod 4 = 0"
proof (induction "pad4 len" arbitrary: len)
  case 0
  then show ?case using pad4_step(1) by simp
next
  case (Suc n)
  then show ?case using pad4_step(2) [of len n] Suc.hyps(1) [of "len + 1"] Suc.hyps(2) [symmetric] by simp
qed

lemma length_enc_tcc_mod: "length (enc_tcc b n r tr) mod 4 = 0"
proof -
  let ?l = "length (enc_chunks (map tr_status tr) @ enc_deltas (tr_deltas tr))"
  have "length (enc_tcc b n r tr) = (?l + pad4 ?l) + 2 * 4" by (simp add: enc_tcc_def tcc_body_def)
  then show ?thesis using pad4_aligns [of ?l] by (simp only: mod_mult_self1)
qed

lemma first_arrival_received:
  assumes "\<exists>t \<in> set (arrivals ps). t \<noteq> 0"
  shows "first_arrival ps \<in> set (arrivals ps)" "first_arrival ps \<noteq> 0"
proof -
  have "filter (\<lambda>t. t \<noteq> 0) (arrivals ps) \<noteq> []" using assms by (auto simp: filter_empty_conv)
  then have "first_arrival ps \<in> set (filter (\<lambda>t. t \<noteq> 0) (arrivals ps))" unfolding first_arrival_def by (rule hd_in_set)
  then show "first_arrival ps \<in> set (arrivals ps)" "first_arrival ps \<noteq> 0" by auto
qed

lemma deltas_fit:
  assumes B: "window_start B" and rec: "\<exists>t \<in> set (arrivals ps). t \<noteq> 0"
    and win: "\<forall>t \<in> set (arrivals ps). t \<noteq> 0 \<longrightarrow> in_window B t"
    and near: "\<forall>s \<in> set (arrivals ps). \<forall>t \<in> set (arrivals ps). s \<noteq> 0 \<longrightarrow> t \<noteq> 0 \<longrightarrow> \<bar>s - t\<bar> \<le> 8000000"
  shows "\<forall>d \<in> set (tr_deltas (track B (tcc_start B (first_arrival ps)) (arrivals ps))). - 32768 \<le> d \<and> d < 32768"
proof -
  note f = first_arrival_received [OF rec]
  have fw: "in_window B (first_arrival ps)" using f win by blast
  show ?thesis
  proof (rule track_fits [OF start_in_window [OF fw B] B win _ near], intro ballI impI)
    fix t assume "t \<in> set (arrivals ps)" "t \<noteq> 0"
    then have "\<bar>t - first_arrival ps\<bar> \<le> 8000000" using near f by blast
    then show "\<bar>t - tcc_start B (first_arrival ps)\<bar> \<le> 8064000" using tcc_ref_bounds(3,4) [OF fw] by linarith
  qed
qed

text \<open>What the parser finds for the \<open>i\<close>-th packet.\<close>

lemma decoded_time:
  assumes T: "in_window B T" "250 dvd T" and B: "window_start B" and win: "\<forall>t \<in> set (arrivals ps). t \<noteq> 0 \<longrightarrow> in_window B t"
    and i: "i < length ps" and n: "length ps < 65536"
  shows "\<exists>e. \<bar>e\<bar> < 250 \<and> map_of (decoded num off (track B T (arrivals ps)) []) (num + word_of_nat i) =
    Some (if snd (ps ! i) = 0 then 0 else off + snd (ps ! i) + word_of_int e)"
proof -
  let ?ts = "arrivals ps" and ?tr = "track B T (arrivals ps)"
  have lk: "map_of (decoded num off ?tr []) (num + word_of_nat i) =
      Some (case ?tr ! i of None \<Rightarrow> 0 | Some (d, T) \<Rightarrow> off + word_of_int T)"
    using i n by (intro decoded_lookup) simp_all
  have ti: "?ts ! i = uint (snd (ps ! i))" using i by (simp add: arrivals_def)
  have acc: "if ?ts ! i = 0 then ?tr ! i = None else \<exists>d T'. ?tr ! i = Some (d, T') \<and> \<bar>?ts ! i - T'\<bar> < 250"
    using track_accurate [OF T B win, of i] i by simp
  show ?thesis
  proof (cases "snd (ps ! i) = 0")
    case True
    then show ?thesis using lk acc ti by (intro exI [of _ 0]) simp
  next
    case False
    then have "?ts ! i \<noteq> 0" by (simp add: ti uint_0_iff)
    with acc obtain d T' where T': "?tr ! i = Some (d, T')" "\<bar>?ts ! i - T'\<bar> < 250" by auto
    have "(word_of_int T' :: u64) = snd (ps ! i) + word_of_int (T' - ?ts ! i)" by (simp add: ti)
    then show ?thesis using lk T' False by (intro exI [of _ "T' - ?ts ! i"]) (simp add: add.assoc abs_minus_commute)
  qed
qed

section \<open>Properties of the feedback message\<close>

text \<open>
  C8. Feedback for received packets (fewer than 65536 numbers, at least one received) whose arrival
  times lie in one even window of the reference time (\<open>window_start\<close>: its index is even; in the odd ones
  C31 shows an overflow) and within eight seconds of each other serialises without fault into a whole number
  of words, and parsing the message yields an entry for every packet: none received for the
  lost ones and for a received one its arrival time up to less than 250 microseconds and up
  to an offset that is the same for the whole message. The error does not accumulate over
  the deltas. The keys continue from the base number and the packet count read as one
  32-bit number.
\<close>

theorem tcc_roundtrip:
  assumes B: "window_start B" and ps: "ps = tcc_packets self" and rec: "\<exists>t \<in> set (arrivals ps). t \<noteq> 0"
    and win: "\<forall>t \<in> set (arrivals ps). t \<noteq> 0 \<longrightarrow> in_window B t"
    and near: "\<forall>s \<in> set (arrivals ps). \<forall>t \<in> set (arrivals ps). s \<noteq> 0 \<longrightarrow> t \<noteq> 0 \<longrightarrow> \<bar>s - t\<bar> \<le> 8000000"
    and n: "length ps < 65536" and room: "p + 4 * length ps + 11 \<le> length data"
  shows "\<exists>out len fb off. TransportCCFeedBack_Serialize self data p = Inr (out, len) \<and> length out = length data \<and> len mod 4 = 0 \<and>
    TransportCCFeedBack_Parse (TransportCCFeedBack_new junk) out p (int len) = Inr fb \<and>
    (\<forall>i < length ps. \<exists>e. \<bar>e\<bar> < 250 \<and>
      map_of (tcc_packets fb) ((push_bit 16 (ucast (ucast (fst (hd ps)) :: u16)) OR word_of_nat (length ps)) + word_of_nat i) =
        Some (if snd (ps ! i) = 0 then 0 else off + snd (ps ! i) + word_of_int e))"
proof -
  let ?T = "tcc_start B (first_arrival ps)" and ?ts = "arrivals ps"
  let ?b = "ucast (fst (hd ps)) :: u16"
  define tr where "tr = track B ?T ?ts"
  have fw: "in_window B (first_arrival ps)" using first_arrival_received [OF rec] win by blast
  note fit = deltas_fit [OF B rec win near, folded tr_def]
  define enc where "enc = enc_tcc ?b (word_of_nat (length ps)) (tcc_ref B (first_arrival ps)) tr"
  have len: "p + length enc \<le> length data"
    using length_enc_tcc_le [of ?b "word_of_nat (length ps)" "tcc_ref B (first_arrival ps)" tr] room
    by (simp add: enc_def tr_def)
  let ?out = "take p data @ enc @ drop (p + length enc) data"
  have ser: "TransportCCFeedBack_Serialize self data p = Inr (?out, length enc)"
    using tcc_serialize_eq [OF B ps rec win tr_def fit enc_def] len by simp
  have p: "length (take p data) = p" using len by simp
  let ?off = "ucast (256 * word_of_int (tcc_ref B (first_arrival ps)) * 64000 :: u32) - word_of_int ?T :: u64"
  let ?num = "push_bit 16 (ucast ?b) OR word_of_nat (length ps) :: u32"
  from tcc_parse_enc [OF tr_def fit, of enc ?b "tcc_ref B (first_arrival ps)" "int (length enc)" "TransportCCFeedBack_new junk"
      "take p data" "drop (p + length enc) data"] n
  obtain fb where fb: "TransportCCFeedBack_Parse (TransportCCFeedBack_new junk) ?out p (int (length enc)) = Inr fb"
      "tcc_packets fb = decoded ?num ?off tr []"
    unfolding p by (auto simp: enc_def TransportCCFeedBack_new_def)
  have "\<exists>e. \<bar>e\<bar> < 250 \<and> map_of (tcc_packets fb) (?num + word_of_nat i) =
      Some (if snd (ps ! i) = 0 then 0 else ?off + snd (ps ! i) + word_of_int e)" if i: "i < length ps" for i
    unfolding fb(2) tr_def by (rule decoded_time [OF start_in_window [OF fw B] B win i n])
  with ser fb(1) len length_enc_tcc_mod show ?thesis
    by (intro exI [of _ ?out] exI [of _ "length enc"] exI [of _ fb] exI [of _ ?off]) (simp add: enc_def)
qed

definition tcc_sample :: TransportCCFeedBack where
  "tcc_sample = \<lparr>tcc_feedbackPacketCount = 3, tcc_referenceTime = 0,
     tcc_packets = [(7, 1000000), (8, 0), (9, 1070000)]\<rparr>"

theorem tcc_roundtrip_witness:
  "\<exists>out len fb. TransportCCFeedBack_Serialize tcc_sample (replicate 60 0xCC) 12 = Inr (out, len) \<and>
    TransportCCFeedBack_Parse (TransportCCFeedBack_new 0) out 12 (int len) = Inr fb \<and>
    map_of (tcc_packets fb) (7 * 65536 + 4) = Some 0"
proof -
  have "window_start 0" "tcc_packets tcc_sample = tcc_packets tcc_sample" "\<exists>t \<in> set (arrivals (tcc_packets tcc_sample)). t \<noteq> 0"
    "\<forall>t \<in> set (arrivals (tcc_packets tcc_sample)). t \<noteq> 0 \<longrightarrow> in_window 0 t"
    "\<forall>s \<in> set (arrivals (tcc_packets tcc_sample)). \<forall>t \<in> set (arrivals (tcc_packets tcc_sample)).
      s \<noteq> 0 \<longrightarrow> t \<noteq> 0 \<longrightarrow> \<bar>s - t\<bar> \<le> 8000000"
    "length (tcc_packets tcc_sample) < 65536" "12 + 4 * length (tcc_packets tcc_sample) + 11 \<le> length (replicate 60 0xCC)"
    by (simp_all add: window_start_def tcc_sample_def in_window_def tcc_window_def)
  from tcc_roundtrip [OF this, of 0] obtain out len fb off where
    r: "TransportCCFeedBack_Serialize tcc_sample (replicate 60 0xCC) 12 = Inr (out, len)"
      "TransportCCFeedBack_Parse (TransportCCFeedBack_new 0) out 12 (int len) = Inr fb"
      "\<forall>i < length (tcc_packets tcc_sample). \<exists>e. \<bar>e\<bar> < 250 \<and>
        map_of (tcc_packets fb) ((push_bit 16 (ucast (ucast (fst (hd (tcc_packets tcc_sample))) :: u16)) OR
          word_of_nat (length (tcc_packets tcc_sample))) + word_of_nat i) =
        Some (if snd (tcc_packets tcc_sample ! i) = 0 then 0 else off + snd (tcc_packets tcc_sample ! i) + word_of_int e)"
    by auto
  from r(3) [rule_format, of 1] have "map_of (tcc_packets fb) (7 * 65536 + 4) = Some 0" by (simp add: tcc_sample_def)
  with r(1,2) show ?thesis by blast
qed

lemma serialize_odd_window:
  assumes ps: "tcc_packets self = [(k, t)]" and odd: "odd (uint t div tcc_window)" and room: "p + 9 \<le> length data"
  shows "TransportCCFeedBack_Serialize self data p = Inl SignedOverflow"
proof -
  define m where "m = uint t div tcc_window"
  define B where "B = tcc_window * m"
  have "536870912000 * (a div 536870912000) \<le> a \<and> a < 536870912000 * (a div 536870912000) + 536870912000" for a :: int
  proof -
    have "536870912000 * (a div 536870912000) + a mod 536870912000 = a" by (rule mult_div_mod_eq)
    moreover have "0 \<le> a mod 536870912000" "a mod 536870912000 < 536870912000" by simp_all
    ultimately show ?thesis by linarith
  qed
  then have tB: "in_window B (uint t)" unfolding in_window_def B_def m_def tcc_window_def by blast
  have "tcc_window dvd B" by (simp add: B_def)
  note ref = reference_time [OF tB this] and r = tcc_ref_bounds [OF tB]
  have t0: "t \<noteq> 0" using odd by auto
  have "m \<noteq> 0" using odd unfolding m_def by (metis even_zero)
  moreover have "0 \<le> m" unfolding m_def tcc_window_def by (simp add: pos_imp_zdiv_nonneg_iff)
  ultimately have mpos: "1 \<le> m" by linarith
  define x where "x = (word_of_int (tcc_ref B (uint t) * 64000) :: u64)"
  have x: "word_of_int (tcc_ref B (uint t)) * 64000 = x" by (simp add: x_def)
  have u: "uint x = tcc_ref B (uint t) * 64000" unfolding x_def using r by (intro uint_u64) auto
  have lt: "uint x < uint t" using r mpos unfolding u by (simp add: tcc_start_def B_def tcc_window_def)
  have d: "uint (t - x) = 536870912000 * m + (uint t - tcc_start B (uint t))"
    using lt by (subst uint_sub_if') (simp add: u tcc_start_def B_def tcc_window_def)
  define q where "q = (uint t - tcc_start B (uint t)) div 250"
  have q: "0 \<le> q" "q < 256" using r by (auto simp: q_def div_less_iff_less_mult pos_imp_zdiv_nonneg_iff)
  have "(536870912000 * m + (uint t - tcc_start B (uint t))) div 250 = 2147483648 * m + q"
    unfolding q_def by (simp add: div_add1_eq)
  then have "uint ((t - x) div 250) = 2147483648 * m + q" by (simp add: uint_div d)
  then have w: "(ucast ((t - x) div 250) :: u32) = word_of_int (2147483648 * m + q)" by (metis of_int_uint)
  obtain j where "m = 2 * j + 1" using odd by (auto simp: m_def elim: oddE)
  then have e: "2147483648 * m + q = 4294967296 * (j + 1) + (q - 2147483648)" by simp
  have "sint (ucast ((t - x) div 250) :: u32) = q - 2147483648"
    unfolding w e by (rule signed_wrap) (use q in auto)
  then have delta: "arrival_delta t x = Inr (q - 2147483648)"
    using lt by (simp add: arrival_delta_def word_less_def)
  have over: "int32 (q * 250 - 536870912000) = Inl SignedOverflow" using q by (simp add: int32_def)
  show ?thesis
    using room t0
    by (simp add: TransportCCFeedBack_Serialize_def ps be16.wr_in_range be32.wr_in_range Let_def ref x delta over)
qed

text \<open>
  C31. In every other window of the reference time, that is for about 6.2 days out of every
  12.4, serialising the feedback for a single packet overflows: the difference to the
  reference time, which was reduced to 23 bits, converts to a large negative \<open>int\<close> that is
  then multiplied by 250.
\<close>

theorem tcc_overflow_in_odd_windows:
  assumes "tcc_packets self = [(k, t)]" and "odd (uint t div tcc_window)" and "p + 9 \<le> length data"
  shows "TransportCCFeedBack_Serialize self data p = Inl SignedOverflow"
  using assms by (rule serialize_odd_window)

theorem tcc_overflow_in_odd_windows_witness:
  "TransportCCFeedBack_Serialize (InsertPacket (TransportCCFeedBack_new 0) 5 536870912000) (replicate 100 0) 0 = Inl SignedOverflow"
  using tcc_overflow_in_odd_windows [of "InsertPacket (TransportCCFeedBack_new 0) 5 536870912000" 5 536870912000 0 "replicate 100 0"]
  by (simp add: InsertPacket_def TransportCCFeedBack_new_def tcc_window_def)

section \<open>Memory safety of the parser\<close>

lemma parse_chunks_safe:
  "int p + sz \<le> int (length data) \<Longrightarrow>
   \<exists>r. TCC_Parse_chunks data p sz n len st = Inr r \<and>
     (\<forall>ss l. r = Some (ss, l) \<longrightarrow> n \<le> length ss \<and> len \<le> l \<and> (l = len \<or> int l \<le> sz))"
proof (induction data p sz n len st rule: TCC_Parse_chunks.induct)
  case (1 data p sz n len st)
  show ?case
  proof (cases "length st < n \<and> int len + 2 \<le> sz")
    case True
    then have "p + len + 2 \<le> length data" using "1.prems" by linarith
    then obtain c :: u16 where c: "ReadBigEndian 2 data (p + len) = Inr c" using be16.rd_ok_iff by blast
    from "1.IH" [OF _ _ c] True "1.prems" obtain r where
      "TCC_Parse_chunks data p sz n (len + 2) (st @ chunk_statuses c) = Inr r"
      "\<forall>ss l. r = Some (ss, l) \<longrightarrow> n \<le> length ss \<and> len + 2 \<le> l \<and> (l = len + 2 \<or> int l \<le> sz)" by auto
    then show ?thesis using True c by (subst TCC_Parse_chunks.simps) auto
  next
    case False
    then show ?thesis by (subst TCC_Parse_chunks.simps) auto
  qed
qed

lemma parse_deltas_safe:
  "int p + sz \<le> int (length data) \<Longrightarrow> \<exists>m'. TCC_Parse_deltas data p sz num len time ss m = Inr m'"
proof (induction data p sz num len time ss m rule: TCC_Parse_deltas.induct)
  case (3 data p sz num len time ss m)
  show ?case
  proof (cases "int len + 1 > sz")
    case False
    then have "p + len + 1 \<le> length data" using "3.prems" by linarith
    then obtain b :: byte where "ReadBigEndian 1 data (p + len) = Inr b" using be8.rd_ok_iff by blast
    with "3.IH" [OF False this refl refl] False "3.prems" show ?thesis by (simp add: Let_def del: One_nat_def)
  qed simp
next
  case (4 data p sz num len time ss m)
  show ?case
  proof (cases "int len + 2 > sz")
    case False
    then have "p + len + 2 \<le> length data" using "4.prems" by linarith
    then obtain w :: u16 where "ReadBigEndian 2 data (p + len) = Inr w" using be16.rd_ok_iff by blast
    then have "ReadBigEndian_signed TYPE(u16) 2 data (p + len) = Inr (sint w)"
      by (simp add: ReadBigEndian_signed_def sizeof_def ReinterpretAsSigned_sint)
    with "4.IH" [OF False this refl refl] False "4.prems" show ?thesis by (simp add: Let_def)
  qed simp
qed auto

text \<open>
  C32. Parsing feedback never reads outside the bytes its size argument announces and always
  returns, whatever they contain: truncated chunks and deltas end it early.
\<close>

theorem tcc_parse_safe:
  assumes "int p + sz \<le> int (length data)"
  shows "\<exists>fb. TransportCCFeedBack_Parse self data p sz = Inr fb"
proof (cases "sz < 8")
  case True
  then show ?thesis by (simp add: TransportCCFeedBack_Parse_def)
next
  case False
  then have len: "p + 8 \<le> length data" using assms by linarith
  obtain b :: u32 where b: "ReadBigEndian 4 data p = Inr b" using be32.rd_ok_iff [of data p] len by auto
  obtain n :: u16 where n: "ReadBigEndian 2 data (p + 2) = Inr n" using be16.rd_ok_iff [of data "p + 2"] len by auto
  obtain r :: u32 where r: "ReadBigEndian 4 data (p + 4) = Inr r" using be32.rd_ok_iff [of data "p + 4"] len by auto
  obtain f :: byte where f: "ReadBigEndian 1 data (p + 7) = Inr f" using be8.rd_ok_iff [of data "p + 7"] len by auto
  obtain st where st: "TCC_Parse_chunks data p sz (unat n) 8 [] = Inr st" using parse_chunks_safe [OF assms] by blast
  have parse: "TransportCCFeedBack_Parse self data p sz = (case st of None \<Rightarrow>
      Inr (self\<lparr>tcc_referenceTime := r AND 0xFFFFFF00, tcc_feedbackPacketCount := f\<rparr>)
    | Some (ss, l) \<Rightarrow> bindr (TCC_Parse_deltas data p sz b l (ucast ((r AND 0xFFFFFF00) * 64000)) (take (unat n) ss) (tcc_packets self))
        (\<lambda>m. Inr (self\<lparr>tcc_referenceTime := r AND 0xFFFFFF00, tcc_feedbackPacketCount := f, tcc_packets := m\<rparr>)))"
    unfolding TransportCCFeedBack_Parse_def b n r f st bindr_Inr Let_def if_not_P [OF False]
    by (simp split: option.split prod.split)
  show ?thesis
  proof (cases st)
    case (Some x)
    obtain ss l where x: "x = (ss, l)" by fastforce
    obtain m where "TCC_Parse_deltas data p sz b l (ucast ((r AND 0xFFFFFF00) * 64000)) (take (unat n) ss) (tcc_packets self) = Inr m"
      using parse_deltas_safe [OF assms] by blast
    then show ?thesis by (simp add: parse Some x)
  qed (simp add: parse)
qed

theorem tcc_parse_safe_witness:
  "\<exists>fb. TransportCCFeedBack_Parse (TransportCCFeedBack_new 0) (replicate 40 0xFF) 10 30 = Inr fb"
  using tcc_parse_safe [of 10 30 "replicate 40 0xFF"] by simp

section \<open>What serialisation leaves alone\<close>

text \<open>A write at or behind an offset keeps the bytes before it and the size of the buffer.\<close>

definition same_prefix :: "nat \<Rightarrow> bytes \<Rightarrow> bytes \<Rightarrow> bool" where
  "same_prefix q data data' \<longleftrightarrow> length data' = length data \<and> take q data' = take q data"

lemma same_prefix_refl [simp]: "same_prefix q data data"
  by (simp add: same_prefix_def)

lemma same_prefix_trans: "same_prefix q a b \<Longrightarrow> same_prefix q b c \<Longrightarrow> same_prefix q a c"
  by (simp add: same_prefix_def)

lemma wr_bytes_prefix: "wr_bytes data off bs = Inr data' \<Longrightarrow> q \<le> off \<Longrightarrow> same_prefix q data data'"
  by (auto simp: same_prefix_def wr_bytes_def split: if_splits)

lemma wr_prefix:
  "WriteBigEndian 1 data off (v :: byte) = Inr data' \<Longrightarrow> q \<le> off \<Longrightarrow> same_prefix q data data'"
  "WriteBigEndian 2 data off (h :: u16) = Inr data' \<Longrightarrow> q \<le> off \<Longrightarrow> same_prefix q data data'"
  "WriteBigEndian 4 data off (w :: u32) = Inr data' \<Longrightarrow> q \<le> off \<Longrightarrow> same_prefix q data data'"
  "wr8 data off v = Inr data' \<Longrightarrow> q \<le> off \<Longrightarrow> same_prefix q data data'"
  unfolding be8.wr_eq be16.wr_eq be32.wr_eq
  by (auto intro: wr_bytes_prefix) (auto simp: same_prefix_def wr8_def split: if_splits)

lemma wr_prefix_at:
  "WriteBigEndian 1 data (q + i) (v :: byte) = Inr data' \<Longrightarrow> same_prefix q data data'"
  "WriteBigEndian 2 data (q + i) (h :: u16) = Inr data' \<Longrightarrow> same_prefix q data data'"
  "WriteBigEndian 4 data (q + i) (w :: u32) = Inr data' \<Longrightarrow> same_prefix q data data'"
  by (erule wr_prefix, simp)+

lemma scan_prefix:
  "TCC_scan p fb packets data len fr time ds ss = Inr (data', len', ds', ss') \<Longrightarrow> same_prefix p data data'"
proof (induction p fb packets data len fr time ds ss rule: TCC_scan.induct)
  case (2 p fb k t packets data len fr time ds ss)
  show ?case
  proof (cases "t = 0")
    case True
    then show ?thesis using "2.IH"(1) "2.prems" by simp
  next
    case False
    let ?head = "if fr then Inr (data, len, time) else let referenceTime = (t div 64000) AND 0x7FFFFF in
           bindr (WriteBigEndian 4 data (p + 4) (ucast (push_bit 8 referenceTime) :: u32)) (\<lambda>data.
           bindr (WriteBigEndian 2 data (p + 7) (ucast fb :: u16)) (\<lambda>data.
           Inr (data, len + 4, referenceTime * 64000)))"
    obtain d1 l1 t1 delta us where h: "?head = Inr (d1, l1, t1)" "arrival_delta t t1 = Inr delta" "int32 (delta * 250) = Inr us"
        "TCC_scan p fb packets d1 l1 True (t1 + word_of_int us) (ds @ [delta])
          (ss @ [if delta_is_large delta then LargeOrNegativeDelta else SmallDelta]) = Inr (data', len', ds', ss')"
      using "2.prems" False by (auto simp: bindr_eq_Inr Let_def)
    have "same_prefix p data d1"
      using h(1) by (auto simp: bindr_eq_Inr Let_def split: if_splits dest!: wr_prefix_at) (simp_all add: same_prefix_def)
    moreover have "same_prefix p d1 data'" using "2.IH"(2) [OF False h(1) _ _ h(2) _ h(3)] h(4) by simp
    ultimately show ?thesis by (rule same_prefix_trans)
  qed
qed simp

lemma chunks_prefix: "TCC_write_chunks p ss data len = Inr (data', len') \<Longrightarrow> same_prefix p data data'"
proof (induction p ss data len rule: TCC_write_chunks.induct)
  case (1 p ss data len)
  show ?case
  proof (cases "ss = []")
    case False
    then obtain d1 where d1: "WriteBigEndian 2 data (p + len) (chunk_or 0 (take 7 ss) 0xC000) = Inr d1"
        "TCC_write_chunks p (drop 7 ss) d1 (len + 2) = Inr (data', len')"
      using "1.prems" by (subst (asm) TCC_write_chunks.simps) (auto simp: bindr_eq_Inr)
    have "same_prefix p data d1" using d1(1) by (rule wr_prefix) simp
    then show ?thesis using "1.IH" [OF False d1] by (rule same_prefix_trans)
  qed (use "1.prems" in \<open>simp add: TCC_write_chunks.simps\<close>)
qed

lemma deltas_prefix: "TCC_write_deltas p ds data len = Inr (data', len') \<Longrightarrow> same_prefix p data data'"
proof (induction ds arbitrary: data len)
  case (Cons d ds)
  obtain d1 len1 where d1: "same_prefix p data d1" "TCC_write_deltas p ds d1 len1 = Inr (data', len')"
    using Cons.prems by (auto simp: bindr_eq_Inr simp del: One_nat_def split: if_splits dest: wr_prefix_at)
  then show ?case using Cons.IH same_prefix_trans by blast
qed simp

lemma pad_prefix: "TCC_zero_pad p data len = Inr (data', len') \<Longrightarrow> same_prefix p data data'"
proof (induction p data len rule: TCC_zero_pad.induct)
  case (1 p data len)
  show ?case
  proof (cases "len mod 4 = 0")
    case False
    then obtain d1 where d1: "wr8 data (p + len) 0 = Inr d1" "TCC_zero_pad p d1 (len + 1) = Inr (data', len')"
      using "1.prems" by (subst (asm) TCC_zero_pad.simps) (auto simp: bindr_eq_Inr)
    have "same_prefix p data d1" using d1(1) by (rule wr_prefix) simp
    then show ?thesis using "1.IH" [OF False d1] by (rule same_prefix_trans)
  qed (use "1.prems" in \<open>simp add: TCC_zero_pad.simps\<close>)
qed

lemma tcc_serialize_prefix:
  assumes "TransportCCFeedBack_Serialize f data p = Inr (data', len)"
  shows "same_prefix p data data'"
proof (cases "tcc_packets f")
  case Nil
  then show ?thesis using assms by (simp add: TransportCCFeedBack_Serialize_def)
next
  case (Cons kt packets)
  obtain k t where kt: "kt = (k, t)" by (cases kt)
  from assms Cons kt obtain d1 d2 d3 l3 ds ss d4 l4 d5 l5 where
    "WriteBigEndian 2 data p (ucast k :: u16) = Inr d1" and
    "WriteBigEndian 2 d1 (p + 2) (word_of_nat (length (tcc_packets f)) :: u16) = Inr d2" and
    s: "TCC_scan p (tcc_feedbackPacketCount f) (tcc_packets f) d2 4 False 0 [] [] = Inr (d3, l3, ds, ss)"
      "TCC_write_chunks p ss d3 l3 = Inr (d4, l4)" "TCC_write_deltas p ds d4 l4 = Inr (d5, l5)"
      "TCC_zero_pad p d5 l5 = Inr (data', len)"
    by (auto simp: TransportCCFeedBack_Serialize_def bindr_eq_Inr simp del: TCC_scan.simps)
  then have "same_prefix p data d1" "same_prefix p d1 d2" by (auto intro: wr_prefix(2))
  then show ?thesis
    using scan_prefix [OF s(1)] chunks_prefix [OF s(2)] deltas_prefix [OF s(3)] pad_prefix [OF s(4)] same_prefix_trans by meson
qed

end
