(* ===== verification/Rtcp_Feedback.thy ===== *)
theory Rtcp_Feedback
  imports Transport_CC
begin

text \<open>
  RTP feedback packets and compound RTCP datagrams (\<open>rtcp_packet.h\<close>, \<open>rtcp_packet.cpp\<close>): the
  NACK field, \<open>RTCPRTPFeedbackPacket\<close> around a NACK or transport-wide feedback field,
  \<open>RTCPPacket::Parse\<close>, and the contract of \<open>RTCPPacketInterface\<close> as a locale with its
  implementations as interpretations.
\<close>

unbundle bit_operations_syntax

section \<open>Fields\<close>

record NackFeedBack =
  nack_ssrc :: u32
  nack_fsn :: u16
  nack_blp :: u16

definition NackFeedBack_Parse :: "NackFeedBack \<Rightarrow> bytes \<Rightarrow> nat \<Rightarrow> int \<Rightarrow> NackFeedBack res" where
  "NackFeedBack_Parse self data p sz =
     bindr (ReadBigEndian 4 data p) (\<lambda>ssrc.
     bindr (ReadBigEndian 2 data (p + 4)) (\<lambda>fsn.
     bindr (ReadBigEndian 2 data (p + 6)) (\<lambda>blp.
     Inr (self\<lparr>nack_ssrc := ssrc, nack_fsn := fsn, nack_blp := blp\<rparr>))))"

definition NackFeedBack_Serialize :: "NackFeedBack \<Rightarrow> bytes \<Rightarrow> nat \<Rightarrow> (bytes \<times> nat) res" where
  "NackFeedBack_Serialize self data p =
     bindr (WriteBigEndian 4 data p (nack_ssrc self)) (\<lambda>data.
     bindr (WriteBigEndian 2 data (p + 4) (nack_fsn self)) (\<lambda>data.
     bindr (WriteBigEndian 2 data (p + 6) (nack_blp self)) (\<lambda>data.
     Inr (data, 8))))"

text \<open>The classes derived from \<open>FeedBackField\<close> and their virtual functions.\<close>

datatype FeedBackField = Nack NackFeedBack | TransportCC TransportCCFeedBack

fun field_Type :: "FeedBackField \<Rightarrow> byte" where
  "field_Type (Nack _) = 1"
| "field_Type (TransportCC _) = 15"

fun field_Serialize :: "FeedBackField \<Rightarrow> bytes \<Rightarrow> nat \<Rightarrow> (bytes \<times> nat) res" where
  "field_Serialize (Nack f) data p = NackFeedBack_Serialize f data p"
| "field_Serialize (TransportCC f) data p = TransportCCFeedBack_Serialize f data p"

fun field_Parse :: "FeedBackField \<Rightarrow> bytes \<Rightarrow> nat \<Rightarrow> int \<Rightarrow> FeedBackField res" where
  "field_Parse (Nack f) data p sz = bindr (NackFeedBack_Parse f data p sz) (\<lambda>f. Inr (Nack f))"
| "field_Parse (TransportCC f) data p sz = bindr (TransportCCFeedBack_Parse f data p sz) (\<lambda>f. Inr (TransportCC f))"

section \<open>Feedback packets\<close>

record RTCPRTPFeedbackPacket =
  fb_field :: "FeedBackField option"
  fb_ssrc :: u32

text \<open>The default constructor: no field, an indeterminate source.\<close>

definition RTCPRTPFeedbackPacket_default :: "u32 \<Rightarrow> RTCPRTPFeedbackPacket" where
  "RTCPRTPFeedbackPacket_default junk = \<lparr>fb_field = None, fb_ssrc = junk\<rparr>"

definition SetField :: "RTCPRTPFeedbackPacket \<Rightarrow> FeedBackField \<Rightarrow> RTCPRTPFeedbackPacket" where
  "SetField self field = self\<lparr>fb_field := Some field\<rparr>"

definition Feedback_SetSSRC :: "RTCPRTPFeedbackPacket \<Rightarrow> u32 \<Rightarrow> RTCPRTPFeedbackPacket" where
  "Feedback_SetSSRC self ssrc = self\<lparr>fb_ssrc := ssrc\<rparr>"

definition enough :: nat where "enough = 1200"

definition RTCPRTPFeedbackPacket_Serialize :: "bytes \<Rightarrow> RTCPRTPFeedbackPacket \<Rightarrow> (bytes \<times> int) res" where
  "RTCPRTPFeedbackPacket_Serialize mem self =
     bindr (WriteBigEndian 4 mem RTCPCommonHeaderSize (0 :: u32)) (\<lambda>data.
     bindr (WriteBigEndian 4 data (RTCPCommonHeaderSize + 4) (fb_ssrc self)) (\<lambda>data.
     case fb_field self of None \<Rightarrow> Inl NullDeref
     | Some field \<Rightarrow>
       bindr (field_Serialize field data (RTCPCommonHeaderSize + 8)) (\<lambda>(data, fieldSize).
       let header = RTCPCommonHeader_new\<lparr>hdr_packetType := RTPFeedback,
             hdr_length := word_of_nat (fieldSize + (RTCPCommonHeaderSize + 8)), hdr_count := field_Type field\<rparr> in
       bindr (RTCPCommonHeader_Serialize header data 0 (word_of_nat enough)) (\<lambda>(data, _).
       Inr (data, uint (hdr_length header))))))"

text \<open>
  The private \<open>Parse\<close> at offset \<open>p\<close>. The members of a freshly allocated field that no
  initialiser sets are the arguments \<open>nack0\<close> and \<open>fbc0\<close>.
\<close>

definition RTCPRTPFeedbackPacket_Parse ::
  "NackFeedBack \<Rightarrow> byte \<Rightarrow> RTCPRTPFeedbackPacket \<Rightarrow> bytes \<Rightarrow> nat \<Rightarrow> int \<Rightarrow> RTCPRTPFeedbackPacket res" where
  "RTCPRTPFeedbackPacket_Parse nack0 fbc0 self data p sz =
     bindr (RTCPCommonHeader_Parse RTCPCommonHeader_new data p (word_of_int sz)) (\<lambda>(header, _).
     bindr (ReadBigEndian 4 data (p + RTCPCommonHeaderSize + 4)) (\<lambda>ssrc.
     let field = (if hdr_count header = 1 then Some (Nack nack0)
                  else if hdr_count header = 15 then Some (TransportCC (TransportCCFeedBack_new fbc0))
                  else fb_field self) in
     case field of None \<Rightarrow> Inl NullDeref
     | Some f \<Rightarrow> bindr (field_Parse f data (p + RTCPCommonHeaderSize + 8) sz) (\<lambda>f.
         Inr (self\<lparr>fb_ssrc := ssrc, fb_field := Some f\<rparr>))))"

text \<open>The constructor from a received packet parses the header twice, at offsets 0 and 4.\<close>

definition RTCPRTPFeedbackPacket_new ::
  "NackFeedBack \<Rightarrow> byte \<Rightarrow> u32 \<Rightarrow> bytes \<Rightarrow> nat \<Rightarrow> int \<Rightarrow> RTCPRTPFeedbackPacket res" where
  "RTCPRTPFeedbackPacket_new nack0 fbc0 junk data p sz =
     bindr (RTCPCommonHeader_Parse RTCPCommonHeader_new data p (word_of_int sz)) (\<lambda>(header, _).
     RTCPRTPFeedbackPacket_Parse nack0 fbc0 (RTCPRTPFeedbackPacket_default junk) data (p + RTCPCommonHeaderSize) sz)"

section \<open>Compound datagrams\<close>

text \<open>
  The packets that \<open>RTCPPacket::Parse\<close> constructs. A receiver report's \<open>ssrc\<close> stays
  indeterminate: the argument \<open>junk\<close>.
\<close>

datatype RTCPPacketInterface = SR SendReportPacket | RR ReceiverReportPacket

fun rtcp_Type :: "RTCPPacketInterface \<Rightarrow> byte" where
  "rtcp_Type (SR _) = SenderReport"
| "rtcp_Type (RR _) = ReceiverReport"

function RTCPPacket_Parse_loop ::
  "u32 \<Rightarrow> bytes \<Rightarrow> nat \<Rightarrow> int \<Rightarrow> nat \<Rightarrow> RTCPPacketInterface list \<Rightarrow> (nat \<times> RTCPPacketInterface list) res" where
  "RTCPPacket_Parse_loop junk data p len cnt output =
     (if 4 \<le> len
      then bindr (ReadBigEndian 1 data (p + 1)) (\<lambda>pt :: byte.
           bindr (ReadBigEndian 2 data (p + 2)) (\<lambda>sliceLen :: u16.
           let packetLen = RTCPCommonHeaderSize + unat sliceLen * 4 in
           bindr (if pt = SenderReport
                  then bindr (SendReportPacket_new data p (int packetLen)) (\<lambda>sr. Inr (output @ [SR sr]))
                  else if pt = ReceiverReport
                  then Inr (output @ [RR (ReceiverReportPacket_new junk data p (int packetLen))])
                  else Inr output) (\<lambda>output.
           RTCPPacket_Parse_loop junk data (p + packetLen) (len - int packetLen) (cnt + 1) output)))
      else Inr (cnt, output))"
  by pat_completeness auto
termination
  by (relation "measure (\<lambda>(junk, data, p, len, cnt, output). nat len)") (auto simp: RTCPCommonHeaderSize_def)

declare RTCPPacket_Parse_loop.simps [simp del]

definition RTCPPacket_Parse :: "u32 \<Rightarrow> bytes \<Rightarrow> int \<Rightarrow> (nat \<times> RTCPPacketInterface list) res" where
  "RTCPPacket_Parse junk data len = RTCPPacket_Parse_loop junk data 0 len 0 []"

section \<open>Feedback packets on the wire\<close>

definition enc_feedback :: "RTCPRTPFeedbackPacket \<Rightarrow> FeedBackField \<Rightarrow> bytes \<Rightarrow> bytes" where
  "enc_feedback self f body = enc_header \<lparr>hdr_count = field_Type f, hdr_padding = False, hdr_version = 2,
       hdr_packetType = RTPFeedback, hdr_length = word_of_nat (length body + 12)\<rparr> @
     be_bytes 4 (0 :: u32) @ be_bytes 4 (fb_ssrc self) @ body"

lemma Feedback_Serialize_eq:
  assumes mem: "length mem = 1200" and f: "fb_field self = Some f"
    and body: "\<And>data. field_Serialize f data 12 = bindr (wr_bytes data 12 body) (\<lambda>d. Inr (d, length body))"
    and len: "length body \<le> 1188"
  shows "RTCPRTPFeedbackPacket_Serialize mem self =
    Inr (enc_feedback self f body @ drop (12 + length body) mem, int (length body + 12))"
proof -
  let ?h = "\<lparr>hdr_count = field_Type f, hdr_padding = False, hdr_version = 2, hdr_packetType = RTPFeedback,
      hdr_length = word_of_nat (length body + 12)\<rparr>"
  have "uint (word_of_nat (length body + 12) :: u16) = int (length body + 12)"
  proof -
    have "unat (word_of_nat (length body + 12) :: u16) = length body + 12"
      using len by (simp only: unat_of_nat) simp
    then show ?thesis by (metis uint_nat)
  qed
  moreover have "RTCPRTPFeedbackPacket_Serialize mem self =
      bindr (wr_bytes mem 4 (be_bytes 4 (0 :: u32) @ be_bytes 4 (fb_ssrc self) @ body)) (\<lambda>data.
      bindr (wr_bytes data 0 (enc_header ?h)) (\<lambda>data. Inr (data, uint (hdr_length ?h))))"
    by (simp add: RTCPRTPFeedbackPacket_Serialize_def f body rtcp_sizes be32.wr_eq buffer_simps bindr_assoc
        Header_Serialize_eq enough_def RTCPCommonHeader_new_def del: wr_bytes_ok of_nat_add)
  ultimately show ?thesis
    using mem len by (simp add: enc_feedback_def del: of_nat_add)
qed

definition enc_nack :: "NackFeedBack \<Rightarrow> bytes" where
  "enc_nack f = be_bytes 4 (nack_ssrc f) @ be_bytes 2 (nack_fsn f) @ be_bytes 2 (nack_blp f)"

lemma length_enc_nack [simp]: "length (enc_nack f) = 8"
  by (simp add: enc_nack_def)

lemma Nack_Serialize_eq: "NackFeedBack_Serialize f data p = bindr (wr_bytes data p (enc_nack f)) (\<lambda>d. Inr (d, length (enc_nack f)))"
  by (simp add: NackFeedBack_Serialize_def be32.wr_eq be16.wr_eq buffer_simps enc_nack_def del: wr_bytes_ok)

text \<open>Transport-wide feedback for one received packet, as \<open>RTPIncomingSession::AddPacket\<close> builds it.\<close>

definition tcc_base :: "u64 \<Rightarrow> int" where
  "tcc_base t = tcc_window * (uint t div tcc_window)"

definition even_window :: "u64 \<Rightarrow> bool" where
  "even_window t \<longleftrightarrow> t \<noteq> 0 \<and> even (uint t div tcc_window)"

definition enc_single :: "u32 \<times> u64 \<Rightarrow> bytes" where
  "enc_single kt = (let B = tcc_base (snd kt); t = uint (snd kt) in
     enc_tcc (ucast (fst kt)) 1 (tcc_ref B t) (track B (tcc_start B t) [t]))"

lemma window_of:
  assumes "even_window t"
  shows "window_start (tcc_base t)" "in_window (tcc_base t) (uint t)"
proof -
  define a where "a = uint t"
  have a: "0 \<le> a" by (simp add: a_def)
  have "0 \<le> a div 536870912000" using a by (simp add: pos_imp_zdiv_nonneg_iff)
  moreover have "1073741824000 dvd 536870912000 * (a div 536870912000)"
  proof -
    have "even (a div 536870912000)" using assms by (simp add: even_window_def a_def tcc_window_def)
    then obtain j where "a div 536870912000 = 2 * j" by (rule evenE)
    then have "536870912000 * (a div 536870912000) = 1073741824000 * j" by simp
    then show ?thesis by (rule dvdI)
  qed
  ultimately show "window_start (tcc_base t)"
    by (simp add: window_start_def tcc_base_def tcc_window_def a_def)
  have "536870912000 * (a div 536870912000) + a mod 536870912000 = a" by (rule mult_div_mod_eq)
  moreover have "0 \<le> a mod 536870912000" "a mod 536870912000 < 536870912000" by simp_all
  ultimately have "536870912000 * (a div 536870912000) \<le> a \<and> a < 536870912000 * (a div 536870912000) + 536870912000"
    by linarith
  then show "in_window (tcc_base t) (uint t)" unfolding in_window_def tcc_base_def tcc_window_def a_def .
qed

lemma single_delta:
  assumes "in_window B t" "window_start B"
  shows "0 \<le> qdelta B (tcc_start B t) t" "qdelta B (tcc_start B t) t < 256"
proof -
  note r = tcc_ref_bounds(3,4) [OF assms(1)] and w = start_in_window(1) [OF assms]
  have B: "0 \<le> B" "B \<le> tcc_start B t" using assms w by (auto simp: window_start_def in_window_def)
  show "0 \<le> qdelta B (tcc_start B t) t" "qdelta B (tcc_start B t) t < 256"
    using r B by (auto simp: qdelta_def pos_imp_zdiv_nonneg_iff div_less_iff_less_mult)
qed

lemma length_enc_single:
  assumes "even_window (snd kt)"
  shows "length (enc_single kt) = 12"
proof -
  let ?t = "snd kt" let ?d = "qdelta (tcc_base ?t) (tcc_start (tcc_base ?t) (uint ?t)) (uint ?t)"
  have "uint ?t \<noteq> 0" using assms by (simp add: even_window_def uint_0_iff)
  moreover have "0 \<le> ?d" using single_delta window_of [OF assms] by blast
  ultimately show ?thesis
    by (simp add: enc_single_def Let_def enc_tcc_def tcc_body_def enc_chunks.simps enc_delta_def pad4_def)
qed

lemma tcc_single_eq:
  assumes f: "tcc_packets f = [kt]" and t: "even_window (snd kt)"
  shows "TransportCCFeedBack_Serialize f data p =
    bindr (wr_bytes data p (enc_single kt)) (\<lambda>d. Inr (d, length (enc_single kt)))"
proof -
  let ?t = "uint (snd kt)" and ?B = "tcc_base (snd kt)"
  have nz: "?t \<noteq> 0" using t by (simp add: even_window_def uint_0_iff)
  note w = window_of [OF t]
  have fa: "first_arrival [kt] = ?t" using nz by (simp add: first_arrival_def)
  have "\<forall>d \<in> set (tr_deltas (track ?B (tcc_start ?B ?t) [?t])). - 32768 \<le> d \<and> d < 32768"
    using nz single_delta [OF w(2,1)] by simp
  from tcc_serialize_eq [OF w(1) f [symmetric] _ _ refl _ refl, of data p] nz w(2) this show ?thesis
    by (simp add: fa enc_single_def Let_def)
qed

section \<open>The contract of an RTCP packet\<close>

text \<open>
  What the sender and the receiving side rely on for a class that implements
  \<open>RTCPPacketInterface\<close>: on an object that is ready to be sent, \<open>Serialize\<close> fills a prefix of
  the block it allocates, whatever that block contained; the prefix is a whole number of
  words, starts with a common header of the class's type, and the header's length is the
  size returned.
\<close>

locale rtcp_serializer =
  fixes alloc :: nat
    and ptype :: byte
    and ok :: "'p \<Rightarrow> bool"
    and ser :: "bytes \<Rightarrow> 'p \<Rightarrow> (bytes \<times> int) res"
    and enc :: "'p \<Rightarrow> bytes"
  assumes ser_enc: "ok p \<Longrightarrow> length mem = alloc \<Longrightarrow> \<exists>rest. ser mem p = Inr (enc p @ rest, int (length (enc p)))"
    and enc_size: "ok p \<Longrightarrow> 4 \<le> length (enc p) \<and> length (enc p) mod 4 = 0 \<and> length (enc p) \<le> 1200"
    and enc_head: "ok p \<Longrightarrow> \<exists>h. take 4 (enc p) = enc_header h \<and> hdr_packetType h = ptype \<and>
      hdr_length h = word_of_nat (length (enc p))"
    and ptype_range: "64 \<le> ptype AND 0x7f" "ptype AND 0x7f < 96"
begin

lemma sent_bytes: "ok p \<Longrightarrow> length mem = alloc \<Longrightarrow> ser mem p = Inr (out, n) \<Longrightarrow> take (nat n) out = enc p"
  using ser_enc [of p mem] by auto

lemma type_byte:
  assumes "ok p"
  shows "enc p ! 1 = ptype"
proof -
  obtain h where h: "take 4 (enc p) = enc_header h" "hdr_packetType h = ptype" using enc_head [OF assms] by blast
  have "enc p ! 1 = take 4 (enc p) ! 1" by simp
  then show ?thesis by (simp add: h enc_header_def)
qed

lemma is_rtcp:
  assumes "ok p"
  shows "IsRTCP (enc p @ rest) (int (length (enc p @ rest))) = Inr True"
  using enc_size [OF assms] type_byte [OF assms] ptype_range by (simp add: IsRTCP_def nth_append)

lemma words:
  assumes "ok p"
  obtains q where "length (enc p) = 4 * q + 4" "q < 300"
proof -
  have n: "4 \<le> length (enc p)" "length (enc p) mod 4 = 0" "length (enc p) \<le> 1200" using enc_size [OF assms] by auto
  then obtain k where k: "length (enc p) = 4 * k" by (meson mod_0_imp_dvd dvdE)
  with n show ?thesis by (intro that [of "k - 1"]) auto
qed

lemma length_field:
  assumes "ok p" and q: "length (enc p) = 4 * q + 4" "q < 300"
  shows "take 2 (drop 2 (enc p)) = be_bytes 2 (word_of_nat q :: u16)"
proof -
  obtain h where h: "take 4 (enc p) = enc_header h" "hdr_length h = word_of_nat (4 * q + 4)"
    using enc_head [OF assms(1)] q by metis
  have "take 2 (drop 2 (enc p)) = drop 2 (take 4 (enc p))" by (simp add: drop_take)
  also have "\<dots> = be_bytes 2 (drop_bit 2 (word_of_nat (4 * q + 4) :: u16) - 1)" by (simp add: h enc_header_def)
  also have "drop_bit 2 (word_of_nat (4 * q + 4) :: u16) = word_of_nat (q + 1)"
  proof -
    have u: "unat (word_of_nat (4 * q + 4) :: u16) = 4 * q + 4" using q by (simp only: unat_of_nat) simp
    have "unat (drop_bit 2 (word_of_nat (4 * q + 4) :: u16)) = q + 1"
      unfolding unat_drop_bit_eq u by (simp add: drop_bit_eq_div)
    moreover have "unat (word_of_nat (q + 1) :: u16) = q + 1" using q by (simp only: unat_of_nat) simp
    ultimately show ?thesis by (simp only: word_unat_eq_iff)
  qed
  finally show ?thesis by simp
qed

lemma reads:
  assumes "ok p" and q: "length (enc p) = 4 * q + 4" "q < 300"
  shows "ReadBigEndian 1 (pre @ enc p @ post) (length pre + 1) = Inr ptype"
    and "ReadBigEndian 2 (pre @ enc p @ post) (length pre + 2) = Inr (word_of_nat q :: u16)"
    and "unat (word_of_nat q :: u16) = q"
proof -
  have "drop 1 (enc p) = ptype # drop 2 (enc p)"
    using q type_byte [OF assms(1)] Cons_nth_drop_Suc [of 1 "enc p"] by (simp add: numeral_2_eq_2)
  then show "ReadBigEndian 1 (pre @ enc p @ post) (length pre + 1) = Inr ptype"
    unfolding be8.rd_eq using q by (simp add: be_word_def)
  show "ReadBigEndian 2 (pre @ enc p @ post) (length pre + 2) = Inr (word_of_nat q :: u16)"
    using q length_field [OF assms] by (simp add: be16.rd_eq)
  show "unat (word_of_nat q :: u16) = q" using q by (simp add: unat_of_nat)
qed

text \<open>The compound parser steps over exactly the packet's bytes.\<close>

lemma compound_step:
  assumes "ok p"
  shows "RTCPPacket_Parse_loop junk (pre @ enc p @ post) (length pre) (int (length (enc p @ post))) cnt output =
    bindr (if ptype = SenderReport
           then bindr (SendReportPacket_new (pre @ enc p @ post) (length pre) (int (length (enc p)))) (\<lambda>sr. Inr (output @ [SR sr]))
           else if ptype = ReceiverReport
           then Inr (output @ [RR \<lparr>rr_ssrc = junk, rr_reports = []\<rparr>])
           else Inr output) (\<lambda>output.
    RTCPPacket_Parse_loop junk ((pre @ enc p) @ post) (length (pre @ enc p)) (int (length post)) (cnt + 1) output)"
proof -
  obtain q where q: "length (enc p) = 4 * q + 4" "q < 300" using words [OF assms] .
  have len: "RTCPCommonHeaderSize + unat (word_of_nat q :: u16) * 4 = length (enc p)"
    using reads(3) [OF assms q] q by (simp add: RTCPCommonHeaderSize_def)
  have "4 \<le> int (length (enc p @ post))" using q by simp
  moreover have "int (length (enc p @ post)) - int (length (enc p)) = int (length post)" by simp
  ultimately show ?thesis
    by (subst RTCPPacket_Parse_loop.simps)
      (simp only: if_True reads(1,2) [OF assms q] bindr_Inr Let_def len ReceiverReportPacket_new_def
        append_assoc length_append)
qed

end

section \<open>The implementations\<close>

lemmas rtcp_types = SenderReport_def ReceiverReport_def RTPFeedback_def

definition any_report :: "SendReportPacket \<Rightarrow> bool" where
  "any_report p \<longleftrightarrow> True"

interpretation sr: rtcp_serializer 28 SenderReport any_report SendReportPacket_Serialize enc_sr
proof
  fix p :: SendReportPacket
  let ?h = "\<lparr>hdr_count = word_of_nat (length (sr_reports p)), hdr_padding = False, hdr_version = 2,
    hdr_packetType = SenderReport, hdr_length = 28\<rparr>"
  show "\<exists>rest. SendReportPacket_Serialize mem p = Inr (enc_sr p @ rest, int (length (enc_sr p)))"
    if "length mem = 28" for mem
    using SR_Serialize_eq [OF that, of p] by simp
  have "take 4 (enc_sr p) = enc_header ?h" by (simp add: enc_sr_def)
  then show "\<exists>h. take 4 (enc_sr p) = enc_header h \<and> hdr_packetType h = SenderReport \<and>
      hdr_length h = word_of_nat (length (enc_sr p))"
    by (intro exI [of _ ?h]) simp
qed (simp_all add: rtcp_types)




text \<open>A feedback packet is ready with a NACK, or with one arrival in an even window.\<close>

definition feedback_ready :: "RTCPRTPFeedbackPacket \<Rightarrow> bool" where
  "feedback_ready p \<longleftrightarrow> (case fb_field p of None \<Rightarrow> False | Some (Nack f) \<Rightarrow> True
     | Some (TransportCC f) \<Rightarrow> length (tcc_packets f) = 1 \<and> even_window (snd (hd (tcc_packets f))))"

definition feedback_body :: "FeedBackField \<Rightarrow> bytes" where
  "feedback_body f = (case f of Nack n \<Rightarrow> enc_nack n | TransportCC t \<Rightarrow> enc_single (hd (tcc_packets t)))"

definition enc_fb :: "RTCPRTPFeedbackPacket \<Rightarrow> bytes" where
  "enc_fb p = enc_feedback p (the (fb_field p)) (feedback_body (the (fb_field p)))"

lemma feedback_ready_body:
  assumes "feedback_ready p"
  shows "\<exists>f. fb_field p = Some f \<and> (length (feedback_body f) = 8 \<or> length (feedback_body f) = 12) \<and>
    (\<forall>data q. field_Serialize f data q =
      bindr (wr_bytes data q (feedback_body f)) (\<lambda>d. Inr (d, length (feedback_body f))))"
proof -
  from assms obtain f where f: "fb_field p = Some f" by (auto simp: feedback_ready_def split: option.splits)
  show ?thesis
  proof (cases f)
    case (Nack n)
    then show ?thesis using f by (simp add: feedback_body_def Nack_Serialize_eq)
  next
    case (TransportCC t)
    then obtain kt where t: "tcc_packets t = [kt]" "even_window (snd kt)"
      using assms f by (auto simp: feedback_ready_def length_Suc_conv)
    then show ?thesis
      using TransportCC f by (simp add: feedback_body_def length_enc_single tcc_single_eq del: wr_bytes_ok)
  qed
qed

interpretation fb: rtcp_serializer 1200 RTPFeedback feedback_ready RTCPRTPFeedbackPacket_Serialize enc_fb
proof
  fix p assume "feedback_ready p"
  then obtain f where f: "fb_field p = Some f" "length (feedback_body f) = 8 \<or> length (feedback_body f) = 12"
    "\<And>data q. field_Serialize f data q = bindr (wr_bytes data q (feedback_body f)) (\<lambda>d. Inr (d, length (feedback_body f)))"
    using feedback_ready_body by blast
  let ?h = "\<lparr>hdr_count = field_Type f, hdr_padding = False, hdr_version = 2,
       hdr_packetType = RTPFeedback, hdr_length = word_of_nat (length (feedback_body f) + 12)\<rparr>"
  have len: "length (enc_fb p) = length (feedback_body f) + 12" by (simp add: enc_fb_def f(1) enc_feedback_def)
  show "\<exists>rest. RTCPRTPFeedbackPacket_Serialize mem p = Inr (enc_fb p @ rest, int (length (enc_fb p)))"
    if "length mem = 1200" for mem
  proof -
    have "length (feedback_body f) \<le> 1188" using f(2) by auto
    from Feedback_Serialize_eq [OF that f(1) f(3) this] show ?thesis
      unfolding len by (simp add: enc_fb_def f(1))
  qed
  show "4 \<le> length (enc_fb p) \<and> length (enc_fb p) mod 4 = 0 \<and> length (enc_fb p) \<le> 1200" using f(2) by (auto simp: len)
  have "take 4 (enc_fb p) = enc_header ?h" by (simp add: enc_fb_def enc_feedback_def f(1))
  then show "\<exists>h. take 4 (enc_fb p) = enc_header h \<and> hdr_packetType h = RTPFeedback \<and>
      hdr_length h = word_of_nat (length (enc_fb p))"
    unfolding len by (intro exI [of _ ?h]) simp
qed (simp_all add: rtcp_types)

section \<open>Compound datagrams\<close>









definition sample_nack :: RTCPRTPFeedbackPacket where
  "sample_nack = \<lparr>fb_field = Some (Nack \<lparr>nack_ssrc = 7, nack_fsn = 100, nack_blp = 3\<rparr>), fb_ssrc = 42\<rparr>"


section \<open>Walking a compound datagram\<close>

text \<open>
  The reference for arbitrary input: the offsets at which the packets of a datagram of \<open>n\<close>
  bytes start, each packet as long as the two length bytes of its header say.
\<close>

function rtcp_slices :: "bytes \<Rightarrow> nat \<Rightarrow> nat \<Rightarrow> nat list" where
  "rtcp_slices data n p =
     (if p + 4 \<le> n then p # rtcp_slices data n (p + 4 + 4 * (256 * unat (data ! (p + 2)) + unat (data ! (p + 3)))) else [])"
  by pat_completeness auto
termination
  by (relation "measure (\<lambda>(data, n, p). n - p)") auto

declare rtcp_slices.simps [simp del]

definition complete_slice :: "bytes \<Rightarrow> nat \<Rightarrow> bool" where
  "complete_slice data p \<longleftrightarrow> (data ! (p + 1) = SenderReport \<longrightarrow> p + 28 \<le> length data)"

definition report_types :: "bytes \<Rightarrow> nat list \<Rightarrow> byte list" where
  "report_types data ps = filter (\<lambda>t. t = SenderReport \<or> t = ReceiverReport) (map (\<lambda>p. data ! (p + 1)) ps)"

lemma report_types_simps [simp]:
  "report_types data [] = []"
  "report_types data (p # ps) = (if data ! (p + 1) = SenderReport \<or> data ! (p + 1) = ReceiverReport
     then data ! (p + 1) # report_types data ps else report_types data ps)"
  by (simp_all add: report_types_def)

lemma rtcp_slices_bound: "4 * length (rtcp_slices data n p) \<le> n - p"
proof (induction data n p rule: rtcp_slices.induct)
  case (1 data n p)
  then show ?case by (subst rtcp_slices.simps) auto
qed

lemma read16_nth:
  assumes "p + 4 \<le> length data"
  shows "\<exists>l :: u16. ReadBigEndian 2 data (p + 2) = Inr l \<and> unat l = 256 * unat (data ! (p + 2)) + unat (data ! (p + 3))"
proof -
  have t: "take 2 (drop (p + 2) data) = [data ! (p + 2), data ! (p + 3)]"
    using assms by (simp add: numeral_eq_Suc take_Suc_conv_app_nth Cons_nth_drop_Suc [symmetric])
  then have "ReadBigEndian 2 data (p + 2) = Inr (be_word [data ! (p + 2), data ! (p + 3)] :: u16)"
    using assms by (simp add: be16.rd_in_range)
  then show ?thesis by (simp add: unat_be_word be_nat_def)
qed

text \<open>One round of the loop on a slice that starts inside the datagram.\<close>

lemma walk_step:
  assumes "p + 4 \<le> n" "n \<le> length data"
  defines "q \<equiv> p + 4 + 4 * (256 * unat (data ! (p + 2)) + unat (data ! (p + 3)))"
  shows "if complete_slice data p
    then \<exists>xs. map rtcp_Type xs = report_types data [p] \<and>
      RTCPPacket_Parse_loop junk data p (int n - int p) cnt out = RTCPPacket_Parse_loop junk data q (int n - int q) (cnt + 1) (out @ xs)
    else RTCPPacket_Parse_loop junk data p (int n - int p) cnt out = Inl OutOfBounds"
proof -
  obtain l :: u16 where l: "ReadBigEndian 2 data (p + 2) = Inr l" "unat l = 256 * unat (data ! (p + 2)) + unat (data ! (p + 3))"
    using read16_nth [of p data] assms by auto
  have q: "RTCPCommonHeaderSize + unat l * 4 = q - p" "p \<le> q" by (simp_all add: q_def l(2) RTCPCommonHeaderSize_def)
  have "4 + 4 * uint l = int (q - p)" using arg_cong [OF q(1), of int] by (simp add: RTCPCommonHeaderSize_def del: of_nat_diff)
  then have sr: "if p + 28 \<le> length data then \<exists>sr. SendReportPacket_new data p (int (q - p)) = Inr sr
      else SendReportPacket_new data p (int (q - p)) = Inl OutOfBounds"
    using sender_report_reads_28_bytes [OF _ l(1)] assms(1,2) by (metis le_trans)
  have "take 1 (drop (p + 1) data) = [data ! (p + 1)]" using assms(1,2) by (simp add: take_Suc_conv_app_nth)
  then have "ReadBigEndian 1 data (p + 1) = Inr (data ! (p + 1))"
    using be8.rd_in_range [of "p + 1" data] assms(1,2) by (simp add: be_word_def del: One_nat_def)
  then have step: "RTCPPacket_Parse_loop junk data p (int n - int p) cnt out =
      bindr (if data ! (p + 1) = SenderReport then bindr (SendReportPacket_new data p (int (q - p))) (\<lambda>sr. Inr (out @ [SR sr]))
             else if data ! (p + 1) = ReceiverReport then Inr (out @ [RR (ReceiverReportPacket_new junk data p (int (q - p)))])
             else Inr out) (\<lambda>out. RTCPPacket_Parse_loop junk data q (int n - int q) (cnt + 1) out)"
    using l(1) q assms(1) by (subst RTCPPacket_Parse_loop.simps) (simp add: Let_def del: One_nat_def of_nat_add of_nat_mult)
  show ?thesis
  proof (cases "data ! (p + 1) = SenderReport")
    case True
    have "map rtcp_Type [SR sr] = [SenderReport]" for sr by simp
    then show ?thesis using sr True unfolding step by (auto simp: complete_slice_def simp del: list.map) blast
  next
    case False
    then show ?thesis unfolding step
      by (cases "data ! (p + 1) = ReceiverReport")
        (auto simp: complete_slice_def intro: exI [of _ "[RR (ReceiverReportPacket_new junk data p (int (q - p)))]"])
  qed
qed

lemma walk_loop:
  fixes p assumes "n \<le> length data"
  defines "ps \<equiv> rtcp_slices data n p"
  shows "if \<forall>q \<in> set ps. complete_slice data q
    then \<exists>xs. RTCPPacket_Parse_loop junk data p (int n - int p) cnt out = Inr (cnt + length ps, out @ xs) \<and> map rtcp_Type xs = report_types data ps
    else RTCPPacket_Parse_loop junk data p (int n - int p) cnt out = Inl OutOfBounds"
  using assms(1) unfolding ps_def
proof (induction data n p arbitrary: cnt out rule: rtcp_slices.induct)
  case (1 data n p)
  let ?q = "p + 4 + 4 * (256 * unat (data ! (p + 2)) + unat (data ! (p + 3)))"
  show ?case
  proof (cases "p + 4 \<le> n")
    case True
    note ps = rtcp_slices.simps [of data n p] and step = walk_step [OF True "1.prems", of junk cnt out]
    show ?thesis
    proof (cases "complete_slice data p")
      case True
      then obtain xs where xs: "map rtcp_Type xs = report_types data [p]"
          "RTCPPacket_Parse_loop junk data p (int n - int p) cnt out =
             RTCPPacket_Parse_loop junk data ?q (int n - int ?q) (cnt + 1) (out @ xs)"
        using step by auto
      from "1.IH" [OF \<open>p + 4 \<le> n\<close> "1.prems", of "cnt + 1" "out @ xs"] xs(1) \<open>p + 4 \<le> n\<close> True show ?thesis
        unfolding xs(2) ps by (auto simp del: of_nat_add split: if_splits)
    next
      case False
      then show ?thesis using step \<open>p + 4 \<le> n\<close> by (simp add: ps)
    qed
  next
    case False
    then show ?thesis by (simp add: RTCPPacket_Parse_loop.simps rtcp_slices.simps)
  qed
qed

text \<open>
  C21. The walk over any datagram ends, after at most one step per four bytes: with no
  assumption on its contents, \<open>RTCPPacket::Parse\<close> visits exactly the packets that the length
  fields delimit and returns their number, with one object for each sender and receiver
  report, of the type that its packet announces, in order; the only way to fail is a sender
  report that starts within the last 27 bytes of the buffer.
\<close>

theorem compound_walk_ends:
  assumes "n \<le> length data"
  shows "case RTCPPacket_Parse junk data (int n) of
      Inl e \<Rightarrow> e = OutOfBounds \<and> (\<exists>p \<in> set (rtcp_slices data n 0). data ! (p + 1) = SenderReport \<and> length data < p + 28)
    | Inr (cnt, output) \<Rightarrow> cnt = length (rtcp_slices data n 0) \<and> 4 * cnt \<le> n \<and>
        map rtcp_Type output = report_types data (rtcp_slices data n 0) \<and>
        (\<forall>p \<in> set (rtcp_slices data n 0). data ! (p + 1) = SenderReport \<longrightarrow> p + 28 \<le> length data)"
  using walk_loop [OF assms, of 0 junk 0 "[]"] rtcp_slices_bound [of data n 0]
  by (auto simp: RTCPPacket_Parse_def complete_slice_def split: if_splits)

theorem compound_walk_ends_witness:
  "\<exists>output. RTCPPacket_Parse 7 [0x80, 201, 0, 0, 0x81, 202, 0, 1, 0, 0, 0, 0, 0x80, 201] 14 = Inr (2, output) \<and>
     map rtcp_Type output = [ReceiverReport]"
  using compound_walk_ends [of 14 "[0x80, 201, 0, 0, 0x81, 202, 0, 1, 0, 0, 0, 0, 0x80, 201]" 7]
  by (auto simp: rtcp_slices.simps SenderReport_def ReceiverReport_def split: sum.splits)

section \<open>Receiving feedback\<close>

lemma Header_Parse_total:
  assumes "p + 4 \<le> length data" "4 \<le> unat sz"
  shows "\<exists>h. RTCPCommonHeader_Parse self data p sz = Inr (h, 4) \<and> hdr_count h = data ! p AND 0x1F"
proof -
  obtain l :: u16 where "ReadBigEndian 2 data (p + 2) = Inr l" using be16.rd_ok_iff [of data "p + 2"] assms by auto
  then show ?thesis using assms by (simp add: RTCPCommonHeader_Parse_def rtcp_sizes)
qed

text \<open>Whatever the field, the serialiser writes its packet around four zero bytes.\<close>

lemma Feedback_Serialize_sender:
  assumes "RTCPRTPFeedbackPacket_Serialize mem p = Inr (out, n)"
  shows "length out = length mem \<and> 12 \<le> length out \<and> out ! 4 = 0 \<and> 0 \<le> n \<and> n < 65536"
proof -
  from assms obtain f d1 d2 d3 k h hl where
    w: "WriteBigEndian 4 mem 4 (0 :: u32) = Inr d1" "WriteBigEndian 4 d1 8 (fb_ssrc p) = Inr d2"
      "field_Serialize f d2 12 = Inr (d3, k)" "RTCPCommonHeader_Serialize h d3 0 (word_of_nat enough) = Inr (out, hl)"
      "n = uint (hdr_length h)"
    by (auto simp: RTCPRTPFeedbackPacket_Serialize_def bindr_eq_Inr Let_def rtcp_sizes split: option.splits)
  have f: "same_prefix 12 d2 d3"
  proof (cases f)
    case (Nack x)
    then show ?thesis
      using w(3) wr_prefix(3) [of d2 12 _ _ 12] wr_prefix(2) [of _ 16 _ _ 12] wr_prefix(2) [of _ 18 _ _ 12]
      by (auto simp: NackFeedBack_Serialize_def bindr_eq_Inr) (meson same_prefix_trans)
  next
    case (TransportCC x)
    then show ?thesis using w(3) tcc_serialize_prefix by simp
  qed
  have range: "12 \<le> length d1" using be32.wr_Inr_range [OF w(2)] by simp
  have len: "length d1 = length mem" "length d2 = length d1" using w(1,2) be32.wr_length by blast+
  have "d1 = take 4 mem @ be_bytes 4 (0 :: u32) @ drop 8 mem"
    using be32.wr_in_range [of 4 mem "0 :: u32"] w(1) range len(1) by simp
  then have "d1 ! 4 = 0" using range len(1) by (simp add: nth_append be_bytes_unfold(3))
  moreover have "d2 ! 4 = d1 ! 4" by (rule be32.wr_nth_outside [OF w(2)]) (use range in simp_all)
  ultimately have "d3 ! 4 = 0" using f nth_take [of 4 12 d3] nth_take [of 4 12 d2] by (simp add: same_prefix_def)
  moreover have "wr_bytes d3 0 (enc_header h) = Inr out"
    using w(4) by (auto simp: Header_Serialize_eq enough_def rtcp_sizes bindr_eq_Inr)
  then have "length out = length d3 \<and> out ! 4 = d3 ! 4"
    using f range len by (auto simp: wr_bytes_def same_prefix_def nth_append split: if_splits)
  moreover have "n < 65536" "0 \<le> n" using unsigned_less [of "hdr_length h", where ?'a = int] by (simp_all add: w(5))
  ultimately show ?thesis using f range len by (simp add: same_prefix_def)
qed

lemma unat_word_of_int_small: "0 \<le> n \<Longrightarrow> n < 65536 \<Longrightarrow> unat (word_of_int n :: u32) = nat n"
  by (simp add: unsigned_of_int take_bit_int_eq_self)

lemma Header_Parse_cases: "(\<exists>r. RTCPCommonHeader_Parse self data p sz = Inr r) \<or> RTCPCommonHeader_Parse self data p sz = Inl OutOfBounds"
  using be16.rd_in_range [of "p + 2" data] be16.rd_fault [of "p + 2" data]
  by (cases "p + 2 + 2 \<le> length data") (auto simp: RTCPCommonHeader_Parse_def rd8_def)

text \<open>
  C33. The constructor that parses a received feedback packet skips the common header twice
  and takes the format from the sender's source identifier, which the serialiser always
  writes as zero. Given whatever packet the serialiser produces, a NACK or transport-wide
  feedback for any packets, it therefore never returns: it dereferences a null field, or, if
  the packet has fewer than 16 bytes (feedback for no packet at all), reads behind its end first.
\<close>

theorem feedback_constructor_null:
  assumes "length mem = 1200" and "RTCPRTPFeedbackPacket_Serialize mem p = Inr (out, n)"
  shows "RTCPRTPFeedbackPacket_new nack0 fbc0 junk (take (nat n) out) 0 n = Inl (if 16 \<le> n then NullDeref else OutOfBounds)"
proof -
  let ?d = "take (nat n) out" and ?sz = "word_of_int n :: u32"
  have s: "length out = 1200" "out ! 4 = 0" "0 \<le> n" "n < 65536" using Feedback_Serialize_sender [OF assms(2)] assms(1) by auto
  show ?thesis
  proof (cases "16 \<le> n")
    case True
    then have len: "16 \<le> length ?d" and "?d ! 4 = 0" using s by auto
    have "unat ?sz = nat n" using s by (simp add: unat_word_of_int_small)
    then have sz: "4 \<le> unat ?sz" using True by simp
    obtain h where "RTCPCommonHeader_Parse RTCPCommonHeader_new ?d 4 ?sz = Inr (h, 4)" "hdr_count h = 0"
      using Header_Parse_total [of 4 ?d ?sz] len sz \<open>?d ! 4 = 0\<close> by fastforce
    moreover obtain h' where "RTCPCommonHeader_Parse RTCPCommonHeader_new ?d 0 ?sz = Inr (h', 4)"
      using Header_Parse_total [of 0 ?d ?sz] len sz by fastforce
    moreover obtain x :: u32 where "ReadBigEndian 4 ?d 12 = Inr x" using be32.rd_ok_iff [of ?d 12] len by auto
    ultimately show ?thesis
      using True by (simp add: RTCPRTPFeedbackPacket_new_def RTCPRTPFeedbackPacket_Parse_def RTCPRTPFeedbackPacket_default_def rtcp_sizes)
  next
    case False
    then have "ReadBigEndian 4 ?d 12 = (Inl OutOfBounds :: u32 res)" by (intro be32.rd_fault) auto
    then show ?thesis
      using Header_Parse_cases [of RTCPCommonHeader_new ?d 0 ?sz] Header_Parse_cases [of RTCPCommonHeader_new ?d 4 ?sz] False
      by (auto simp: RTCPRTPFeedbackPacket_new_def RTCPRTPFeedbackPacket_Parse_def rtcp_sizes)
  qed
qed

theorem feedback_constructor_null_witness:
  "\<exists>out n. RTCPRTPFeedbackPacket_Serialize (replicate 1200 0xCC) sample_nack = Inr (out, n) \<and> 16 \<le> n \<and>
    RTCPRTPFeedbackPacket_new \<lparr>nack_ssrc = 0, nack_fsn = 0, nack_blp = 0\<rparr> 0 0 (take (nat n) out) 0 n = Inl NullDeref"
proof -
  have ok: "feedback_ready sample_nack" by (simp add: feedback_ready_def sample_nack_def)
  then obtain out n where ser: "RTCPRTPFeedbackPacket_Serialize (replicate 1200 0xCC) sample_nack = Inr (out, n)"
      "n = int (length (enc_fb sample_nack))"
    using fb.ser_enc [of sample_nack "replicate 1200 0xCC"] by auto
  have "16 \<le> n" by (simp add: ser(2) enc_fb_def enc_feedback_def sample_nack_def feedback_body_def)
  with feedback_constructor_null [OF _ ser(1)] ser(1) show ?thesis by auto
qed

end
