(* ===== verification/Rtp_Packet.thy ===== *)
theory Rtp_Packet
  imports Byte_IO
begin

text \<open>
  RTP packets (\<open>rtp_packet.h\<close>, \<open>rtp_packet.cpp\<close>): parsing of the fixed header, the contributing
  sources, the header extensions and the padding, serialisation, and the accessors.
  The constructor leaves every member but the receive time and the cycle count
  indeterminate, so \<open>Parse\<close> is a function of the object before the call and the theorems
  hold for every such object. A pointer into the packet's buffer (the \<open>data\<close> of an
  extension, the payload) is an offset into it.
\<close>

unbundle bit_operations_syntax

section \<open>Data\<close>

record RTPExtension =
  ext_id :: byte
  ext_length :: byte
  ext_data :: nat

record RTPSession =
  sess_ssrc :: u32
  sess_seq :: u16
  sess_pt :: byte

record RTPPacket =
  rtp_payloadOffset :: int
  rtp_payloadSize :: int
  rtp_ssrc :: u32
  rtp_timestamp :: u32
  rtp_seqNum :: u16
  rtp_payloadType :: byte
  rtp_maker :: bool
  rtp_data :: bytes
  rtp_size :: int
  rtp_paddingSize :: int
  rtp_seqCycle :: u16
  rtp_recvTimeMS :: u64
  rtp_exts :: "u16 \<rightharpoonup> RTPExtension"

definition kFixedHeaderSize :: nat where "kFixedHeaderSize = 12"
definition kRtpVersion :: byte where "kRtpVersion = 2"
definition kOneByteExtensionProfileId :: u16 where "kOneByteExtensionProfileId = 0xBEDE"
definition kTwoByteExtensionProfileId :: u16 where "kTwoByteExtensionProfileId = 0x1000"
definition kOneByteExtensionHeaderLength :: nat where "kOneByteExtensionHeaderLength = 1"
definition kTwoByteExtensionHeaderLength :: nat where "kTwoByteExtensionHeaderLength = 2"

text \<open>The constructor: the members it sets, over an indeterminate object.\<close>

definition RTPPacket_new :: "RTPPacket \<Rightarrow> u64 \<Rightarrow> RTPPacket" where
  "RTPPacket_new junk now = junk\<lparr>rtp_seqCycle := 0, rtp_recvTimeMS := now, rtp_exts := Map.empty\<rparr>"

section \<open>Parsing\<close>

text \<open>
  The extension loop. \<open>off\<close> is the offset of the first element, \<open>cap\<close> the size of the block
  and \<open>es\<close> the running \<open>extensions_size_\<close>.
\<close>

definition extension_header_length :: "u16 \<Rightarrow> nat" where
  "extension_header_length profile =
     (if profile = kOneByteExtensionProfileId then kOneByteExtensionHeaderLength
      else kTwoByteExtensionHeaderLength)"

lemma extension_header_length_pos [simp]: "0 < extension_header_length profile"
  by (simp add: extension_header_length_def kOneByteExtensionHeaderLength_def kTwoByteExtensionHeaderLength_def)

function Parse_exts ::
  "bytes \<Rightarrow> u16 \<Rightarrow> nat \<Rightarrow> nat \<Rightarrow> nat \<Rightarrow> (u16 \<rightharpoonup> RTPExtension) \<Rightarrow> (u16 \<rightharpoonup> RTPExtension) res" where
  "Parse_exts data profile off cap es exts =
     (let hl = extension_header_length profile in
      if es + hl < cap
      then bindr (rd8 data (off + es)) (\<lambda>b.
        if b = 0 then Parse_exts data profile off cap (es + 1) exts
        else if profile = kOneByteExtensionProfileId
        then let i = drop_bit 4 b; len = 1 + (b AND 0xf);
                 exts' = exts(ucast i \<mapsto> \<lparr>ext_id = i, ext_length = len, ext_data = off + 1\<rparr>)
             in if i = 15 \<or> (i = 0 \<and> len \<noteq> 1) then Inr exts'
                else if es + hl + unat len > cap then Inr exts'
                else Parse_exts data profile off cap (es + (hl + unat len)) exts'
        else bindr (rd8 data (off + es + 1)) (\<lambda>len.
             let exts' = exts(ucast b \<mapsto> \<lparr>ext_id = b, ext_length = len, ext_data = off + 2\<rparr>)
             in if es + hl + unat len > cap then Inr exts'
                else Parse_exts data profile off cap (es + (hl + unat len)) exts'))
      else Inr exts)"
  by pat_completeness auto
termination
  by (relation "measure (\<lambda>(data, profile, off, cap, es, exts). cap - es)")
    (auto intro!: diff_less_mono2)

declare Parse_exts.simps [simp del]

text \<open>The part after the fixed header: padding, extensions and payload bounds.\<close>

definition Parse_extension_block :: "RTPPacket \<Rightarrow> bytes \<Rightarrow> int \<Rightarrow> (RTPPacket \<times> bool) res" where
  "Parse_extension_block self data sz =
     (let extension_offset = size_t (rtp_payloadOffset self) + 4 in
      if extension_offset > size_t sz then Inr (self, False)
      else bindr (ReadBigEndian 2 data (nat (rtp_payloadOffset self))) (\<lambda>profile :: u16.
           bindr (ReadBigEndian 2 data (nat (rtp_payloadOffset self) + 2)) (\<lambda>words :: u16.
           let extensions_capacity = unat words * 4 in
           if extension_offset + extensions_capacity > size_t sz then Inr (self, False)
           else bindr (if profile \<noteq> kOneByteExtensionProfileId \<and> profile \<noteq> kTwoByteExtensionProfileId
                       then Inr (rtp_exts self)
                       else Parse_exts data profile extension_offset extensions_capacity 0 (rtp_exts self)) (\<lambda>exts.
                Inr (self\<lparr>rtp_exts := exts,
                          rtp_payloadOffset := int (extension_offset + extensions_capacity)\<rparr>, True)))))"

definition Parse_payload_bounds :: "RTPPacket \<Rightarrow> int \<Rightarrow> RTPPacket \<times> bool" where
  "Parse_payload_bounds self sz =
     (if rtp_payloadOffset self + rtp_paddingSize self > sz then (self, False)
      else (self\<lparr>rtp_payloadSize := sz - rtp_payloadOffset self - rtp_paddingSize self\<rparr>, True))"

text \<open>
  \<open>Parse\<close> returns \<open>bool\<close>; its \<open>return -1\<close> for a short packet and a wrong version converts
  to \<open>true\<close>.
\<close>

definition RTPPacket_Parse :: "RTPPacket \<Rightarrow> bytes \<Rightarrow> int \<Rightarrow> (RTPPacket \<times> bool) res" where
  "RTPPacket_Parse self0 data sz =
     (let self = self0\<lparr>rtp_data := data, rtp_size := sz\<rparr> in
      if size_t sz < kFixedHeaderSize then Inr (self, True)
      else bindr (rd8 data 0) (\<lambda>d0.
      if drop_bit 6 d0 \<noteq> kRtpVersion then Inr (self, True)
      else let hasPadding = (d0 AND 0x20 \<noteq> 0); hasExt = (d0 AND 0x10 \<noteq> 0); numberCC = unat (d0 AND 0x0f) in
      bindr (rd8 data 1) (\<lambda>d1.
      bindr (ReadBigEndian 2 data 2) (\<lambda>seq.
      bindr (ReadBigEndian 4 data 4) (\<lambda>ts.
      bindr (ReadBigEndian 4 data 8) (\<lambda>ssrc.
      let self = self\<lparr>rtp_maker := (d1 AND 0x80 \<noteq> 0), rtp_payloadType := d1 AND 0x7f,
                      rtp_seqNum := seq, rtp_timestamp := ts, rtp_ssrc := ssrc\<rparr> in
      if size_t sz < kFixedHeaderSize + numberCC * 4 then Inr (self, True)
      else let self = self\<lparr>rtp_payloadOffset := int (kFixedHeaderSize + numberCC * 4)\<rparr> in
      bindr (if hasPadding
             then bindr (rd8i data (sz - 1)) (\<lambda>p. Inr (self\<lparr>rtp_paddingSize := int (unat p)\<rparr>, p \<noteq> 0))
             else Inr (self\<lparr>rtp_paddingSize := 0\<rparr>, True)) (\<lambda>(self, ok).
      if \<not> ok then Inr (self, False)
      else bindr (if hasExt then Parse_extension_block self data sz else Inr (self, True)) (\<lambda>(self, ok).
      if \<not> ok then Inr (self, False)
      else Inr (Parse_payload_bounds self sz)))))))))"

section \<open>Accessors and serialisation\<close>

definition ExtSeqNum :: "RTPPacket \<Rightarrow> u32" where
  "ExtSeqNum self = push_bit 16 (ucast (rtp_seqCycle self)) OR ucast (rtp_seqNum self)"

definition SetSeqCycle :: "RTPPacket \<Rightarrow> u16 \<Rightarrow> RTPPacket" where
  "SetSeqCycle self cycle = self\<lparr>rtp_seqCycle := cycle\<rparr>"

text \<open>\<open>GetTransportCCNum\<close>: \<open>None\<close> where it returns \<open>false\<close>.\<close>

definition GetTransportCCNum :: "RTPPacket \<Rightarrow> byte \<Rightarrow> u16 option res" where
  "GetTransportCCNum self i =
     (case rtp_exts self (ucast i) of
        None \<Rightarrow> Inr None
      | Some e \<Rightarrow> bindr (ReadBigEndian 2 (rtp_data self) (ext_data e)) (\<lambda>n. Inr (Some n)))"

text \<open>
  \<open>Serialize\<close> into the freshly allocated \<open>mem\<close> of \<open>8 + payloadSize_\<close> bytes; the extension
  argument is not used by the code.
\<close>

definition RTPPacket_Serialize :: "bytes \<Rightarrow> RTPPacket \<Rightarrow> RTPSession \<Rightarrow> (bytes \<times> int) res" where
  "RTPPacket_Serialize mem self session =
     (let len = 8 + rtp_payloadSize self in
      bindr (WriteBigEndian 1 mem 0 (0x10 :: byte)) (\<lambda>buffer.
      bindr (WriteBigEndian 1 buffer 1 ((if rtp_maker self then 0x80 else 0) OR sess_pt session)) (\<lambda>buffer.
      bindr (WriteBigEndian 2 buffer 2 (sess_seq session)) (\<lambda>buffer.
      bindr (WriteBigEndian 4 buffer 4 (rtp_timestamp self)) (\<lambda>buffer.
      bindr (if rtp_payloadOffset self < 0 then Inl OutOfBounds
             else rd_bytes (rtp_data self) (nat (rtp_payloadOffset self)) (size_t (rtp_payloadSize self))) (\<lambda>payload.
      bindr (wr_bytes buffer 8 payload) (\<lambda>buffer.
        Inr (buffer, len))))))))"

lemmas rtp_consts = kFixedHeaderSize_def kRtpVersion_def
lemmas ext_consts = kOneByteExtensionProfileId_def kTwoByteExtensionProfileId_def
  kOneByteExtensionHeaderLength_def kTwoByteExtensionHeaderLength_def

section \<open>Memory safety and payload bounds\<close>

lemma Parse_exts_total:
  "off + cap \<le> length data \<Longrightarrow> \<exists>e. Parse_exts data profile off cap es exts = Inr e"
proof (induction "cap - es" arbitrary: es exts rule: less_induct)
  case less
  let ?hl = "extension_header_length profile"
  show ?case
  proof (cases "es + ?hl < cap")
    case True
    have rec: "\<exists>e. Parse_exts data profile off cap es' exts' = Inr e" if "es < es'" for es' exts'
      using less.hyps [of es' exts'] less.prems that True by simp
    have rd: "rd8 data (off + es) = Inr (data ! (off + es))" using True less.prems by simp
    have rd1: "rd8 data (off + es + 1) = Inr (data ! (off + es + 1))" if "profile \<noteq> kOneByteExtensionProfileId"
      using True less.prems that by (simp add: extension_header_length_def ext_consts)
    show ?thesis
    proof (cases "profile = kOneByteExtensionProfileId")
      case one: True
      show ?thesis
        using True rd by (subst Parse_exts.simps) (simp add: Let_def one rec [unfolded one])
    next
      case False
      then show ?thesis
        using True rd rd1 by (subst Parse_exts.simps) (simp add: Let_def rec)
    qed
  next
    case False
    then show ?thesis by (subst Parse_exts.simps) simp
  qed
qed

lemma Parse_extension_block_ok:
  assumes po: "0 \<le> rtp_payloadOffset self" "rtp_payloadOffset self < 2 ^ 31"
    and sz: "0 \<le> sz" "sz < 2 ^ 31" "sz \<le> int (length data)"
  shows "\<exists>p ok. Parse_extension_block self data sz = Inr (p, ok) \<and>
    (ok \<longrightarrow> (\<exists>exts po'. p = self\<lparr>rtp_exts := exts, rtp_payloadOffset := po'\<rparr> \<and>
      rtp_payloadOffset self + 4 \<le> po' \<and> po' \<le> sz)) \<and> (\<not> ok \<longrightarrow> p = self)"
proof -
  let ?off = "nat (rtp_payloadOffset self)"
  have st: "size_t (rtp_payloadOffset self) = ?off" "size_t sz = nat sz" using po sz by auto
  show ?thesis
  proof (cases "?off + 4 > nat sz")
    case True
    then have "Parse_extension_block self data sz = Inr (self, False)"
      by (simp add: Parse_extension_block_def Let_def st)
    then show ?thesis by blast
  next
    case False
    then have r: "?off + 2 \<le> length data" "?off + 2 + 2 \<le> length data" using sz by linarith+
    define pr :: u16 where "pr = be_word (take 2 (drop ?off data))"
    define w :: u16 where "w = be_word (take 2 (drop (?off + 2) data))"
    have rd: "ReadBigEndian 2 data ?off = Inr pr" "ReadBigEndian 2 data (?off + 2) = Inr w"
      using r by (simp_all only: be16.rd_in_range pr_def w_def)
    show ?thesis
    proof (cases "?off + 4 + unat w * 4 > nat sz")
      case True
      then have "Parse_extension_block self data sz = Inr (self, False)"
        using False by (simp add: Parse_extension_block_def Let_def st rd)
      then show ?thesis by blast
    next
      case fits: False
      then have "?off + 4 + unat w * 4 \<le> length data" using sz by linarith
      then obtain e where "Parse_exts data pr (?off + 4) (unat w * 4) 0 (rtp_exts self) = Inr e"
        using Parse_exts_total by blast
      then obtain e' where e': "(if pr \<noteq> kOneByteExtensionProfileId \<and> pr \<noteq> kTwoByteExtensionProfileId
          then Inr (rtp_exts self)
          else Parse_exts data pr (?off + 4) (unat w * 4) 0 (rtp_exts self)) = Inr e'"
        by (cases "pr \<noteq> kOneByteExtensionProfileId \<and> pr \<noteq> kTwoByteExtensionProfileId") auto
      have "Parse_extension_block self data sz =
          Inr (self\<lparr>rtp_exts := e', rtp_payloadOffset := int (?off + 4 + unat w * 4)\<rparr>, True)"
        unfolding Parse_extension_block_def Let_def st rd bindr_Inr if_not_P [OF False] if_not_P [OF fits] e' ..
      moreover have "rtp_payloadOffset self + 4 \<le> int (?off + 4 + unat w * 4)" "int (?off + 4 + unat w * 4) \<le> sz"
        using fits po sz by linarith+
      ultimately show ?thesis by blast
    qed
  qed
qed

text \<open>A packet whose payload and padding fill the datagram behind the header.\<close>

definition rtp_bounds_ok :: "RTPPacket \<Rightarrow> bool" where
  "rtp_bounds_ok p \<longleftrightarrow> 12 \<le> rtp_payloadOffset p \<and> 0 \<le> rtp_payloadSize p \<and> 0 \<le> rtp_paddingSize p \<and>
     rtp_payloadOffset p + rtp_payloadSize p + rtp_paddingSize p = rtp_size p \<and>
     rtp_size p \<le> int (length (rtp_data p))"

definition has_rtp_header :: "bytes \<Rightarrow> int \<Rightarrow> bool" where
  "has_rtp_header data sz \<longleftrightarrow> 12 \<le> sz \<and> drop_bit 6 (data ! 0) = (2 :: byte) \<and>
     12 + 4 * int (unat (data ! 0 AND 0x0f)) \<le> sz"

text \<open>What is left of \<open>Parse\<close> once the fixed header has been read.\<close>

definition Parse_tail :: "RTPPacket \<Rightarrow> bytes \<Rightarrow> int \<Rightarrow> bool \<Rightarrow> bool \<Rightarrow> (RTPPacket \<times> bool) res" where
  "Parse_tail self data sz hasPadding hasExt =
      bindr (if hasPadding
             then bindr (rd8i data (sz - 1)) (\<lambda>p. Inr (self\<lparr>rtp_paddingSize := int (unat p)\<rparr>, p \<noteq> 0))
             else Inr (self\<lparr>rtp_paddingSize := 0\<rparr>, True)) (\<lambda>(self, ok).
      if \<not> ok then Inr (self, False)
      else bindr (if hasExt then Parse_extension_block self data sz else Inr (self, True)) (\<lambda>(self, ok).
      if \<not> ok then Inr (self, False)
      else Inr (Parse_payload_bounds self sz)))"

definition rtp_header_fields :: "RTPPacket \<Rightarrow> bytes \<Rightarrow> int \<Rightarrow> RTPPacket" where
  "rtp_header_fields self data sz = self\<lparr>rtp_data := data, rtp_size := sz,
     rtp_maker := bit (data ! 1) 7, rtp_payloadType := data ! 1 AND 0x7f,
     rtp_seqNum := be_word (take 2 (drop 2 data)), rtp_timestamp := be_word (take 4 (drop 4 data)),
     rtp_ssrc := be_word (take 4 (drop 8 data))\<rparr>"

lemma byte_bits: "(x :: byte) AND 0x20 \<noteq> 0 \<longleftrightarrow> bit x 5" "(x :: byte) AND 0x10 \<noteq> 0 \<longleftrightarrow> bit x 4"
  using and_exp_eq_0_iff_not_bit [of x 5] and_exp_eq_0_iff_not_bit [of x 4] by simp_all

lemma RTPPacket_Parse_unfold:
  assumes sz: "0 \<le> sz" "sz < 2 ^ 31" "sz \<le> int (length data)"
  shows "RTPPacket_Parse self data sz =
    (if sz < 12 \<or> drop_bit 6 (data ! 0) \<noteq> (2 :: byte) then Inr (self\<lparr>rtp_data := data, rtp_size := sz\<rparr>, True)
     else if \<not> has_rtp_header data sz then Inr (rtp_header_fields self data sz, True)
     else Parse_tail ((rtp_header_fields self data sz)\<lparr>rtp_payloadOffset := 12 + 4 * int (unat (data ! 0 AND 0x0f))\<rparr>)
            data sz (bit (data ! 0) 5) (bit (data ! 0) 4))"
proof (cases "sz < 12")
  case True
  then show ?thesis using sz by (simp add: RTPPacket_Parse_def rtp_consts Let_def)
next
  case False
  then have len: "12 \<le> length data" using sz by linarith
  have rd: "rd8 data 0 = Inr (data ! 0)" "rd8 data 1 = Inr (data ! 1)"
    "ReadBigEndian 2 data 2 = Inr (be_word (take 2 (drop 2 data)) :: u16)"
    "ReadBigEndian 4 data 4 = Inr (be_word (take 4 (drop 4 data)) :: u32)"
    "ReadBigEndian 4 data 8 = Inr (be_word (take 4 (drop 8 data)) :: u32)"
    using len by (auto simp: be16.rd_eq be32.rd_eq intro!: rd8_ok)
  have cc: "nat sz < 12 + unat (data ! 0 AND 0x0f) * 4 \<longleftrightarrow> \<not> has_rtp_header data sz"
    if "drop_bit 6 (data ! 0) = (2 :: byte)"
  proof -
    have "nat sz < 12 + u * 4 \<longleftrightarrow> \<not> 12 + 4 * int u \<le> sz" for u using sz by linarith
    then show ?thesis using that False by (simp only: has_rtp_header_def not_less simp_thms)
  qed
  have off: "int (12 + unat (data ! 0 AND 0x0f) * 4) = 12 + 4 * int (unat (data ! 0 AND 0x0f))" by simp
  show ?thesis
    unfolding RTPPacket_Parse_def Let_def rtp_consts Parse_tail_def rtp_header_fields_def byte_bits byte_sign_bit
    using False sz by (simp only: rd bindr_Inr off) (simp add: cc)
qed

lemma Parse_tail_ok:
  assumes sz: "12 \<le> sz" "sz < 2 ^ 31" "sz \<le> int (length data)"
    and self: "rtp_data self = data" "rtp_size self = sz" "12 \<le> rtp_payloadOffset self" "rtp_payloadOffset self \<le> sz"
  shows "\<exists>p ok. Parse_tail self data sz pad ext = Inr (p, ok) \<and> rtp_data p = data \<and> rtp_size p = sz \<and>
    (ok \<longrightarrow> rtp_bounds_ok p)"
proof -
  define k where "k = (if pad then int (unat (data ! nat (sz - 1))) else 0)"
  define self1 where "self1 = self\<lparr>rtp_paddingSize := k\<rparr>"
  have "rd8i data (sz - 1) = Inr (data ! nat (sz - 1))" using sz by (simp add: rd8i_def)
  then have pad_eq: "Parse_tail self data sz pad ext =
    (if pad \<and> data ! nat (sz - 1) = 0 then Inr (self1, False)
     else bindr (if ext then Parse_extension_block self1 data sz else Inr (self1, True)) (\<lambda>(self, ok).
       if \<not> ok then Inr (self, False) else Inr (Parse_payload_bounds self sz)))"
    by (simp add: Parse_tail_def self1_def k_def)
  have bounds: "fst (Parse_payload_bounds p sz) = p \<or> rtp_bounds_ok (fst (Parse_payload_bounds p sz))"
    "snd (Parse_payload_bounds p sz) \<Longrightarrow> rtp_bounds_ok (fst (Parse_payload_bounds p sz))"
    "rtp_data (fst (Parse_payload_bounds p sz)) = data" "rtp_size (fst (Parse_payload_bounds p sz)) = sz"
    if "rtp_data p = data" "rtp_size p = sz" "12 \<le> rtp_payloadOffset p" "rtp_paddingSize p = k" for p
    using that sz by (auto simp: Parse_payload_bounds_def rtp_bounds_ok_def k_def)
  have "0 \<le> rtp_payloadOffset self1" "rtp_payloadOffset self1 < 2 ^ 31" using self sz by (auto simp: self1_def)
  from Parse_extension_block_ok [OF this, of sz data] sz obtain p ok where
    p: "Parse_extension_block self1 data sz = Inr (p, ok)"
    and c: "ok \<longrightarrow> (\<exists>exts po'. p = self1\<lparr>rtp_exts := exts, rtp_payloadOffset := po'\<rparr> \<and>
      rtp_payloadOffset self1 + 4 \<le> po' \<and> po' \<le> sz)" "\<not> ok \<longrightarrow> p = self1"
    by auto
  have fields: "rtp_data p = data" "rtp_size p = sz" "rtp_paddingSize p = k" "12 \<le> rtp_payloadOffset p"
    using c self by (cases ok; auto simp: self1_def)+
  have "rtp_data self1 = data" "rtp_size self1 = sz" "12 \<le> rtp_payloadOffset self1" "rtp_paddingSize self1 = k"
    using self by (auto simp: self1_def)
  then show ?thesis
    using p fields bounds [of self1] bounds [of p] unfolding pad_eq
    by (cases ext; cases ok; cases "Parse_payload_bounds p sz"; cases "Parse_payload_bounds self1 sz") auto
qed

text \<open>An object whose storage happens to be zero, to evaluate concrete parses on.\<close>

definition zero_rtp :: RTPPacket where
  "zero_rtp = \<lparr>rtp_payloadOffset = 0, rtp_payloadSize = 0, rtp_ssrc = 0, rtp_timestamp = 0, rtp_seqNum = 0,
     rtp_payloadType = 0, rtp_maker = False, rtp_data = [], rtp_size = 0, rtp_paddingSize = 0, rtp_seqCycle = 0,
     rtp_recvTimeMS = 0, rtp_exts = Map.empty\<rparr>"

lemma RTPPacket_Parse_total:
  assumes "0 \<le> sz" and "sz < 2 ^ 31" and "sz \<le> int (length data)"
  shows "\<exists>p ok. RTPPacket_Parse self data sz = Inr (p, ok) \<and> rtp_data p = data \<and> rtp_size p = sz \<and>
    (ok \<and> has_rtp_header data sz \<longrightarrow> rtp_bounds_ok p)"
proof (cases "has_rtp_header data sz")
  case True
  let ?self = "(rtp_header_fields self data sz)\<lparr>rtp_payloadOffset := 12 + 4 * int (unat (data ! 0 AND 0x0f))\<rparr>"
  have "12 \<le> sz" "rtp_data ?self = data" "rtp_size ?self = sz" "12 \<le> rtp_payloadOffset ?self"
      "rtp_payloadOffset ?self \<le> sz"
    using True by (simp_all add: has_rtp_header_def rtp_header_fields_def)
  from Parse_tail_ok [OF this(1) assms(2,3) this(2-5)] show ?thesis
    using True assms by (simp add: RTPPacket_Parse_unfold) (simp add: has_rtp_header_def)
next
  case False
  then show ?thesis using assms by (auto simp: RTPPacket_Parse_unfold rtp_header_fields_def)
qed

text \<open>
  C10. Parsing is memory safe on every datagram. Whenever it reports success on a packet with
  a complete version-2 header (the fixed part and the contributing sources), header, payload
  and padding exactly cover the datagram: the payload handed on lies inside the received
  buffer. On any other datagram it reports success as well, and offset and size of the
  payload keep the values, indeterminate in a new packet, that they had before the call.
\<close>

theorem rtp_parse_safe_and_bounded:
  assumes "0 \<le> sz" and "sz < 2 ^ 31" and "sz \<le> int (length data)"
  shows "\<exists>p ok. RTPPacket_Parse self data sz = Inr (p, ok) \<and> rtp_data p = data \<and> rtp_size p = sz \<and>
    (ok \<and> has_rtp_header data sz \<longrightarrow> rtp_bounds_ok p) \<and>
    (\<not> has_rtp_header data sz \<longrightarrow> ok \<and> rtp_payloadOffset p = rtp_payloadOffset self \<and> rtp_payloadSize p = rtp_payloadSize self)"
proof -
  obtain p ok where p: "RTPPacket_Parse self data sz = Inr (p, ok)" "rtp_data p = data" "rtp_size p = sz"
      "ok \<and> has_rtp_header data sz \<longrightarrow> rtp_bounds_ok p"
    using RTPPacket_Parse_total [OF assms] by blast
  have "ok \<and> (p = self\<lparr>rtp_data := data, rtp_size := sz\<rparr> \<or> p = rtp_header_fields self data sz)" if "\<not> has_rtp_header data sz"
    using that assms p(1) by (auto simp: RTPPacket_Parse_unfold split: if_splits)
  then have "ok \<and> rtp_payloadOffset p = rtp_payloadOffset self \<and> rtp_payloadSize p = rtp_payloadSize self"
    if "\<not> has_rtp_header data sz"
    using that by (elim meta_mp [THEN conjE]) (auto simp: rtp_header_fields_def)
  then show ?thesis using p by blast
qed

theorem rtp_parse_safe_and_bounded_witness:
  "\<exists>p ok. RTPPacket_Parse zero_rtp (0x80 # 0x60 # replicate 12 0) 14 = Inr (p, ok) \<and>
    rtp_size p = 14 \<and> (ok \<longrightarrow> rtp_bounds_ok p)"
  using rtp_parse_safe_and_bounded [of 14 "0x80 # 0x60 # replicate 12 0" zero_rtp]
  by (auto simp: has_rtp_header_def)

section \<open>Parsing an encoded packet\<close>

text \<open>
  The wire format of RFC 3550: version 2, padding and extension flags, contributing
  sources, an optional extension block (profile, length in words, contents), the payload
  and the padding whose last byte is its length.
\<close>

definition rtp_first_byte :: "bool \<Rightarrow> bool \<Rightarrow> nat \<Rightarrow> byte" where
  "rtp_first_byte pad ext cc = 0x80 OR (if pad then 0x20 else 0) OR (if ext then 0x10 else 0) OR word_of_nat cc"

definition enc_ext_block :: "(u16 \<times> bytes) option \<Rightarrow> bytes" where
  "enc_ext_block ext = (case ext of None \<Rightarrow> []
     | Some (profile, d) \<Rightarrow> be_bytes 2 profile @ be_bytes 2 (word_of_nat (length d div 4) :: u16) @ d)"

definition enc_rtp :: "bool \<Rightarrow> byte \<Rightarrow> u16 \<Rightarrow> u32 \<Rightarrow> u32 \<Rightarrow> u32 list \<Rightarrow> (u16 \<times> bytes) option \<Rightarrow> bytes \<Rightarrow> nat \<Rightarrow> bytes" where
  "enc_rtp m pt seq ts ssrc csrcs ext payload k =
     [rtp_first_byte (0 < k) (ext \<noteq> None) (length csrcs), (if m then 0x80 else 0) OR pt] @
     be_bytes 2 seq @ be_bytes 4 ts @ be_bytes 4 ssrc @ concat (map (be_bytes 4) csrcs) @
     enc_ext_block ext @ payload @ (if k = 0 then [] else replicate (k - 1) 0 @ [word_of_nat k])"

lemma rtp_first_byte_bits:
  assumes "cc \<le> 15"
  shows "drop_bit 6 (rtp_first_byte pad ext cc) = 2" "unat (rtp_first_byte pad ext cc AND 0x0f) = cc"
    "bit (rtp_first_byte pad ext cc) 5 = pad" "bit (rtp_first_byte pad ext cc) 4 = ext"
proof -
  have "cc \<in> {0, 1, 2, 3, 4, 5, 6, 7, 8, 9, 10, 11, 12, 13, 14, 15}"
    using assms by simp arith
  then show "drop_bit 6 (rtp_first_byte pad ext cc) = 2" "unat (rtp_first_byte pad ext cc AND 0x0f) = cc"
    "bit (rtp_first_byte pad ext cc) 5 = pad" "bit (rtp_first_byte pad ext cc) 4 = ext"
    by (cases pad; cases ext; auto simp: rtp_first_byte_def)+
qed

lemma length_concat_be4: "length (concat (map (be_bytes 4) csrcs)) = 4 * length csrcs"
  by (induction csrcs) auto

definition parsed_exts :: "bytes \<Rightarrow> nat \<Rightarrow> (u16 \<times> bytes) option \<Rightarrow> (u16 \<rightharpoonup> RTPExtension) \<Rightarrow> (u16 \<rightharpoonup> RTPExtension) res" where
  "parsed_exts data off ext exts = (case ext of None \<Rightarrow> Inr exts
     | Some (profile, d) \<Rightarrow>
        (if profile \<noteq> kOneByteExtensionProfileId \<and> profile \<noteq> kTwoByteExtensionProfileId then Inr exts
         else Parse_exts data profile off (length d) 0 exts))"

lemma Parse_extension_block_encoded:
  assumes po: "rtp_payloadOffset self = int (length pre)" and len: "length pre < 2 ^ 31"
    and d: "4 dvd length d" "length d div 4 < 65536"
    and data: "data = pre @ enc_ext_block (Some (profile, d)) @ rest" and sz: "length data < 2 ^ 31"
    and e: "parsed_exts data (length pre + 4) (Some (profile, d)) (rtp_exts self) = Inr e"
  shows "Parse_extension_block self data (int (length data)) =
    Inr (self\<lparr>rtp_exts := e, rtp_payloadOffset := int (length pre + 4 + length d)\<rparr>, True)"
proof -
  have st: "size_t (rtp_payloadOffset self) = length pre" "nat (rtp_payloadOffset self) = length pre"
    "size_t (int (length data)) = length data"
    using po len sz by auto
  have rd: "ReadBigEndian 2 data (length pre) = Inr profile"
    "ReadBigEndian 2 data (length pre + 2) = Inr (word_of_nat (length d div 4) :: u16)"
    by (simp_all add: be16.rd_eq enc_ext_block_def data)
  have cap: "unat (word_of_nat (length d div 4) :: u16) * 4 = length d"
    using d by (simp add: unat_of_nat)
  have fits: "\<not> length pre + 4 > length data" "\<not> length pre + 4 + length d > length data"
    by (simp_all add: enc_ext_block_def data)
  show ?thesis
    using e
    unfolding Parse_extension_block_def Let_def st rd bindr_Inr cap if_not_P [OF fits(1)] if_not_P [OF fits(2)]
    by (simp add: parsed_exts_def)
qed

lemma rtp_second_byte:
  assumes "\<not> bit pt 7"
  shows "bit ((if m then 0x80 else 0) OR pt :: byte) 7 = m" "((if m then 0x80 else 0) OR pt :: byte) AND 0x7f = pt"
proof -
  have top: "k < 7" if "bit pt k" for k
    using that assms bit_imp_le_length [OF that] by (cases "k = 7") auto
  have "pt AND mask 7 = pt" by (rule bit_word_eqI) (auto simp: bit_simps dest: top)
  then have "pt AND 0x7f = pt" by (simp add: mask_eq_exp_minus_1)
  then show "((if m then 0x80 else 0) OR pt :: byte) AND 0x7f = pt"
    by (simp add: bit.conj_disj_distrib2)
  show "bit ((if m then 0x80 else 0) OR pt :: byte) 7 = m" using assms by (simp add: bit_or_iff)
qed

lemma Parse_tail_padded:
  assumes k: "k \<le> 255" and last: "0 < k \<Longrightarrow> rd8i data (sz - 1) = Inr (word_of_nat k)"
  shows "Parse_tail self data sz (0 < k) x =
    bindr (if x then Parse_extension_block (self\<lparr>rtp_paddingSize := int k\<rparr>) data sz else Inr (self\<lparr>rtp_paddingSize := int k\<rparr>, True))
      (\<lambda>(self, ok). if \<not> ok then Inr (self, False) else Inr (Parse_payload_bounds self sz))"
proof -
  have kk: "unat (word_of_nat k :: byte) = k" using k by (simp add: unat_of_nat)
  then have "uint (word_of_nat k :: byte) = int k" by (metis uint_nat)
  moreover have "(word_of_nat k :: byte) \<noteq> 0" if "0 < k" using kk that by auto
  ultimately show ?thesis using last by (auto simp: Parse_tail_def)
qed

lemma Parse_block_encoded:
  assumes split: "data = pre @ enc_ext_block ext @ rest" and len: "length data < 2 ^ 31"
    and ext: "\<And>profile d. ext = Some (profile, d) \<Longrightarrow> 4 dvd length d \<and> length d div 4 < 65536"
    and self: "rtp_payloadOffset self = int (length pre)" and e: "parsed_exts data (length pre + 4) ext (rtp_exts self) = Inr e"
  shows "(if ext \<noteq> None then Parse_extension_block self data (int (length data)) else Inr (self, True)) =
    Inr (self\<lparr>rtp_exts := e, rtp_payloadOffset := int (length pre + length (enc_ext_block ext))\<rparr>, True)"
proof (cases ext)
  case None
  then show ?thesis using e self by (auto simp: enc_ext_block_def parsed_exts_def)
next
  case (Some x)
  obtain profile d where x: "x = (profile, d)" by fastforce
  have "length pre < 2 ^ 31" using len split by simp
  from Parse_extension_block_encoded [of self pre d data profile rest e, OF _ this]
  show ?thesis using Some x ext [of profile d] split len e self by (simp add: enc_ext_block_def add.commute)
qed

lemma rd8i_last:
  assumes "data \<noteq> []" "last data = x"
  shows "rd8i data (int (length data) - 1) = Inr x"
proof -
  have "nat (int (length data) - 1) = length data - 1" by linarith
  moreover have "0 < length data" using assms(1) by simp
  ultimately show ?thesis using assms by (auto simp: rd8i_def last_conv_nth)
qed

lemma parse_encoded:
  assumes "length csrcs \<le> 15" and pt: "\<not> bit pt 7" and k: "k \<le> 255"
    and ext: "\<And>profile d. ext = Some (profile, d) \<Longrightarrow> 4 dvd length d \<and> length d div 4 < 65536"
    and data: "data = enc_rtp m pt seq ts ssrc csrcs ext payload k" and len: "length data < 2 ^ 31"
    and e: "parsed_exts data (16 + 4 * length csrcs) ext (rtp_exts self) = Inr e"
  shows "\<exists>p. RTPPacket_Parse self data (int (length data)) = Inr (p, True) \<and>
    rtp_maker p = m \<and> rtp_payloadType p = pt \<and> rtp_seqNum p = seq \<and> rtp_timestamp p = ts \<and> rtp_ssrc p = ssrc \<and>
    rtp_paddingSize p = int k \<and> rtp_data p = data \<and> rtp_exts p = e \<and>
    take (nat (rtp_payloadSize p)) (drop (nat (rtp_payloadOffset p)) data) = payload"
proof -
  let ?sz = "int (length data)"
  let ?b0 = "rtp_first_byte (0 < k) (ext \<noteq> None) (length csrcs)"
  define pre where "pre = [?b0, (if m then 0x80 else 0) OR pt] @ be_bytes 2 seq @ be_bytes 4 ts @ be_bytes 4 ssrc @
      concat (map (be_bytes 4) csrcs)"
  define padding where "padding = (if k = 0 then [] else replicate (k - 1) 0 @ [word_of_nat k] :: bytes)"
  have split: "data = pre @ enc_ext_block ext @ payload @ padding"
    by (simp add: data enc_rtp_def pre_def padding_def)
  have lens: "length pre = 12 + 4 * length csrcs" "length padding = k"
    by (auto simp: pre_def padding_def length_concat_be4)
  have nth: "data ! 0 = ?b0" "data ! 1 = (if m then 0x80 else 0) OR pt"
    by (simp_all add: split pre_def)
  have "12 + 4 * int (length csrcs) \<le> ?sz" by (simp add: split lens)
  then have hdr: "has_rtp_header data ?sz" "12 \<le> ?sz"
    unfolding has_rtp_header_def nth rtp_first_byte_bits [OF assms(1)] by auto
  let ?self = "(rtp_header_fields self data ?sz)\<lparr>rtp_payloadOffset := int (length pre)\<rparr>"
  have fields: "rtp_maker ?self = m" "rtp_payloadType ?self = pt" "rtp_seqNum ?self = seq" "rtp_timestamp ?self = ts"
      "rtp_ssrc ?self = ssrc" "rtp_data ?self = data" "rtp_exts ?self = rtp_exts self"
    using rtp_second_byte [OF pt, of m]
    by (simp_all add: rtp_header_fields_def nth, simp_all add: split pre_def)
  have parse: "RTPPacket_Parse self data ?sz = Parse_tail ?self data ?sz (0 < k) (ext \<noteq> None)"
    using hdr len assms(1) lens by (simp add: RTPPacket_Parse_unfold nth rtp_first_byte_bits)
  have last: "rd8i data (?sz - 1) = Inr (word_of_nat k)" if "0 < k"
    using that by (intro rd8i_last) (simp_all add: split padding_def)
  let ?self1 = "?self\<lparr>rtp_paddingSize := int k\<rparr>"
  let ?self2 = "?self1\<lparr>rtp_exts := e, rtp_payloadOffset := int (length pre + length (enc_ext_block ext))\<rparr>"
  have tail: "Parse_tail ?self data ?sz (0 < k) (ext \<noteq> None) =
      bindr (if ext \<noteq> None then Parse_extension_block ?self1 data ?sz else Inr (?self1, True)) (\<lambda>(self, ok).
        if \<not> ok then Inr (self, False) else Inr (Parse_payload_bounds self ?sz))"
    by (rule Parse_tail_padded [OF k]) (rule last)
  have "parsed_exts data (length pre + 4) ext (rtp_exts ?self1) = Inr e" using e fields lens by (simp add: add.commute)
  then have block: "(if ext \<noteq> None then Parse_extension_block ?self1 data ?sz else Inr (?self1, True)) = Inr (?self2, True)"
    by (intro Parse_block_encoded [OF split len ext]) simp_all
  have sz: "?sz = int (length pre + length (enc_ext_block ext)) + int (length payload) + int k"
    by (simp add: split lens)
  have "Parse_payload_bounds ?self2 ?sz = (?self2\<lparr>rtp_payloadSize := int (length payload)\<rparr>, True)"
    unfolding sz by (simp add: Parse_payload_bounds_def)
  moreover have "take (length payload) (drop (length pre + length (enc_ext_block ext)) data) = payload"
    by (simp add: split)
  ultimately show ?thesis
    unfolding parse tail block
    by (intro exI [of _ "?self2\<lparr>rtp_payloadSize := int (length payload)\<rparr>"]) (use fields in \<open>simp add: nat_int_add\<close>)
qed

lemma parsed_exts_total:
  assumes "data = enc_rtp m pt seq ts ssrc csrcs ext payload k"
  shows "\<exists>e. parsed_exts data (16 + 4 * length csrcs) ext exts = Inr e"
proof (cases ext)
  case None
  then show ?thesis by (simp add: parsed_exts_def)
next
  case (Some x)
  obtain profile d where x: "x = (profile, d)" by fastforce
  have "16 + 4 * length csrcs + length d \<le> length data"
    by (simp add: assms Some x enc_rtp_def enc_ext_block_def length_concat_be4)
  from Parse_exts_total [OF this] show ?thesis by (simp add: Some x parsed_exts_def)
qed

text \<open>
  C9. Parsing a packet laid out as RFC 3550 prescribes, with any contributing sources, any
  extension block (profile known or not) and any padding, succeeds and recovers marker,
  payload type, sequence number, timestamp, source and exactly the payload bytes.
\<close>

theorem rtp_parse_encoded:
  assumes "length csrcs \<le> 15" and "\<not> bit pt 7" and "k \<le> 255"
    and "\<And>profile d. ext = Some (profile, d) \<Longrightarrow> 4 dvd length d \<and> length d div 4 < 65536"
    and "data = enc_rtp m pt seq ts ssrc csrcs ext payload k" and "length data < 2 ^ 31"
  shows "\<exists>p. RTPPacket_Parse self data (int (length data)) = Inr (p, True) \<and>
    rtp_maker p = m \<and> rtp_payloadType p = pt \<and> rtp_seqNum p = seq \<and> rtp_timestamp p = ts \<and> rtp_ssrc p = ssrc \<and>
    rtp_paddingSize p = int k \<and>
    take (nat (rtp_payloadSize p)) (drop (nat (rtp_payloadOffset p)) data) = payload"
proof -
  obtain e where "parsed_exts data (16 + 4 * length csrcs) ext (rtp_exts self) = Inr e"
    using parsed_exts_total [OF assms(5)] by blast
  from parse_encoded [OF assms(1-3) _ assms(5,6) this] assms(4) show ?thesis by blast
qed

theorem rtp_parse_encoded_witness:
  "\<exists>p. RTPPacket_Parse zero_rtp (enc_rtp True 96 7 1000 42 [5] (Some (0xBEDE, [0x10, 1, 0, 0])) [9, 8, 7] 2)
      (int (length (enc_rtp True 96 7 1000 42 [5] (Some (0xBEDE, [0x10, 1, 0, 0])) [9, 8, 7] 2))) = Inr (p, True) \<and>
    rtp_seqNum p = 7 \<and> rtp_ssrc p = 42 \<and> rtp_paddingSize p = 2"
proof -
  let ?e = "Some (0xBEDE, [0x10, 1, 0, 0]) :: (u16 \<times> bytes) option"
  have ext: "4 dvd length d \<and> length d div 4 < 65536" if "?e = Some (profile, d)" for profile :: u16 and d :: bytes
  proof -
    have "length d = 4" using that by auto
    then show ?thesis by simp
  qed
  have hyps: "length [5 :: u32] \<le> 15" "\<not> bit (96 :: byte) 7" "2 \<le> (255 :: nat)" by simp_all
  have "length (enc_rtp True 96 7 1000 42 [5] ?e [9, 8, 7] 2) < 2 ^ 31"
    by (simp add: enc_rtp_def enc_ext_block_def)
  from rtp_parse_encoded [OF hyps ext refl this] show ?thesis by fastforce
qed

text \<open>
  A datagram shorter than the fixed header or of another protocol version is not
  rejected: \<open>return -1\<close> in a function returning \<open>bool\<close> is success, and every member but
  the buffer and its size keeps the value it had before the call.
\<close>

theorem rtp_parse_accepts_invalid:
  assumes "0 \<le> sz" and "sz < 2 ^ 31" and "sz \<le> int (length data)"
    and "sz < 12 \<or> drop_bit 6 (data ! 0) \<noteq> (2 :: byte)"
  shows "RTPPacket_Parse self data sz = Inr (self\<lparr>rtp_data := data, rtp_size := sz\<rparr>, True)"
  using assms by (simp add: RTPPacket_Parse_unfold)

theorem rtp_parse_accepts_invalid_witness:
  "RTPPacket_Parse zero_rtp [1, 2, 3] 3 = Inr (zero_rtp\<lparr>rtp_data := [1, 2, 3], rtp_size := 3\<rparr>, True)"
  using rtp_parse_accepts_invalid [of 3 "[1, 2, 3]" zero_rtp] by simp

section \<open>One-byte header extensions\<close>

text \<open>An element of RFC 8285's one-byte form: identifier and length minus one, then the value.\<close>

definition enc_elem :: "byte \<times> bytes \<Rightarrow> bytes" where
  "enc_elem iv = (case iv of (i, v) \<Rightarrow> (push_bit 4 i OR word_of_nat (length v - 1)) # v)"

definition valid_elem :: "byte \<times> bytes \<Rightarrow> bool" where
  "valid_elem iv \<longleftrightarrow> fst iv \<noteq> 0 \<and> fst iv < 15 \<and> snd iv \<noteq> [] \<and> length (snd iv) \<le> 16"

definition record_elem :: "nat \<Rightarrow> (u16 \<rightharpoonup> RTPExtension) \<Rightarrow> byte \<times> bytes \<Rightarrow> (u16 \<rightharpoonup> RTPExtension)" where
  "record_elem off exts iv = exts(ucast (fst iv) \<mapsto>
     \<lparr>ext_id = fst iv, ext_length = word_of_nat (length (snd iv)), ext_data = off + 1\<rparr>)"

lemma nibble_bits:
  assumes "(x :: byte) < 16" "bit x k"
  shows "k < 4"
proof (rule ccontr)
  assume "\<not> k < 4"
  then have "(2 :: nat) ^ 4 \<le> 2 ^ k" by (intro power_increasing) auto
  moreover have "unat x < 2 ^ 4" using assms(1) by (simp add: word_less_nat_alt)
  ultimately have "unat x div 2 ^ k = 0" by simp
  moreover have "bit (unat x) k" using assms(2) by (simp add: bit_simps)
  ultimately show False by (simp add: bit_iff_odd)
qed

lemma elem_header:
  assumes "valid_elem (i, v)"
  defines "h \<equiv> push_bit 4 i OR word_of_nat (length v - 1) :: byte"
  shows "drop_bit 4 h = i" "1 + (h AND 0xf) = word_of_nat (length v)" "h \<noteq> 0"
proof -
  let ?l = "word_of_nat (length v - 1) :: byte"
  have i: "i < 16" "i \<noteq> 0" using assms(1) by (auto simp: valid_elem_def intro: less_trans)
  have "length v - 1 < 16" using assms(1) by (auto simp: valid_elem_def)
  then have l: "?l < 16" by (simp add: word_less_nat_alt unat_of_nat)
  show d: "drop_bit 4 h = i"
  proof (rule bit_word_eqI)
    fix n assume "n < LENGTH(8)"
    have "\<not> bit ?l (4 + n)" "bit i n \<Longrightarrow> n < 4" using nibble_bits [OF l, of "4 + n"] nibble_bits [OF i(1)] by auto
    then show "bit (drop_bit 4 h) n \<longleftrightarrow> bit i n"
      unfolding h_def bit_drop_bit_eq comp_def bit_or_iff bit_push_bit_iff by auto
  qed
  have m: "(0xf :: byte) = mask 4" by (simp add: mask_eq_exp_minus_1)
  have "h AND 0xf = ?l"
    unfolding h_def m by (rule bit_word_eqI) (use nibble_bits [OF l] in \<open>auto simp: bit_simps\<close>)
  moreover have "1 + ?l = word_of_nat (length v)"
    using assms(1) by (cases v) (auto simp: valid_elem_def)
  ultimately show "1 + (h AND 0xf) = word_of_nat (length v)" by simp
  show "h \<noteq> 0" using d i(2) by auto
qed

lemma Parse_exts_zeros:
  "Parse_exts (pre @ done @ replicate z 0 @ post) profile (length pre) (length done + z) (length done) exts = Inr exts"
proof (induction z arbitrary: "done")
  case 0
  then show ?case by (subst Parse_exts.simps) (simp add: Let_def)
next
  case (Suc z)
  show ?case
    using Suc.IH [of "done @ [0]"] by (subst Parse_exts.simps) (simp add: Let_def nth_append)
qed

lemma Parse_exts_elems:
  assumes "\<forall>iv \<in> set els. valid_elem iv"
  shows "Parse_exts (pre @ done @ concat (map enc_elem els) @ replicate z 0 @ post) kOneByteExtensionProfileId
      (length pre) (length done + length (concat (map enc_elem els)) + z) (length done) exts
    = Inr (foldl (record_elem (length pre)) exts els)"
  using assms
proof (induction els arbitrary: "done" exts)
  case Nil
  then show ?case using Parse_exts_zeros by simp
next
  case (Cons iv els)
  obtain i v where iv: "iv = (i, v)" by fastforce
  let ?h = "push_bit 4 i OR word_of_nat (length v - 1) :: byte"
  let ?data = "pre @ done @ concat (map enc_elem (iv # els)) @ replicate z 0 @ post"
  let ?cap = "length done + length (concat (map enc_elem (iv # els))) + z"
  have v: "valid_elem (i, v)" using Cons.prems iv by simp
  note h = elem_header [OF v]
  have len: "unat (word_of_nat (length v) :: byte) = length v" "0 < length v" "i \<noteq> 15" "i \<noteq> 0"
    using v by (auto simp: valid_elem_def unat_of_nat)
  have rd: "rd8 ?data (length pre + length done) = Inr ?h" by (simp add: iv enc_elem_def nth_append)
  have go: "length done + extension_header_length kOneByteExtensionProfileId < ?cap"
    using len by (simp add: iv enc_elem_def extension_header_length_def ext_consts)
  have "Parse_exts ?data kOneByteExtensionProfileId (length pre) ?cap (length done) exts =
      Parse_exts ?data kOneByteExtensionProfileId (length pre) ?cap (length (done @ enc_elem iv))
        (record_elem (length pre) exts iv)"
    using go rd h len
    by (subst Parse_exts.simps)
      (simp add: Let_def record_elem_def iv, simp add: enc_elem_def extension_header_length_def ext_consts)
  also have "\<dots> = Inr (foldl (record_elem (length pre)) (record_elem (length pre) exts iv) els)"
    using Cons.IH [of "done @ enc_elem iv" "record_elem (length pre) exts iv"] Cons.prems
    by (simp add: add.assoc)
  finally show ?case by simp
qed

lemma record_elems_None:
  "u \<notin> ucast ` fst ` set els \<Longrightarrow> foldl (record_elem off) exts els u = exts u"
  by (induction els arbitrary: exts) (auto simp: record_elem_def)

lemma record_elems_Some:
  "iv \<in> set els \<Longrightarrow> \<exists>x. foldl (record_elem off) exts els (ucast (fst iv)) = Some x \<and> ext_data x = off + 1"
proof (induction els rule: rev_induct)
  case (snoc jw els)
  then show ?case by (cases "ucast (fst jw) = (ucast (fst iv) :: u16)") (auto simp: record_elem_def)
qed simp

lemma ucast_byte_u16_inj: "ucast (i :: byte) = (ucast j :: u16) \<longleftrightarrow> i = j"
  by transfer (simp add: take_bit_eq_mod take_bit_tightened)

text \<open>
  C27. The transport-wide sequence number of a packet with one-byte header extensions, whose first
  value has at least two bytes, is read from the first element of the block, whatever identifier is asked for, and only when the
  identifier is present: the recorded pointer is the start of the block plus one.
\<close>

theorem transport_cc_number_is_first_element:
  assumes "length csrcs \<le> 15" and "\<not> bit pt 7" and "k \<le> 255"
    and els: "els = (j, v) # rest" "\<forall>iv \<in> set els. valid_elem iv" "2 \<le> length v"
    and d: "d = concat (map enc_elem els) @ replicate z 0" "4 dvd length d" "length d div 4 < 65536"
    and data: "data = enc_rtp m pt seq ts ssrc csrcs (Some (0xBEDE, d)) payload k" and len: "length data < 2 ^ 31"
  shows "\<exists>p. RTPPacket_Parse (RTPPacket_new junk now) data (int (length data)) = Inr (p, True) \<and>
    (\<forall>i. GetTransportCCNum p i = Inr (if i \<in> fst ` set els then Some (be_word (take 2 v)) else None))"
proof -
  let ?off = "16 + 4 * length csrcs"
  let ?self = "RTPPacket_new junk now"
  define pre where "pre = [rtp_first_byte (0 < k) True (length csrcs), (if m then 0x80 else 0) OR pt] @
     be_bytes 2 seq @ be_bytes 4 ts @ be_bytes 4 ssrc @ concat (map (be_bytes 4) csrcs) @
     be_bytes 2 (0xBEDE :: u16) @ be_bytes 2 (word_of_nat (length d div 4) :: u16)"
  define post where "post = payload @ (if k = 0 then [] else replicate (k - 1) 0 @ [word_of_nat k])"
  have split: "data = pre @ d @ post" "length pre = ?off"
    by (simp_all add: pre_def post_def data enc_rtp_def enc_ext_block_def length_concat_be4)
  have "parsed_exts data ?off (Some (0xBEDE, d)) (rtp_exts ?self) =
      Inr (foldl (record_elem ?off) Map.empty els)"
    using Parse_exts_elems [OF els(2), of pre "[]" z post Map.empty] split d(1)
    by (simp add: parsed_exts_def ext_consts RTPPacket_new_def)
  from parse_encoded [OF assms(1-3) _ data len this] d
  obtain p where p: "RTPPacket_Parse ?self data (int (length data)) = Inr (p, True)" "rtp_data p = data"
      "rtp_exts p = foldl (record_elem ?off) Map.empty els" by auto
  have "take 2 (drop (?off + 1) data) = take 2 v" "?off + 1 + 2 \<le> length data"
    using els(3) split by (simp_all add: d(1) els(1) enc_elem_def)
  then have rd: "ReadBigEndian 2 data (?off + 1) = Inr (be_word (take 2 v) :: u16)"
    by (simp add: be16.rd_in_range)
  have "GetTransportCCNum p i = Inr (if i \<in> fst ` set els then Some (be_word (take 2 v)) else None)" for i
  proof (cases "i \<in> fst ` set els")
    case True
    then obtain iv where "iv \<in> set els" "fst iv = i" by blast
    with record_elems_Some [of iv els ?off Map.empty] rd True show ?thesis
      by (auto simp: GetTransportCCNum_def p)
  next
    case False
    then have "ucast i \<notin> (ucast :: byte \<Rightarrow> u16) ` fst ` set els" by (force simp: ucast_byte_u16_inj)
    from record_elems_None [OF this] False show ?thesis by (simp add: GetTransportCCNum_def p)
  qed
  with p(1) show ?thesis by blast
qed

theorem transport_cc_number_is_first_element_witness:
  "\<exists>p. RTPPacket_Parse (RTPPacket_new zero_rtp 0)
      (enc_rtp False 96 1 0 42 [] (Some (0xBEDE, [0x31, 0, 7, 0x51, 0x12, 0x34, 0, 0])) [] 0) 24 = Inr (p, True) \<and>
    GetTransportCCNum p 5 = Inr (Some 7)"
proof -
  let ?d = "[0x31, 0, 7, 0x51, 0x12, 0x34, 0, 0] :: bytes"
  let ?data = "enc_rtp False 96 1 0 42 [] (Some (0xBEDE, ?d)) [] 0"
  let ?els = "[(3, [0, 7]), (5, [0x12, 0x34])] :: (byte \<times> bytes) list"
  have hdr: "length ([] :: u32 list) \<le> 15" "\<not> bit (96 :: byte) 7" "0 \<le> (255 :: nat)" by simp_all
  have els: "\<forall>iv \<in> set ?els. valid_elem iv" "2 \<le> length [0 :: byte, 7]"
    by (simp_all add: valid_elem_def)
  have d: "?d = concat (map enc_elem ?els) @ replicate 2 0" by (simp add: enc_elem_def numeral_2_eq_2)
  have "length ?d = 8" by simp
  then have dlen: "4 dvd length ?d" "length ?d div 4 < 65536" by (simp_all only:) simp_all
  have len: "length ?data = 24" by (simp add: enc_rtp_def enc_ext_block_def)
  from transport_cc_number_is_first_element [OF hdr refl els d dlen refl, of False 1 0 42 "[]" zero_rtp 0] len
  show ?thesis by (auto simp: be_word_def)
qed

section \<open>Serialisation\<close>

text \<open>
  Serialising a successfully parsed packet never faults and never depends on what the
  allocated buffer held: the output is an eight-byte header with the session's payload type and
  sequence number, the packet's marker and timestamp, and the payload. The header carries
  neither version 2 nor a source identifier, so the session's \<open>ssrc\<close> has no influence on the
  output and parsing the output back stores no field.
\<close>

theorem rtp_serialize_layout:
  assumes p: "rtp_bounds_ok p" and mem: "length mem = nat (8 + rtp_payloadSize p)" and "length (rtp_data p) < 2 ^ 31"
  shows "\<exists>out. RTPPacket_Serialize mem p session = Inr (out, int (length out)) \<and>
    out = [0x10, (if rtp_maker p then 0x80 else 0) OR sess_pt session] @ be_bytes 2 (sess_seq session) @
      be_bytes 4 (rtp_timestamp p) @ take (nat (rtp_payloadSize p)) (drop (nat (rtp_payloadOffset p)) (rtp_data p)) \<and>
    (\<forall>q. RTPPacket_Parse q out (int (length out)) = Inr (q\<lparr>rtp_data := out, rtp_size := int (length out)\<rparr>, True))"
proof -
  let ?o = "nat (rtp_payloadOffset p)" and ?n = "nat (rtp_payloadSize p)"
  let ?pl = "take ?n (drop ?o (rtp_data p))"
  let ?out = "[0x10, (if rtp_maker p then 0x80 else 0) OR sess_pt session] @ be_bytes 2 (sess_seq session) @
      be_bytes 4 (rtp_timestamp p) @ ?pl"
  have b: "0 \<le> rtp_payloadOffset p" "0 \<le> rtp_payloadSize p" "?o + ?n \<le> length (rtp_data p)"
      "size_t (rtp_payloadSize p) = ?n" "12 + rtp_payloadSize p \<le> int (length (rtp_data p))"
    using p assms(3) by (auto simp: rtp_bounds_ok_def)
  have lpl: "length ?pl = ?n" using b(3) by simp
  have rd: "(if rtp_payloadOffset p < 0 then Inl OutOfBounds
      else rd_bytes (rtp_data p) ?o (size_t (rtp_payloadSize p))) = Inr ?pl"
    using b by simp
  have len: "length mem = length ?out" "8 + rtp_payloadSize p = int (length ?out)"
    unfolding length_append lpl using mem b(2) by simp_all
  have "RTPPacket_Serialize mem p session =
      bindr (wr_bytes mem 0 ?out) (\<lambda>buffer. Inr (buffer, 8 + rtp_payloadSize p))"
    unfolding RTPPacket_Serialize_def Let_def rd bindr_Inr
    by (simp add: write_byte be16.wr_eq be32.wr_eq buffer_simps del: wr_bytes_ok)
  also have "\<dots> = Inr (?out, int (length ?out))" unfolding len(2) using len(1) by (simp add: wr_bytes_def)
  finally have "RTPPacket_Serialize mem p session = Inr (?out, int (length ?out))" .
  moreover have "int (length (rtp_data p)) < 2 ^ 31" using assms(3) by simp
  then have "int (length ?out) < 2 ^ 31" using len(2) b(5) by linarith
  then have "RTPPacket_Parse q ?out (int (length ?out)) = Inr (q\<lparr>rtp_data := ?out, rtp_size := int (length ?out)\<rparr>, True)" for q
    by (subst RTPPacket_Parse_unfold) simp_all
  ultimately show ?thesis by blast
qed

theorem rtp_serialize_layout_witness:
  "\<exists>out. RTPPacket_Serialize (replicate 10 0xff)
      (zero_rtp\<lparr>rtp_payloadOffset := 12, rtp_payloadSize := 2, rtp_size := 14, rtp_data := replicate 14 9\<rparr>)
      \<lparr>sess_ssrc = 42, sess_seq = 3, sess_pt = 96\<rparr> = Inr (out, int (length out)) \<and> take 2 out = [0x10, 96]"
  using rtp_serialize_layout [of "zero_rtp\<lparr>rtp_payloadOffset := 12, rtp_payloadSize := 2, rtp_size := 14,
      rtp_data := replicate 14 9\<rparr>" "replicate 10 0xff" "\<lparr>sess_ssrc = 42, sess_seq = 3, sess_pt = 96\<rparr>"]
  by (auto simp: rtp_bounds_ok_def zero_rtp_def)

text \<open>The extended sequence number is the cycle count times 65536 plus the sequence number.\<close>

lemma unat_ExtSeqNum: "unat (ExtSeqNum p) = unat (rtp_seqCycle p) * 65536 + unat (rtp_seqNum p)"
proof -
  have "ExtSeqNum p = push_bit 16 (ucast (rtp_seqCycle p)) + ucast (rtp_seqNum p)"
    unfolding ExtSeqNum_def
    by (rule disjunctive_add [symmetric]) (auto simp: bit_simps dest: bit_imp_le_length)
  also have "\<dots> = word_of_nat (unat (rtp_seqCycle p) * 65536 + unat (rtp_seqNum p))"
    by (simp add: push_bit_eq_mult mult.commute)
  finally have "ExtSeqNum p = word_of_nat (unat (rtp_seqCycle p) * 65536 + unat (rtp_seqNum p))" .
  moreover have "unat (rtp_seqCycle p) * 65536 + unat (rtp_seqNum p) < 2 ^ 32"
    using unsigned_less [of "rtp_seqCycle p", where ?'a = nat] unsigned_less [of "rtp_seqNum p", where ?'a = nat]
    by simp
  ultimately show ?thesis by (simp only: unat_of_nat) simp
qed

end
