(* ===== verification/Session_Manager.thy ===== *)
theory Session_Manager
  imports Rtcp_Feedback Rtp_Packet
begin

text \<open>
  The RTP session manager (\<open>rtp_session_manager.h\<close>, \<open>rtp_session_manager.cpp\<close>): the negotiated
  header extensions, and the incoming session, which answers each packet that carries a
  transport-wide number with a feedback packet. The manager reaches its peer connection
  through a \<open>weak_ptr\<close>; the result of its \<open>lock\<close> is the argument \<open>alive\<close>, and the datagram
  given to \<open>PeerConnection::sendData\<close> is a result. The clock \<open>get_time_utc_us\<close> is the argument
  \<open>now\<close>, the fresh block of \<open>malloc\<close> is \<open>mem\<close>, indeterminate members are \<open>fbc0\<close> and \<open>junk\<close>.
  The outgoing session has no state and no operations.
\<close>

unbundle bit_operations_syntax

datatype RTPExtensionType = ExtUnknown | ExtTransportCC

record RTPSessionManager =
  sm_extMap :: "(byte, RTPExtensionType) std_map"
  sm_lastRRMS :: u64

definition RTPSessionManager_new :: "u64 \<Rightarrow> RTPSessionManager" where
  "RTPSessionManager_new now = \<lparr>sm_extMap = [], sm_lastRRMS = now\<rparr>"

definition transport_cc_uri :: string where
  "transport_cc_uri = ''http://www.ietf.org/id/draft-holmer-rmcat-transport-wide-cc-extensions-01''"

definition SetExtension :: "RTPSessionManager \<Rightarrow> byte \<Rightarrow> string \<Rightarrow> RTPSessionManager \<times> bool" where
  "SetExtension self i extUri =
     (if extUri = transport_cc_uri
      then (self\<lparr>sm_extMap := map_set i ExtTransportCC (sm_extMap self)\<rparr>, True)
      else (self, False))"

fun GetExtensionId_loop :: "(byte, RTPExtensionType) std_map \<Rightarrow> RTPExtensionType \<Rightarrow> byte option" where
  "GetExtensionId_loop [] t = None"
| "GetExtensionId_loop (it # m) t = (if snd it = t then Some (fst it) else GetExtensionId_loop m t)"

definition GetExtensionId :: "RTPSessionManager \<Rightarrow> RTPExtensionType \<Rightarrow> byte option" where
  "GetExtensionId self t = GetExtensionId_loop (sm_extMap self) t"

text \<open>\<open>OnRTCP\<close>: the packet is serialised in any case and sent if the connection is alive.\<close>

definition OnRTCP :: "bytes \<Rightarrow> bool \<Rightarrow> RTCPRTPFeedbackPacket \<Rightarrow> (bytes \<times> int) option res" where
  "OnRTCP mem alive rtcp =
     bindr (RTCPRTPFeedbackPacket_Serialize mem rtcp) (\<lambda>(data, sz).
     Inr (if alive then Some (data, sz) else None))"

definition IncomingSession_AddPacket ::
  "bytes \<Rightarrow> byte \<Rightarrow> u32 \<Rightarrow> bool \<Rightarrow> u64 \<Rightarrow> RTPSessionManager \<Rightarrow> RTPPacket \<Rightarrow> (bytes \<times> int) option res" where
  "IncomingSession_AddPacket mem fbc0 junk alive now manager pkt =
     (let field = TransportCCFeedBack_new fbc0 in
      case GetExtensionId manager ExtTransportCC of
        None \<Rightarrow> Inr None
      | Some tccId \<Rightarrow>
          bindr (GetTransportCCNum pkt tccId) (\<lambda>num.
          case num of
            None \<Rightarrow> Inr None
          | Some tccNum \<Rightarrow>
              let field = InsertPacket field (ucast tccNum) now;
                  packet = RTCPRTPFeedbackPacket_default junk;
                  packet = Feedback_SetSSRC packet (rtp_ssrc pkt);
                  packet = SetField packet (TransportCC field) in
              OnRTCP mem alive packet))"

text \<open>The entry points for received packets; an RTCP packet changes nothing yet.\<close>

definition OnRecvRTP ::
  "bytes \<Rightarrow> byte \<Rightarrow> u32 \<Rightarrow> bool \<Rightarrow> u64 \<Rightarrow> RTPSessionManager \<Rightarrow> RTPPacket \<Rightarrow> (bytes \<times> int) option res" where
  "OnRecvRTP mem fbc0 junk alive now self pkt = IncomingSession_AddPacket mem fbc0 junk alive now self pkt"

definition OnRecvRTCP :: "RTPSessionManager \<Rightarrow> RTCPPacketInterface \<Rightarrow> RTPSessionManager" where
  "OnRecvRTCP self rtcp = (if rtcp_Type rtcp = SenderReport then self else self)"

section \<open>Negotiated extensions\<close>

fun SetExtensions :: "RTPSessionManager \<Rightarrow> (byte \<times> string) list \<Rightarrow> RTPSessionManager \<times> bool list" where
  "SetExtensions self [] = (self, [])"
| "SetExtensions self ((i, uri) # es) =
     (let (self, ok) = SetExtension self i uri; (self, oks) = SetExtensions self es in (self, ok # oks))"

definition ext_map_ok :: "RTPSessionManager \<Rightarrow> bool" where
  "ext_map_ok self \<longleftrightarrow> map_sorted (sm_extMap self) \<and> snd ` set (sm_extMap self) \<subseteq> {ExtTransportCC}"

lemma snd_set_map_set: "snd ` set (map_set k v m) \<subseteq> insert v (snd ` set m)"
  by (induction k v m rule: map_set.induct) auto

lemma ext_map_ok_new [simp]: "ext_map_ok (RTPSessionManager_new now)"
  by (simp add: ext_map_ok_def RTPSessionManager_new_def)

lemma ext_map_ok_Set: "ext_map_ok self \<Longrightarrow> ext_map_ok (fst (SetExtension self i uri))"
  using snd_set_map_set [of i ExtTransportCC "sm_extMap self"]
  by (auto simp: ext_map_ok_def SetExtension_def map_sorted_set)

lemma SetExtensions_keys:
  "ext_map_ok self \<Longrightarrow> ext_map_ok (fst (SetExtensions self es)) \<and>
   fst ` set (sm_extMap (fst (SetExtensions self es))) =
     fst ` set (sm_extMap self) \<union> {i. (i, transport_cc_uri) \<in> set es}"
proof (induction es arbitrary: self)
  case (Cons e es)
  obtain i uri where e: "e = (i, uri)" by (cases e)
  let ?s = "fst (SetExtension self i uri)"
  have "ext_map_ok ?s" using Cons.prems by (rule ext_map_ok_Set)
  moreover have "fst ` set (sm_extMap ?s) = fst ` set (sm_extMap self) \<union> (if uri = transport_cc_uri then {i} else {})"
    by (simp add: SetExtension_def)
  moreover have "fst (SetExtensions self (e # es)) = fst (SetExtensions ?s es)"
    by (simp add: e Let_def split: prod.splits)
  ultimately show ?case using Cons.IH [of ?s] by (auto simp: e)
qed simp

lemma GetExtensionId_least:
  "map_sorted m \<Longrightarrow> snd ` set m \<subseteq> {t} \<Longrightarrow>
   GetExtensionId_loop m t = (if m = [] then None else Some (Min (fst ` set m)))"
proof (induction m)
  case (Cons e m)
  then have "Min (insert (fst e) (fst ` set m)) = fst e"
    by (intro Min_eqI) (auto intro: less_imp_le)
  then show ?case using Cons.prems by simp
qed simp

lemma GetExtensionId_negotiated:
  "GetExtensionId (fst (SetExtensions (RTPSessionManager_new now) es)) ExtTransportCC =
     (let ids = {i. (i, transport_cc_uri) \<in> set es} in if ids = {} then None else Some (Min ids))"
proof -
  let ?s = "fst (SetExtensions (RTPSessionManager_new now) es)"
  have "sm_extMap (RTPSessionManager_new now) = []" by (simp add: RTPSessionManager_new_def)
  then have k: "ext_map_ok ?s" "fst ` set (sm_extMap ?s) = {i. (i, transport_cc_uri) \<in> set es}"
    using SetExtensions_keys [OF ext_map_ok_new, of now es] by auto
  then have "sm_extMap ?s = [] \<longleftrightarrow> {i. (i, transport_cc_uri) \<in> set es} = {}"
    by (metis image_is_empty set_empty)
  then show ?thesis
    using GetExtensionId_least [of "sm_extMap ?s" ExtTransportCC] k by (simp add: GetExtensionId_def ext_map_ok_def Let_def)
qed

lemma SetExtensions_append: "fst (SetExtensions self (xs @ ys)) = fst (SetExtensions (fst (SetExtensions self xs)) ys)"
  by (induction xs arbitrary: self) (auto simp: Let_def case_prod_beta)

section \<open>Properties\<close>

text \<open>
  After any sequence of offered extensions, the identifier that is looked up for
  transport-wide numbers is the least one offered with its URI, and there is one exactly if
  the URI was offered; \<open>SetExtension\<close> reports exactly those extensions as accepted.
\<close>

theorem extension_lookup:
  "GetExtensionId (fst (SetExtensions (RTPSessionManager_new now) es)) ExtTransportCC =
     (let ids = {i. (i, transport_cc_uri) \<in> set es} in if ids = {} then None else Some (Min ids)) \<and>
   snd (SetExtensions (RTPSessionManager_new now) es) = map (\<lambda>(i, uri). uri = transport_cc_uri) es"
proof
  have "snd (SetExtensions self es) = map (\<lambda>(i, uri). uri = transport_cc_uri) es" for self
    by (induction es arbitrary: self) (auto simp: Let_def SetExtension_def case_prod_beta)
  then show "snd (SetExtensions (RTPSessionManager_new now) es) = map (\<lambda>(i, uri). uri = transport_cc_uri) es" .
qed (rule GetExtensionId_negotiated)

text \<open>The feedback packet for one arrival.\<close>

definition feedback_for :: "byte \<Rightarrow> u32 \<Rightarrow> u16 \<Rightarrow> u64 \<Rightarrow> RTCPRTPFeedbackPacket" where
  "feedback_for fbc0 ssrc n now = \<lparr>fb_field = Some (TransportCC (InsertPacket (TransportCCFeedBack_new fbc0) (ucast n) now)), fb_ssrc = ssrc\<rparr>"

lemma feedback_for_ready: "even_window now \<Longrightarrow> feedback_ready (feedback_for fbc0 ssrc n now)"
  by (simp add: feedback_ready_def feedback_for_def InsertPacket_def TransportCCFeedBack_new_def)

lemma feedback_for_bytes:
  assumes "even_window now"
  shows "length (enc_fb (feedback_for fbc0 ssrc n now)) = 24"
    and "take 16 (enc_fb (feedback_for fbc0 ssrc n now)) = [0x8F, 205, 0, 5, 0, 0, 0, 0] @ be_bytes 4 ssrc @ be_bytes 2 n @ [0, 1]"
proof -
  have l: "length (enc_single (ucast n, now)) = 12" using assms by (intro length_enc_single) simp
  have b: "feedback_body (the (fb_field (feedback_for fbc0 ssrc n now))) = enc_single (ucast n, now)"
    by (simp add: feedback_body_def feedback_for_def InsertPacket_def TransportCCFeedBack_new_def)
  show "length (enc_fb (feedback_for fbc0 ssrc n now)) = 24"
    unfolding enc_fb_def enc_feedback_def b by (simp add: l)
  have nz: "uint now \<noteq> 0" using assms by (simp add: even_window_def uint_0_iff)
  have "take 4 (enc_single (ucast n, now)) = be_bytes 2 n @ [0, 1]"
  proof -
    have "ucast (ucast n :: u32) = n" by (rule bit_word_eqI) (auto simp: bit_simps dest: bit_imp_le_length)
    then show ?thesis by (simp add: enc_single_def Let_def enc_tcc_def be_bytes_unfold(2) del: One_nat_def)
  qed
  then show "take 16 (enc_fb (feedback_for fbc0 ssrc n now)) = [0x8F, 205, 0, 5, 0, 0, 0, 0] @ be_bytes 4 ssrc @ be_bytes 2 n @ [0, 1]"
    unfolding enc_fb_def enc_feedback_def b
    by (simp add: l feedback_for_def enc_header_def header_byte0_def rtcp_types be_bytes_unfold)
qed

lemma AddPacket_eq:
  assumes "GetExtensionId manager ExtTransportCC = Some i" "GetTransportCCNum pkt i = Inr (Some n)"
  shows "IncomingSession_AddPacket mem fbc0 junk alive now manager pkt = OnRTCP mem alive (feedback_for fbc0 (rtp_ssrc pkt) n now)"
  using assms
  by (simp add: IncomingSession_AddPacket_def feedback_for_def Let_def SetField_def Feedback_SetSSRC_def RTCPRTPFeedbackPacket_default_def)

lemma odd_window_overflow:
  assumes "length mem = 1200" "odd (uint now div tcc_window)"
  shows "OnRTCP mem alive (feedback_for fbc0 ssrc n now) = Inl SignedOverflow"
proof -
  have "TransportCCFeedBack_Serialize (InsertPacket (TransportCCFeedBack_new fbc0) (ucast n) now) data 12 = Inl SignedOverflow"
    if "length data = 1200" for data
    by (rule serialize_odd_window [OF _ assms(2)])
      (use that in \<open>simp_all add: InsertPacket_def TransportCCFeedBack_new_def\<close>)
  then show ?thesis
    using assms(1) by (simp add: OnRTCP_def RTCPRTPFeedbackPacket_Serialize_def feedback_for_def be32.wr_in_range rtcp_sizes)
qed

text \<open>
  C16. Every packet that carries a transport-wide number, once the extension is negotiated,
  is answered at once: for an arrival time in an even window the peer connection is given a
  datagram of 24 bytes, classified as RTCP, that starts with the feedback header, the zero
  sender, the packet's source and its number with a count of one, whatever the allocated
  block and the indeterminate members contained. In an odd window the computation overflows.
\<close>

theorem transport_feedback_sent:
  assumes "GetExtensionId manager ExtTransportCC = Some i" and "GetTransportCCNum pkt i = Inr (Some n)"
    and "length mem = 1200"
  shows "(even_window now \<longrightarrow> (\<exists>data. OnRecvRTP mem fbc0 junk alive now manager pkt = Inr (if alive then Some (data, 24) else None) \<and>
      take 16 data = [0x8F, 205, 0, 5, 0, 0, 0, 0] @ be_bytes 4 (rtp_ssrc pkt) @ be_bytes 2 n @ [0, 1] \<and>
      IsRTCP (take 24 data) 24 = Inr True)) \<and>
    (odd (uint now div tcc_window) \<longrightarrow> OnRecvRTP mem fbc0 junk alive now manager pkt = Inl SignedOverflow)"
proof (intro conjI impI)
  let ?p = "feedback_for fbc0 (rtp_ssrc pkt) n now"
  assume w: "even_window now"
  note ok = feedback_for_ready [OF w, of fbc0 "rtp_ssrc pkt" n] and b = feedback_for_bytes [OF w, of fbc0 "rtp_ssrc pkt" n]
  obtain rest where ser: "RTCPRTPFeedbackPacket_Serialize mem ?p = Inr (enc_fb ?p @ rest, 24)"
    using fb.ser_enc [OF ok assms(3)] b(1) by auto
  have "IsRTCP (take 24 (enc_fb ?p @ rest)) 24 = Inr True" using fb.is_rtcp [OF ok, of "[]"] b(1) by simp
  with ser b show "\<exists>data. OnRecvRTP mem fbc0 junk alive now manager pkt = Inr (if alive then Some (data, 24) else None) \<and>
      take 16 data = [0x8F, 205, 0, 5, 0, 0, 0, 0] @ be_bytes 4 (rtp_ssrc pkt) @ be_bytes 2 n @ [0, 1] \<and>
      IsRTCP (take 24 data) 24 = Inr True"
    by (intro exI [of _ "enc_fb ?p @ rest"]) (simp add: OnRecvRTP_def AddPacket_eq [OF assms(1,2)] OnRTCP_def)
next
  assume "odd (uint now div tcc_window)"
  then show "OnRecvRTP mem fbc0 junk alive now manager pkt = Inl SignedOverflow"
    by (simp add: OnRecvRTP_def AddPacket_eq [OF assms(1,2)] odd_window_overflow [OF assms(3)])
qed

theorem transport_feedback_sent_witness:
  "\<exists>data. OnRecvRTP (replicate 1200 0xCC) 0 0 True 1000 (fst (SetExtensions (RTPSessionManager_new 0) [(3, transport_cc_uri)]))
     (zero_rtp\<lparr>rtp_ssrc := 42, rtp_data := [0, 7], rtp_exts := [3 \<mapsto> \<lparr>ext_id = 3, ext_length = 2, ext_data = 0\<rparr>]\<rparr>) = Inr (Some (data, 24)) \<and>
     take 16 data = [0x8F, 205, 0, 5, 0, 0, 0, 0, 0, 0, 0, 42, 0, 7, 0, 1]"
proof -
  let ?m = "fst (SetExtensions (RTPSessionManager_new 0) [(3, transport_cc_uri)])"
  let ?p = "zero_rtp\<lparr>rtp_ssrc := 42, rtp_data := [0, 7], rtp_exts := [3 \<mapsto> \<lparr>ext_id = 3, ext_length = 2, ext_data = 0\<rparr>]\<rparr>"
  have "GetExtensionId ?m ExtTransportCC = Some 3"
    by (simp add: SetExtension_def RTPSessionManager_new_def GetExtensionId_def)
  moreover have "GetTransportCCNum ?p 3 = Inr (Some 7)" by (simp add: GetTransportCCNum_def be16.rd_in_range be_word_def)
  moreover have "even_window 1000" by (simp add: even_window_def tcc_window_def)
  ultimately show ?thesis
    using transport_feedback_sent [of ?m 3 ?p 7 "replicate 1200 0xCC" 1000 0 0 True] by (auto simp: be_bytes_unfold)
qed

end
