(* ===== verification/Media_Stream.thy ===== *)
theory Media_Stream
  imports Rtp_Packet "HOL-Library.AList" "HOL-Library.Multiset"
begin

text \<open>
  Media streams (\<open>media_stream.h\<close>, \<open>media_stream.cpp\<close>): a table of named sinks and the source
  identifiers. A sink is held by a \<open>weak_ptr\<close>: the object's number, which \<open>lock\<close> turns into
  the object if it is alive. \<open>sinks_\<close> is a hash table; it is kept in the order of insertion
  here and the facts below do not depend on the order.
\<close>

record MediaStream =
  ms_sinks :: "(string \<times> nat) list"
  ms_audioSSRC :: u32
  ms_videoSSRC :: u32

definition MediaStream_new :: MediaStream where
  "MediaStream_new = \<lparr>ms_sinks = [], ms_audioSSRC = 0, ms_videoSSRC = 0\<rparr>"

definition AddSink :: "MediaStream \<Rightarrow> string \<Rightarrow> nat \<Rightarrow> MediaStream" where
  "AddSink self name sink = self\<lparr>ms_sinks := AList.update name sink (ms_sinks self)\<rparr>"

definition RemoveSink :: "MediaStream \<Rightarrow> string \<Rightarrow> MediaStream" where
  "RemoveSink self name = self\<lparr>ms_sinks := AList.delete name (ms_sinks self)\<rparr>"

text \<open>
  \<open>OnRTP\<close> over the state \<open>w\<close>: \<open>alive\<close> is the \<open>lock\<close> of a sink and \<open>OnMediaData\<close> its virtual
  function.
\<close>

fun OnRTP_loop :: "('w \<Rightarrow> nat \<Rightarrow> bool) \<Rightarrow> (nat \<Rightarrow> 'p \<Rightarrow> 'w \<Rightarrow> 'w res) \<Rightarrow> 'p \<Rightarrow> (string \<times> nat) list \<Rightarrow> 'w \<Rightarrow> 'w res" where
  "OnRTP_loop alive OnMediaData pkt [] w = Inr w"
| "OnRTP_loop alive OnMediaData pkt ((name, sink) # it) w =
     bindr (if alive w sink then OnMediaData sink pkt w else Inr w) (\<lambda>w.
     OnRTP_loop alive OnMediaData pkt it w)"

definition MediaStream_OnRTP ::
  "('w \<Rightarrow> nat \<Rightarrow> bool) \<Rightarrow> (nat \<Rightarrow> 'p \<Rightarrow> 'w \<Rightarrow> 'w res) \<Rightarrow> MediaStream \<Rightarrow> 'p \<Rightarrow> 'w \<Rightarrow> 'w res" where
  "MediaStream_OnRTP alive OnMediaData self pkt w = OnRTP_loop alive OnMediaData pkt (ms_sinks self) w"

section \<open>The table of sinks\<close>

definition stream_ok :: "MediaStream \<Rightarrow> bool" where
  "stream_ok self \<longleftrightarrow> distinct (map fst (ms_sinks self))"

lemma stream_ok_new [simp]: "stream_ok MediaStream_new"
  by (simp add: stream_ok_def MediaStream_new_def)

lemma stream_ok_AddSink [simp]: "stream_ok self \<Longrightarrow> stream_ok (AddSink self name sink)"
  by (simp add: stream_ok_def AddSink_def distinct_update)

lemma stream_ok_RemoveSink [simp]: "stream_ok self \<Longrightarrow> stream_ok (RemoveSink self name)"
  by (simp add: stream_ok_def RemoveSink_def distinct_delete)

lemma sinks_AddSink: "map_of (ms_sinks (AddSink self name sink)) = (map_of (ms_sinks self))(name \<mapsto> sink)"
  by (simp add: AddSink_def update_conv')

lemma sinks_RemoveSink: "map_of (ms_sinks (RemoveSink self name)) = (map_of (ms_sinks self))(name := None)"
  by (simp add: RemoveSink_def delete_conv')

interpretation sinks: keyed_table stream_ok "\<lambda>s. map_of (ms_sinks s)" AddSink RemoveSink
  by unfold_locales (simp_all add: sinks_AddSink sinks_RemoveSink)

end
