(* ===== verification/Crc32.thy ===== *)
theory Crc32
  imports Byte_IO
begin

text \<open>
  The CRC of \<open>crc32.h\<close> that STUN fingerprints use: the table built by the constructor and
  the table-driven loop of \<open>CalculateXORCRC\<close>. The lemmas relate it to the bit-by-bit
  definition of the CRC and show which corruptions it detects.
\<close>

unbundle bit_operations_syntax

record CRC32 =
  table :: "u32 list"

text \<open>One round of the inner loop of the constructor.\<close>

definition crc_round :: "u32 \<Rightarrow> u32" where
  "crc_round c = (if c AND 1 \<noteq> 0 then 0xEDB88320 XOR drop_bit 1 c else drop_bit 1 c)"

primrec crc_rounds :: "nat \<Rightarrow> u32 \<Rightarrow> u32" where
  "crc_rounds 0 c = c"
| "crc_rounds (Suc j) c = crc_rounds j (crc_round c)"

definition CRC32_new :: CRC32 where
  "CRC32_new = \<lparr>table = map (\<lambda>i. crc_rounds 8 (word_of_nat i)) [0..<256]\<rparr>"

definition table_lookup :: "CRC32 \<Rightarrow> nat \<Rightarrow> u32 res" where
  "table_lookup self i = (if i < length (table self) then Inr (table self ! i) else Inl OutOfBounds)"

function CalculateXORCRC_loop :: "CRC32 \<Rightarrow> bytes \<Rightarrow> nat \<Rightarrow> nat \<Rightarrow> u32 \<Rightarrow> u32 res" where
  "CalculateXORCRC_loop self data sz i c =
     (if i < sz
      then bindr (rd8 data i) (\<lambda>d.
           bindr (table_lookup self (unat ((c XOR ucast d) AND 0xFF))) (\<lambda>t.
             CalculateXORCRC_loop self data sz (Suc i) (t XOR drop_bit 8 c)))
      else Inr c)"
  by pat_completeness auto
termination
  by (relation "measure (\<lambda>(self, data, sz, i, c). sz - i)") auto

declare CalculateXORCRC_loop.simps [simp del]

definition CalculateXORCRC :: "CRC32 \<Rightarrow> bytes \<Rightarrow> u32 \<Rightarrow> u32 res" where
  "CalculateXORCRC self data sz =
     (let crc = 0; c = crc XOR 0xFFFFFFFF in
      bindr (CalculateXORCRC_loop self data (unat sz) 0 c) (\<lambda>c.
        let crc = c XOR 0xFFFFFFFF in Inr (crc XOR 0x5354554e)))"

section \<open>The bitwise reference\<close>

text \<open>
  The reference is the CRC-32 of IEEE 802.3, written as in the standard: a register that is
  shifted to the left, the generator $x^{32} + x^{26} + \dots + 1$ with its coefficients in the usual order, the
  bits of each byte from the least significant one, and a reflected and complemented result.
\<close>

definition ieee_generator :: u32 where
  "ieee_generator = foldr (\<lambda>k w. set_bit k w) [26, 23, 22, 16, 12, 11, 10, 8, 7, 5, 4, 2, 1, 0] 0"

definition ieee_step :: "u32 \<Rightarrow> bool \<Rightarrow> u32" where
  "ieee_step r b = (if bit r 31 \<noteq> b then push_bit 1 r XOR ieee_generator else push_bit 1 r)"

definition byte_bits_lsb :: "byte \<Rightarrow> bool list" where
  "byte_bits_lsb b = map (bit b) [0..<8]"

definition reflect :: "u32 \<Rightarrow> u32" where
  "reflect w = horner_sum of_bool 2 (map (\<lambda>k. bit w (31 - k)) [0..<32])"

definition crc32_ref :: "bytes \<Rightarrow> u32" where
  "crc32_ref bs = NOT (reflect (foldl ieee_step (NOT 0) (concat (map byte_bits_lsb bs))))"

text \<open>The same register reflected: every byte is added to it, then eight rounds.\<close>

definition crc_byte :: "u32 \<Rightarrow> byte \<Rightarrow> u32" where
  "crc_byte c b = crc_rounds 8 (c XOR ucast b)"

lemma word_odd_and: "(c :: u32) AND 1 \<noteq> 0 \<longleftrightarrow> bit c 0"
  using and_exp_eq_0_iff_not_bit [of c 0] by simp

lemma crc_round_xor: "crc_round (x XOR y) = crc_round x XOR crc_round y"
  unfolding crc_round_def word_odd_and
  by (auto simp: bit_xor_iff drop_bit_xor xor.assoc xor.left_commute)

lemma crc_rounds_xor: "crc_rounds n (x XOR y) = crc_rounds n x XOR crc_rounds n y"
  by (induction n arbitrary: x y) (simp_all add: crc_round_xor)

lemma bit_reflect: "bit (reflect w) k \<longleftrightarrow> k < 32 \<and> bit w (31 - k)"
  by (auto simp: reflect_def bit_horner_sum_bit_iff simp del: upt_rec_numeral)

lemma reflect_generator: "reflect ieee_generator = 0xEDB88320"
  by (simp add: reflect_def ieee_generator_def) code_simp

lemma reflect_xor: "reflect (a XOR b) = reflect a XOR reflect b"
  by (rule bit_word_eqI) (simp add: bit_reflect bit_xor_iff)

lemma reflect_push: "reflect (push_bit 1 r) = drop_bit 1 (reflect r)"
proof (rule bit_word_eqI)
  fix k assume "k < LENGTH(32)"
  show "bit (reflect (push_bit 1 r)) k \<longleftrightarrow> bit (drop_bit 1 (reflect r)) k"
    unfolding bit_reflect bit_push_bit_iff bit_drop_bit_eq comp_def by auto
qed

lemma reflect_step: "reflect (ieee_step r b) = crc_round (reflect r XOR of_bool b)"
proof -
  have "(reflect r XOR of_bool b) AND 1 \<noteq> 0 \<longleftrightarrow> bit r 31 \<noteq> b"
    unfolding word_odd_and by (auto simp: bit_xor_iff bit_reflect)
  moreover have "drop_bit 1 (reflect r XOR of_bool b) = drop_bit 1 (reflect r)"
    by (rule bit_word_eqI) (auto simp: bit_drop_bit_eq bit_xor_iff)
  ultimately show ?thesis
    unfolding crc_round_def ieee_step_def
    by (cases "bit r 31 \<noteq> b") (simp_all only: reflect_xor reflect_push reflect_generator xor.commute if_True if_False not_False_eq_True)
qed

lemma reflect_steps: "reflect (foldl ieee_step r bits) = foldl (\<lambda>c b. crc_round (c XOR of_bool b)) (reflect r) bits"
  by (induction bits arbitrary: r) (simp_all add: reflect_step)

text \<open>Adding a byte and running eight rounds is adding its bits one by one.\<close>

lemma rounds_by_bits:
  "crc_rounds n (c XOR v) = foldl (\<lambda>c b. crc_round (c XOR of_bool b)) c (map (bit v) [0..<n]) XOR drop_bit n v"
proof (induction n arbitrary: c v)
  case (Suc n)
  let ?c = "crc_round (c XOR of_bool (bit v 0))"
  have v: "v = of_bool (bit v 0) XOR (v AND NOT 1)"
    by (rule bit_word_eqI) (auto simp: bit_simps)
  have "crc_round (v AND NOT 1) = drop_bit 1 v"
  proof -
    have "(v AND NOT 1) AND 1 = 0" by (simp add: and.assoc)
    moreover have "drop_bit 1 (v AND NOT 1) = drop_bit 1 v"
      by (rule bit_word_eqI) (simp only: bit_drop_bit_eq comp_def bit_and_iff bit_not_iff bit_1_iff, auto dest: bit_imp_le_length)
    ultimately show ?thesis by (simp add: crc_round_def)
  qed
  moreover have "c XOR v = (c XOR of_bool (bit v 0)) XOR (v AND NOT 1)" by (subst (1) v) (rule xor.assoc [symmetric])
  ultimately have "crc_round (c XOR v) = ?c XOR drop_bit 1 v" by (simp only: crc_round_xor)
  then have "crc_rounds (Suc n) (c XOR v) = crc_rounds n (?c XOR drop_bit 1 v)" by simp
  also have "\<dots> = foldl (\<lambda>c b. crc_round (c XOR of_bool b)) ?c (map (bit (drop_bit 1 v)) [0..<n]) XOR drop_bit n (drop_bit 1 v)"
    by (rule Suc.IH)
  also have "map (bit (drop_bit 1 v)) [0..<n] = map (bit v) [1..<Suc n]"
    by (simp add: bit_drop_bit_eq map_Suc_upt [symmetric] del: upt_Suc)
  finally show ?case by (simp add: upt_conv_Cons drop_bit_drop_bit del: upt_Suc)
qed simp

lemma crc_byte_bits: "crc_byte c b = foldl (\<lambda>c b. crc_round (c XOR of_bool b)) c (byte_bits_lsb b)"
proof -
  have "drop_bit 8 (ucast b :: u32) = 0" by (rule bit_word_eqI) (auto simp: bit_simps dest: bit_imp_le_length)
  moreover have "map (bit (ucast b :: u32)) [0..<8] = byte_bits_lsb b"
    by (auto simp: byte_bits_lsb_def bit_simps simp del: upt_rec_numeral)
  ultimately show ?thesis unfolding crc_byte_def rounds_by_bits by simp
qed

lemma crc32_ref_rounds: "crc32_ref bs = NOT (foldl crc_byte (NOT 0) bs)"
proof -
  have "reflect (NOT 0) = NOT 0" by (rule bit_word_eqI) (simp add: bit_reflect bit_simps)
  moreover have "foldl (\<lambda>c b. crc_round (c XOR of_bool b)) c (concat (map byte_bits_lsb bs)) = foldl crc_byte c bs" for c
    by (induction bs arbitrary: c) (simp_all add: crc_byte_bits)
  ultimately show ?thesis by (simp add: crc32_ref_def reflect_steps)
qed

lemma crc_rounds_add: "crc_rounds (m + n) c = crc_rounds n (crc_rounds m c)"
  by (induction m arbitrary: c) simp_all

lemma crc_rounds_shift: "(\<And>k. k < n \<Longrightarrow> \<not> bit c k) \<Longrightarrow> crc_rounds n c = drop_bit n c"
proof (induction n arbitrary: c)
  case 0
  then show ?case by simp
next
  case (Suc n)
  have "crc_round c = drop_bit 1 c"
    using Suc.prems [of 0] by (simp only: crc_round_def word_odd_and) simp
  moreover have "\<not> bit (drop_bit 1 c) k" if "k < n" for k
    using Suc.prems [of "Suc k"] that by (simp add: bit_drop_bit_eq)
  ultimately show ?case using Suc.IH [of "drop_bit 1 c"] by (simp add: ac_simps)
qed

lemma table_step:
  "crc_rounds 8 ((c XOR ucast (d :: byte)) AND 0xFF) XOR drop_bit 8 c = crc_byte c d"
proof -
  let ?x = "c XOR ucast d :: u32"
  have m: "(0xFF :: u32) = mask 8" by (simp add: mask_eq_exp_minus_1)
  have split: "?x = (?x AND 0xFF) XOR push_bit 8 (drop_bit 8 c)"
    unfolding m by (rule bit_word_eqI) (auto simp: bit_simps dest: bit_imp_le_length)
  have top: "n < 24" if "bit c (8 + n)" for n
    using bit_imp_le_length [OF that] by simp
  have "crc_rounds 8 (push_bit 8 (drop_bit 8 c)) = drop_bit 8 c"
    by (subst crc_rounds_shift) (auto simp: bit_simps intro!: bit_word_eqI dest: top)
  then show ?thesis
    unfolding crc_byte_def by (subst (2) split) (simp add: crc_rounds_xor)
qed

lemma table_lookup_new:
  "table_lookup CRC32_new (unat ((x :: u32) AND 0xFF)) = Inr (crc_rounds 8 (x AND 0xFF))"
proof -
  have "x AND 0xFF \<le> 0xFF" by (rule word_and_le1)
  then have "unat (x AND 0xFF) \<le> 255" by (simp add: word_le_nat_alt)
  then show ?thesis by (simp add: table_lookup_def CRC32_new_def)
qed

lemma CalculateXORCRC_loop_eq:
  "sz \<le> length data \<Longrightarrow> i \<le> sz \<Longrightarrow>
   CalculateXORCRC_loop CRC32_new data sz i c = Inr (foldl crc_byte c (take (sz - i) (drop i data)))"
proof (induction "sz - i" arbitrary: i c)
  case 0
  then show ?case by (subst CalculateXORCRC_loop.simps) simp
next
  case (Suc n)
  then have i: "i < sz" "i < length data" by auto
  have "take (sz - i) (drop i data) = data ! i # take (sz - Suc i) (drop (Suc i) data)"
    using i by (simp add: Cons_nth_drop_Suc [symmetric] take_Cons')
  then show ?case
    using Suc.hyps(1) [of "Suc i"] Suc.hyps(2) Suc.prems i
    by (subst CalculateXORCRC_loop.simps) (simp add: table_lookup_new table_step)
qed

lemma CalculateXORCRC_eq:
  assumes "unat sz \<le> length data"
  shows "CalculateXORCRC CRC32_new data sz = Inr (crc32_ref (take (unat sz) data) XOR 0x5354554e)"
proof -
  have neg1: "(0xFFFFFFFF :: u32) = - 1" by simp
  have "c XOR (0xFFFFFFFF :: u32) = NOT c" for c
    unfolding neg1 by (simp add: bit.xor_one_right)
  then show ?thesis
    using CalculateXORCRC_loop_eq [OF assms] by (simp add: CalculateXORCRC_def crc32_ref_rounds Let_def)
qed

section \<open>Error detection\<close>

text \<open>The generator's top coefficient makes a round invertible: no state of the register is lost.\<close>

lemma bit_poly_31: "bit (0xEDB88320 :: u32) 31"
  by simp

lemma crc_round_zero:
  assumes "crc_round c = 0"
  shows "c = 0"
proof (rule bit_word_eqI)
  have b0: "\<not> bit c 0"
  proof
    assume "bit c 0"
    then have "crc_round c = 0xEDB88320 XOR drop_bit 1 c"
      by (simp only: crc_round_def word_odd_and) simp
    moreover have "\<not> bit (drop_bit 1 c) 31"
      using bit_imp_le_length [of c 32] by (auto simp: bit_drop_bit_eq)
    ultimately have "bit (crc_round c) 31"
      using bit_poly_31 by (simp only: bit_xor_iff) simp
    with assms show False by simp
  qed
  then have d: "drop_bit 1 c = 0"
    using assms by (simp only: crc_round_def word_odd_and) simp
  fix k assume "k < LENGTH(32)"
  have "\<not> bit c (Suc j)" for j
  proof -
    have "\<not> bit (drop_bit 1 c) j" unfolding d by simp
    then show ?thesis by (simp add: bit_drop_bit_eq)
  qed
  with b0 show "bit c k \<longleftrightarrow> bit (0 :: u32) k" by (cases k) auto
qed

lemma crc_rounds_zero: "crc_rounds n c = 0 \<Longrightarrow> c = 0"
  by (induction n arbitrary: c) (auto dest: crc_round_zero)

lemma crc_rounds_inj: "crc_rounds n x = crc_rounds n y \<Longrightarrow> x = y"
  using crc_rounds_zero [of n "x XOR y"] by (simp add: crc_rounds_xor)

lemma crc_bytes_inj: "foldl crc_byte x bs = foldl crc_byte y bs \<Longrightarrow> x = y"
proof (induction bs arbitrary: x y)
  case Nil
  then show ?case by simp
next
  case (Cons b bs)
  then have "crc_byte x b = crc_byte y b" by simp
  then have "x XOR ucast b = y XOR ucast b" unfolding crc_byte_def by (rule crc_rounds_inj)
  then show ?case by simp
qed

text \<open>Up to four bytes enter the register as one little-endian word.\<close>

lemma crc_word:
  "length bs \<le> 4 \<Longrightarrow> foldl crc_byte c bs = crc_rounds (8 * length bs) (c XOR be_word (rev bs))"
proof (induction bs rule: rev_induct)
  case Nil
  then show ?case by simp
next
  case (snoc b bs)
  let ?n = "8 * length bs"
  let ?b = "ucast b :: u32"
  have n: "?n + 8 \<le> 32" using snoc.prems by simp
  have low: "\<not> bit (push_bit ?n ?b) k" if "k < ?n" for k
    using that by (simp add: bit_simps)
  have "drop_bit ?n (push_bit ?n ?b) = ?b"
    by (rule bit_word_eqI) (use n in \<open>auto simp: bit_simps dest: bit_imp_le_length\<close>)
  with crc_rounds_shift [of ?n, OF low] have b: "crc_rounds ?n (push_bit ?n ?b) = ?b" by simp
  have "push_bit ?n ?b AND be_word (rev bs) = 0"
    by (rule bit_word_eqI) (auto simp: bit_simps bit_be_word)
  then have w: "be_word (rev (bs @ [b])) = be_word (rev bs) XOR push_bit ?n ?b"
    by (simp add: be_word_Cons disjunctive_xor_eq_or [symmetric] xor.commute)
  have "foldl crc_byte c (bs @ [b]) = crc_rounds 8 (crc_rounds ?n (c XOR be_word (rev bs)) XOR ?b)"
    using snoc.IH snoc.prems by (simp add: crc_byte_def [of _ b])
  also have "\<dots> = crc_rounds 8 (crc_rounds ?n (c XOR be_word (rev (bs @ [b]))))"
    unfolding w by (simp add: crc_rounds_xor b xor.assoc)
  finally show ?case by (simp add: crc_rounds_add [symmetric] add.commute)
qed

lemma crc_word_detects:
  assumes "length xs = length ys" "length xs \<le> 4" "foldl crc_byte c xs = foldl crc_byte c ys"
  shows "xs = ys"
proof -
  have "c XOR be_word (rev xs) = c XOR be_word (rev ys)"
    using assms by (intro crc_rounds_inj [of "8 * length xs" "c XOR be_word (rev xs)"]) (simp add: crc_word)
  then have "(be_word (rev xs) :: u32) = be_word (rev ys)" by simp
  then have "rev xs = rev ys"
    using assms(1,2) be_bytes_be_word [of "rev xs", where ?'a = 32] be_bytes_be_word [of "rev ys", where ?'a = 32]
    by simp
  then show ?thesis by simp
qed

lemma crc32_ref_burst:
  assumes "length xs = length ys" "length xs \<le> 4" "crc32_ref (pre @ xs @ post) = crc32_ref (pre @ ys @ post)"
  shows "xs = ys"
proof -
  have "foldl crc_byte (foldl crc_byte (NOT 0) pre) xs = foldl crc_byte (foldl crc_byte (NOT 0) pre) ys"
  proof (rule crc_bytes_inj)
    show "foldl crc_byte (foldl crc_byte (foldl crc_byte (NOT 0) pre) xs) post =
        foldl crc_byte (foldl crc_byte (foldl crc_byte (NOT 0) pre) ys) post"
      using assms(3) by (simp add: crc32_ref_rounds)
  qed
  with assms(1,2) show ?thesis by (rule crc_word_detects)
qed

text \<open>
  C19. The table-driven loop computes the CRC-32 of IEEE 802.3 of the first \<open>size\<close> bytes, as
  defined bit by bit with the standard's generator polynomial, exclusive-or'ed with the STUN
  constant, and faults exactly when the buffer is shorter than \<open>size\<close>; table accesses never
  leave the table.
\<close>

theorem crc_table_equals_bitwise:
  "CalculateXORCRC CRC32_new data sz =
     (if unat sz \<le> length data then Inr (crc32_ref (take (unat sz) data) XOR 0x5354554e)
      else Inl OutOfBounds)"
proof (cases "unat sz \<le> length data")
  case False
  have "CalculateXORCRC_loop CRC32_new data (unat sz) i c = Inl OutOfBounds" if "i \<le> length data" for i c
    using that
  proof (induction "length data - i" arbitrary: i c)
    case 0
    with False show ?case by (subst CalculateXORCRC_loop.simps) (simp add: rd8_fault)
  next
    case (Suc n)
    then have "i < length data" "i < unat sz" using False by auto
    then show ?case
      using Suc.hyps(1) [of "Suc i"] Suc.hyps(2)
      by (subst CalculateXORCRC_loop.simps) (simp add: table_lookup_new)
  qed
  with False show ?thesis by (simp add: CalculateXORCRC_def)
qed (simp add: CalculateXORCRC_eq)

text \<open>
  C25. Burst detection: two messages of the same length that differ only inside a window of
  four consecutive bytes (any burst of up to 25 bits, every change of a single byte) have
  different fingerprints.
\<close>

theorem crc_detects_bursts:
  assumes "length xs = length ys" and "length xs \<le> 4" and "xs \<noteq> ys"
    and "unat sz = length pre + length xs + length post"
  shows "CalculateXORCRC CRC32_new (pre @ xs @ post) sz \<noteq> CalculateXORCRC CRC32_new (pre @ ys @ post) sz"
proof
  assume "CalculateXORCRC CRC32_new (pre @ xs @ post) sz = CalculateXORCRC CRC32_new (pre @ ys @ post) sz"
  then have "crc32_ref (pre @ xs @ post) XOR 0x5354554e = crc32_ref (pre @ ys @ post) XOR 0x5354554e"
    using assms by (simp add: CalculateXORCRC_eq)
  then have "crc32_ref (pre @ xs @ post) = crc32_ref (pre @ ys @ post)" by simp
  then show False using assms crc32_ref_burst by blast
qed

theorem crc_detects_bursts_witness:
  "CalculateXORCRC CRC32_new [1, 2, 3, 4] 4 \<noteq> CalculateXORCRC CRC32_new [1, 9, 3, 4] 4"
  using crc_detects_bursts [of "[2]" "[9]" 4 "[1]" "[3, 4]"] by simp

end
