(* ===== verification/Stun_Packet.thy ===== *)
theory Stun_Packet
  imports Byte_IO Crc32 Tools
begin

text \<open>
  STUN messages (\<open>stun_packet.h\<close>, \<open>stun_packet.cpp\<close>): recognition, parsing of the header and
  the attributes, the reply to a binding request and its serialisation with message
  integrity and fingerprint. The two enum members hold the integer the code casts into
  them. OpenSSL's \<open>HMAC\<close> with \<open>EVP_sha1\<close> is the parameter \<open>hmac\<close> (key, message); all the
  code relies on is that it writes 20 bytes. The contents of freshly allocated memory are
  an argument (\<open>mem\<close>), so a result that does not depend on it exposes no uninitialised byte.
\<close>

unbundle bit_operations_syntax

section \<open>Data\<close>

record StunPacket =
  stun_username :: string
  stun_method :: u16
  stun_type :: u16
  stun_transId :: bytes

definition Request :: u16 where "Request = 0"
definition Response :: u16 where "Response = 2"
definition Binding :: u16 where "Binding = 1"
definition Username :: u16 where "Username = 0x0006"
definition MessageIntegrity :: u16 where "MessageIntegrity = 0x0008"

definition MagicCookie :: bytes where "MagicCookie = [0x21, 0x12, 0xA4, 0x42]"
definition MaxStunSize :: nat where "MaxStunSize = 640"
definition StunHeaderSize :: nat where "StunHeaderSize = 20"
definition AttrHeaderSize :: nat where "AttrHeaderSize = 4"
definition HMACSize :: nat where "HMACSize = 20"
definition FingerprintSize :: nat where "FingerprintSize = 4"

lemmas stun_sizes = MaxStunSize_def StunHeaderSize_def AttrHeaderSize_def HMACSize_def FingerprintSize_def

section \<open>Operations\<close>

definition IsStun :: "bytes \<Rightarrow> int \<Rightarrow> bool res" where
  "IsStun data sz =
     orr (andr (eq8 data 0 0x00) (eq8 data 1 0x01))
         (andr (eq8 data 0 0x01) (eq8 data 1 0x01))"

text \<open>The attribute loop; \<open>None\<close> is the null pointer returned for an attribute beyond the end.\<close>

function StunPacket_Parse_loop :: "bytes \<Rightarrow> int \<Rightarrow> nat \<Rightarrow> StunPacket \<Rightarrow> StunPacket option res" where
  "StunPacket_Parse_loop data sz i rv =
     (if int i + 4 < sz
      then bindr (ReadBigEndian 2 data i) (\<lambda>attrType :: u16.
           bindr (ReadBigEndian 2 data (i + 2)) (\<lambda>attrLen :: u16.
           let i1 = i + AttrHeaderSize in
           if int i1 + int (unat attrLen) > sz then Inr None
           else bindr (if attrType = Username
                       then bindr (rd_bytes data i1 (unat attrLen)) (\<lambda>bs. Inr (rv\<lparr>stun_username := to_string bs\<rparr>))
                       else Inr rv) (\<lambda>rv'.
                StunPacket_Parse_loop data sz (i1 + unat (pad32 (ucast attrLen))) rv')))
      else Inr (Some rv))"
  by pat_completeness auto
termination
  by (relation "measure (\<lambda>(data, sz, i, rv). nat (sz - int i))") (auto simp: AttrHeaderSize_def)

declare StunPacket_Parse_loop.simps [simp del]

definition StunPacket_Parse :: "bytes \<Rightarrow> int \<Rightarrow> StunPacket option res" where
  "StunPacket_Parse data sz =
     bindr (ReadBigEndian 2 data 0) (\<lambda>wd :: u16.
     bindr (rd_bytes data 8 12) (\<lambda>transId.
       StunPacket_Parse_loop data sz StunHeaderSize
         \<lparr>stun_username = [], stun_method = wd AND 0xFEEF, stun_type = wd AND 0x0110, stun_transId = transId\<rparr>))"

definition CreateRequest :: "string \<Rightarrow> string \<Rightarrow> string \<Rightarrow> StunPacket option" where
  "CreateRequest localUsername remoteUsername remotePwd = None"

definition MakeResponse :: "StunPacket \<Rightarrow> StunPacket" where
  "MakeResponse self =
     \<lparr>stun_username = stun_username self, stun_method = stun_method self, stun_type = Response, stun_transId = stun_transId self\<rparr>"

definition message_type :: "StunPacket \<Rightarrow> u16" where
  "message_type self = stun_method self OR push_bit 7 (stun_type self AND 2) OR push_bit 4 (stun_type self AND 1)"

text \<open>
  \<open>Serialize\<close> in the order of the code: header, length up to the integrity attribute, that
  attribute over the header, length including the fingerprint, fingerprint.
\<close>

definition StunPacket_Serialize :: "(bytes \<Rightarrow> bytes \<Rightarrow> bytes) \<Rightarrow> bytes \<Rightarrow> StunPacket \<Rightarrow> string \<Rightarrow> (bytes \<times> nat) res" where
  "StunPacket_Serialize hmac mem self pwd =
     bindr (WriteBigEndian 2 mem 0 (message_type self)) (\<lambda>data.
     bindr (wr_bytes data 4 MagicCookie) (\<lambda>data.
     bindr (wr_bytes data 8 (stun_transId self)) (\<lambda>data.
     let attrSize = 0;
         attrSize = attrSize + AttrHeaderSize + HMACSize + AttrHeaderSize + FingerprintSize in
     bindr (WriteBigEndian 2 data 2 (word_of_nat (attrSize - AttrHeaderSize - FingerprintSize) :: u16)) (\<lambda>data.
     let attrSize = attrSize - (AttrHeaderSize + HMACSize + AttrHeaderSize + FingerprintSize) in
     bindr (WriteBigEndian 2 data (attrSize + StunHeaderSize) MessageIntegrity) (\<lambda>data.
     bindr (WriteBigEndian 2 data (attrSize + StunHeaderSize + 2) (word_of_nat HMACSize :: u16)) (\<lambda>data.
     bindr (rd_bytes data 0 (attrSize + StunHeaderSize)) (\<lambda>msg.
     let md = hmac (of_string pwd) msg in
     bindr (wr_bytes data (StunHeaderSize + attrSize + AttrHeaderSize) md) (\<lambda>data.
     if length md \<noteq> HMACSize then Inl AssertFailed else
     let attrSize = attrSize + AttrHeaderSize + HMACSize in
     bindr (WriteBigEndian 2 data 2 (word_of_nat (attrSize + AttrHeaderSize + FingerprintSize) :: u16)) (\<lambda>data.
     bindr (CalculateXORCRC CRC32_new data (word_of_nat (attrSize + StunHeaderSize))) (\<lambda>crc32.
     bindr (WriteBigEndian 2 data (StunHeaderSize + attrSize) (0x8028 :: u16)) (\<lambda>data.
     bindr (WriteBigEndian 2 data (StunHeaderSize + attrSize + 2) (word_of_nat FingerprintSize :: u16)) (\<lambda>data.
     bindr (WriteBigEndian 4 data (StunHeaderSize + attrSize + AttrHeaderSize) crc32) (\<lambda>data.
     let attrSize = attrSize + AttrHeaderSize + FingerprintSize in
       Inr (data, attrSize + StunHeaderSize))))))))))))))"

section \<open>Parsing is memory safe\<close>

lemma StunPacket_Parse_loop_total:
  "sz \<le> int (length data) \<Longrightarrow> \<exists>r. StunPacket_Parse_loop data sz i rv = Inr r"
proof (induction data sz i rv rule: StunPacket_Parse_loop.induct)
  case (1 data sz i rv)
  show ?case
  proof (cases "int i + 4 < sz")
    case True
    then have r: "i + 2 \<le> length data" "i + 2 + 2 \<le> length data" using "1.prems" by auto
    define t :: u16 where "t = be_word (take 2 (drop i data))"
    define l :: u16 where "l = be_word (take 2 (drop (i + 2) data))"
    have rd: "ReadBigEndian 2 data i = Inr t" "ReadBigEndian 2 data (i + 2) = Inr l"
      using r by (simp_all only: be16.rd_in_range t_def l_def)
    let ?i1 = "i + AttrHeaderSize"
    show ?thesis
    proof (cases "int ?i1 + int (unat l) > sz")
      case True
      then show ?thesis using \<open>int i + 4 < sz\<close> by (subst StunPacket_Parse_loop.simps) (simp add: rd)
    next
      case False
      then have "?i1 + unat l \<le> length data" using "1.prems" by linarith
      then have rdu: "rd_bytes data ?i1 (unat l) = Inr (take (unat l) (drop ?i1 data))" by simp
      show ?thesis
        using True False "1.IH" [OF True rd refl] "1.prems"
        by (subst StunPacket_Parse_loop.simps) (auto simp: rd rdu Let_def)
    qed
  next
    case False
    then show ?thesis by (subst StunPacket_Parse_loop.simps) simp
  qed
qed

text \<open>Only the user name of the packet under construction changes in the loop.\<close>

lemma Parse_loop_frame:
  "StunPacket_Parse_loop data sz i rv = Inr (Some q) \<Longrightarrow>
   stun_method q = stun_method rv \<and> stun_type q = stun_type rv \<and> stun_transId q = stun_transId rv"
proof (induction data sz i rv rule: StunPacket_Parse_loop.induct)
  case (1 data sz i rv)
  show ?case
  proof (cases "int i + 4 < sz")
    case True
    then obtain t l where rd: "ReadBigEndian 2 data i = Inr (t :: u16)" "ReadBigEndian 2 data (i + 2) = Inr (l :: u16)"
      using "1.prems" by (subst (asm) StunPacket_Parse_loop.simps) (auto simp: bindr_eq_Inr)
    with True "1.prems" obtain rv' where
      rv': "(if t = Username then bindr (rd_bytes data (i + AttrHeaderSize) (unat l))
              (\<lambda>bs. Inr (rv\<lparr>stun_username := to_string bs\<rparr>)) else Inr rv) = Inr rv'"
      and rest: "\<not> int (i + AttrHeaderSize) + int (unat l) > sz"
        "StunPacket_Parse_loop data sz (i + AttrHeaderSize + unat (pad32 (ucast l))) rv' = Inr (Some q)"
      by (subst (asm) StunPacket_Parse_loop.simps) (auto simp: Let_def bindr_eq_Inr split: if_splits)
    have "stun_method rv' = stun_method rv \<and> stun_type rv' = stun_type rv \<and> stun_transId rv' = stun_transId rv"
      using rv' by (auto simp: bindr_eq_Inr split: if_splits)
    with "1.IH" [OF True rd refl rest(1) rv' rest(2)] show ?thesis by simp
  next
    case False
    with "1.prems" show ?thesis by (subst (asm) StunPacket_Parse_loop.simps) simp
  qed
qed

lemma Parse_transId:
  assumes "StunPacket_Parse data sz = Inr (Some p)"
  shows "rd_bytes data 8 12 = Inr (stun_transId p)" "length (stun_transId p) = 12"
proof -
  have loop: "StunPacket_Parse_loop data sz i rv = Inr (Some q) \<Longrightarrow> stun_transId q = stun_transId rv" for i rv q
    by (drule Parse_loop_frame) simp
  show "rd_bytes data 8 12 = Inr (stun_transId p)"
    using assms by (auto simp: StunPacket_Parse_def bindr_eq_Inr dest!: loop)
  then have "length data \<ge> 20" "stun_transId p = take 12 (drop 8 data)" by (simp_all add: rd_bytes_def split: if_splits)
  then show "length (stun_transId p) = 12" by simp
qed

section \<open>Layout of a serialised message\<close>

definition stun_header :: "u16 \<Rightarrow> u16 \<Rightarrow> bytes \<Rightarrow> bytes" where
  "stun_header mt len tid = be_bytes 2 mt @ be_bytes 2 len @ MagicCookie @ tid"

definition stun_integrity :: "(bytes \<Rightarrow> bytes \<Rightarrow> bytes) \<Rightarrow> StunPacket \<Rightarrow> string \<Rightarrow> bytes" where
  "stun_integrity hmac p pwd =
     be_bytes 2 MessageIntegrity @ be_bytes 2 (20 :: u16) @
     hmac (of_string pwd) (stun_header (message_type p) 24 (stun_transId p))"

definition stun_body :: "(bytes \<Rightarrow> bytes \<Rightarrow> bytes) \<Rightarrow> StunPacket \<Rightarrow> string \<Rightarrow> bytes" where
  "stun_body hmac p pwd = stun_header (message_type p) 32 (stun_transId p) @ stun_integrity hmac p pwd"

definition stun_message :: "(bytes \<Rightarrow> bytes \<Rightarrow> bytes) \<Rightarrow> StunPacket \<Rightarrow> string \<Rightarrow> bytes" where
  "stun_message hmac p pwd =
     stun_body hmac p pwd @ be_bytes 2 (0x8028 :: u16) @ be_bytes 2 (4 :: u16) @
     be_bytes 4 (crc32_ref (stun_body hmac p pwd) XOR 0x5354554e)"

lemma length_MagicCookie [simp]: "length MagicCookie = 4"
  by (simp add: MagicCookie_def)

lemma length_stun_header: "length tid = 12 \<Longrightarrow> length (stun_header mt len tid) = 20"
  by (simp add: stun_header_def)

lemma Serialize_pieces:
  assumes "length m0 = 2" "length m2 = 2" "length m4 = 4" "length m8 = 12" "length m20 = 2"
    "length m22 = 2" "length m24 = 20" "length m44 = 2" "length m46 = 2" "length m48 = 4"
    and tid: "length (stun_transId p) = 12" and mac: "\<And>k m. length (hmac k m) = 20"
  shows "StunPacket_Serialize hmac
      (m0 @ m2 @ m4 @ m8 @ m20 @ m22 @ m24 @ m44 @ m46 @ m48 @ rest) p pwd
    = Inr (stun_message hmac p pwd @ rest, 52)"
proof -
  have crc: "CalculateXORCRC CRC32_new (stun_body hmac p pwd @ z) 44
      = Inr (crc32_ref (stun_body hmac p pwd) XOR 0x5354554e)" for z
    using tid mac by (subst CalculateXORCRC_eq) (simp_all add: stun_body_def stun_integrity_def length_stun_header)
  show ?thesis
    using assms crc [of "m44 @ m46 @ m48 @ rest"]
    by (simp add: StunPacket_Serialize_def be16.wr_eq be32.wr_eq stun_sizes wr_bytes_skip wr_bytes_here
        Let_def stun_header_def stun_integrity_def stun_body_def stun_message_def del: wr_bytes_ok)
qed

lemma Serialize_eq:
  assumes len: "length mem = MaxStunSize" and "length (stun_transId p) = 12" and "\<And>k m. length (hmac k m) = 20"
  shows "StunPacket_Serialize hmac mem p pwd = Inr (stun_message hmac p pwd @ drop 52 mem, 52)"
proof -
  have "mem = take 2 mem @ take 2 (drop 2 mem) @ take 4 (drop 4 mem) @ take 12 (drop 8 mem) @
      take 2 (drop 20 mem) @ take 2 (drop 22 mem) @ take 20 (drop 24 mem) @ take 2 (drop 44 mem) @
      take 2 (drop 46 mem) @ take 4 (drop 48 mem) @ drop 52 mem" (is "mem = ?m")
  proof -
    have step: "drop n mem = take k (drop n mem) @ drop (n + k) mem" for n k
      by (metis append_take_drop_id drop_drop add.commute)
    show ?thesis
      using step [of 0 2] step [of 2 2] step [of 4 4] step [of 8 12] step [of 20 2] step [of 22 2]
        step [of 24 20] step [of 44 2] step [of 46 2] step [of 48 4] by simp
  qed
  moreover have "StunPacket_Serialize hmac ?m p pwd = Inr (stun_message hmac p pwd @ drop 52 mem, 52)"
    by (rule Serialize_pieces) (use assms in \<open>simp_all add: MaxStunSize_def\<close>)
  ultimately show ?thesis by simp
qed

lemma length_stun_message:
  "length (stun_transId p) = 12 \<Longrightarrow> (\<And>k m. length (hmac k m) = 20) \<Longrightarrow> length (stun_message hmac p pwd) = 52"
  by (simp add: stun_message_def stun_body_def stun_integrity_def length_stun_header)

section \<open>Parsing encoded attributes\<close>

text \<open>An attribute as RFC 5389 encodes it: type, length, value, padding to 32 bits.\<close>

definition enc_attr :: "u16 \<times> bytes \<Rightarrow> bytes" where
  "enc_attr tv = (case tv of (t, v) \<Rightarrow>
     be_bytes 2 t @ be_bytes 2 (word_of_nat (length v) :: u16) @ v @
     replicate ((length v + 3) div 4 * 4 - length v) 0)"

definition last_username :: "string \<Rightarrow> (u16 \<times> bytes) list \<Rightarrow> string" where
  "last_username u attrs = foldl (\<lambda>u (t, v). if t = Username then to_string v else u) u attrs"

lemma length_enc_attr: "length (enc_attr (t, v)) = 4 + (length v + 3) div 4 * 4"
  using round_up_bounds(1) [of "length v"] by (simp add: enc_attr_def)

lemma unat_pad32_u16: "unat (pad32 (ucast (l :: u16))) = (unat l + 3) div 4 * 4"
proof -
  have b: "unat l < 2 ^ 16" using unsigned_less [of l, where ?'a = nat] by simp
  moreover have "unat (ucast l :: u32) = unat l"
    using b by (simp add: unsigned_ucast_eq take_bit_nat_eq_self_iff)
  ultimately show ?thesis using unat_pad32 [of "ucast l"] by simp
qed

lemma unat_u16_of_nat: "n < 65536 \<Longrightarrow> unat (word_of_nat n :: u16) = n"
  by (simp add: unat_of_nat)

lemma Parse_loop_step:
  fixes t l :: u16
  assumes "int i + 4 < sz" "ReadBigEndian 2 data i = Inr t" "ReadBigEndian 2 data (i + 2) = Inr l"
    "\<not> int (i + AttrHeaderSize) + int (unat l) > sz" "rd_bytes data (i + AttrHeaderSize) (unat l) = Inr v"
  shows "StunPacket_Parse_loop data sz i rv =
    StunPacket_Parse_loop data sz (i + AttrHeaderSize + unat (pad32 (ucast l)))
      (rv\<lparr>stun_username := if t = Username then to_string v else stun_username rv\<rparr>)"
  using assms by (subst StunPacket_Parse_loop.simps) (simp add: Let_def)

text \<open>One attribute that is inside the message.\<close>

lemma Parse_loop_attr:
  assumes len: "length v < 65536" and go: "length pre + 4 < n" and fits: "length pre + 4 + length v \<le> n"
  shows "StunPacket_Parse_loop (pre @ enc_attr (t, v) @ rest) (int n) (length pre) rv
    = StunPacket_Parse_loop (pre @ enc_attr (t, v) @ rest) (int n) (length (pre @ enc_attr (t, v)))
        (rv\<lparr>stun_username := if t = Username then to_string v else stun_username rv\<rparr>)"
proof -
  let ?data = "pre @ enc_attr (t, v) @ rest" and ?l = "word_of_nat (length v) :: u16"
  have rd: "ReadBigEndian 2 ?data (length pre) = Inr t" "ReadBigEndian 2 ?data (length pre + 2) = Inr ?l"
    by (simp_all add: be16.rd_eq enc_attr_def)
  have l: "unat ?l = length v" using len by (rule unat_u16_of_nat)
  have v: "rd_bytes ?data (length pre + AttrHeaderSize) (unat ?l) = Inr v"
    unfolding l by (simp add: enc_attr_def AttrHeaderSize_def)
  have "int (length pre) + 4 < int n" "\<not> int (length pre + AttrHeaderSize) + int (unat ?l) > int n"
    unfolding l AttrHeaderSize_def using go fits by simp_all
  moreover have "length pre + AttrHeaderSize + unat (pad32 (ucast ?l)) = length (pre @ enc_attr (t, v))"
    by (simp add: unat_pad32_u16 l AttrHeaderSize_def length_enc_attr)
  ultimately show ?thesis using Parse_loop_step [OF _ rd _ v] by (simp only: not_False_eq_True)
qed

text \<open>The loop consumes a sequence of encoded attributes and keeps the last user name.\<close>

lemma Parse_loop_attrs:
  assumes "\<forall>(t, v) \<in> set attrs. length v < 65536"
    and "length pre + length (concat (map enc_attr attrs)) \<le> n"
    and "attrs \<noteq> [] \<Longrightarrow> snd (last attrs) \<noteq> [] \<or> length pre + length (concat (map enc_attr attrs)) < n"
  shows "StunPacket_Parse_loop (pre @ concat (map enc_attr attrs) @ post) (int n) (length pre) rv
         = StunPacket_Parse_loop (pre @ concat (map enc_attr attrs) @ post) (int n)
             (length pre + length (concat (map enc_attr attrs)))
             (rv\<lparr>stun_username := last_username (stun_username rv) attrs\<rparr>)"
  using assms
proof (induction attrs arbitrary: pre rv)
  case Nil
  show ?case by (simp add: last_username_def)
next
  case (Cons tv attrs)
  obtain t v where tv: "tv = (t, v)" by fastforce
  let ?rest = "concat (map enc_attr attrs)"
  let ?enc = "concat (map enc_attr (tv # attrs))"
  let ?data = "pre @ ?enc @ post"
  let ?rv = "rv\<lparr>stun_username := if t = Username then to_string v else stun_username rv\<rparr>"
  have len: "length v < 65536" using Cons.prems(1) tv by simp
  have up: "length v \<le> (length v + 3) div 4 * 4" by (rule round_up_bounds)
  have enc: "length (enc_attr tv) = 4 + (length v + 3) div 4 * 4" by (simp add: tv length_enc_attr)
  have total: "length ?enc = 4 + (length v + 3) div 4 * 4 + length ?rest" by (simp add: enc)
  have "length pre + 4 < n"
  proof (cases "attrs = []")
    case True
    then show ?thesis using Cons.prems(2,3) tv total up by (cases v) auto
  next
    case False
    then obtain t' v' as where "attrs = (t', v') # as" by (metis list.exhaust surj_pair)
    then have "0 < length ?rest" using length_enc_attr [of t' v'] by simp
    then show ?thesis using Cons.prems(2) total by linarith
  qed
  then have "StunPacket_Parse_loop ?data (int n) (length pre) rv
      = StunPacket_Parse_loop ?data (int n) (length (pre @ enc_attr tv)) ?rv"
    using Parse_loop_attr [OF len, of pre n t "?rest @ post" rv] Cons.prems(2) total up by (simp add: tv)
  also have "?data = (pre @ enc_attr tv) @ ?rest @ post" by simp
  also have "StunPacket_Parse_loop \<dots> (int n) (length (pre @ enc_attr tv)) ?rv
      = StunPacket_Parse_loop \<dots> (int n) (length (pre @ enc_attr tv) + length ?rest)
          (?rv\<lparr>stun_username := last_username (stun_username ?rv) attrs\<rparr>)"
    by (rule Cons.IH) (use Cons.prems in \<open>auto simp: add.assoc split: if_splits\<close>)
  finally show ?case by (simp add: last_username_def tv add.assoc)
qed

lemma Parse_loop_end: "sz \<le> int i + 4 \<Longrightarrow> StunPacket_Parse_loop data sz i rv = Inr (Some rv)"
  by (subst StunPacket_Parse_loop.simps) simp

lemma Parse_header:
  assumes "length cookie = 4" "length tid = 12"
  shows "StunPacket_Parse (be_bytes 2 (mt :: u16) @ be_bytes 2 (len :: u16) @ cookie @ tid @ rest) sz =
    StunPacket_Parse_loop ((be_bytes 2 mt @ be_bytes 2 len @ cookie @ tid) @ rest) sz
      (length (be_bytes 2 mt @ be_bytes 2 len @ cookie @ tid))
      \<lparr>stun_username = [], stun_method = mt AND 0xFEEF, stun_type = mt AND 0x0110, stun_transId = tid\<rparr>"
  using assms by (simp add: StunPacket_Parse_def be16.rd_eq StunHeaderSize_def)

lemma Parse_encoded:
  assumes "length cookie = 4" "length tid = 12" "\<forall>(t, v) \<in> set attrs. length v < 65536"
    and "attrs \<noteq> [] \<Longrightarrow> snd (last attrs) \<noteq> []" and n: "n = 20 + length (concat (map enc_attr attrs))"
  shows "StunPacket_Parse (be_bytes 2 (mt :: u16) @ be_bytes 2 (len :: u16) @ cookie @ tid @
      concat (map enc_attr attrs) @ post) (int n) =
    Inr (Some \<lparr>stun_username = last_username [] attrs, stun_method = mt AND 0xFEEF,
               stun_type = mt AND 0x0110, stun_transId = tid\<rparr>)"
  using assms Parse_loop_attrs [of attrs "be_bytes 2 mt @ be_bytes 2 len @ cookie @ tid" n post]
  by (simp only: Parse_header) (simp add: Parse_loop_end)

section \<open>Properties\<close>

text \<open>
  C26. Parsing a datagram of any content is memory safe, and terminates with a packet or a
  null pointer, exactly when the buffer holds a whole STUN header: the attribute loop never
  reads outside the datagram, but the 20 header bytes are read without a check of the size.
\<close>

theorem stun_parse_safe_iff_header:
  "(\<exists>r. StunPacket_Parse data (int (length data)) = Inr r) \<longleftrightarrow> StunHeaderSize \<le> length data"
proof (cases "StunHeaderSize \<le> length data")
  case True
  then show ?thesis
    using StunPacket_Parse_loop_total [of "int (length data)" data]
    by (auto simp: StunPacket_Parse_def be16.rd_eq StunHeaderSize_def)
next
  case False
  then have "rd_bytes data 8 12 = Inl OutOfBounds" by (simp add: rd_bytes_fault StunHeaderSize_def)
  with False show ?thesis
    by (cases "ReadBigEndian 2 data 0 :: u16 res") (auto simp: StunPacket_Parse_def)
qed

text \<open>
  The attributes that the loop reaches: it stops when exactly four bytes are left, so an
  attribute without a value at the very end is not looked at.
\<close>

definition reached_attrs :: "(u16 \<times> bytes) list \<Rightarrow> (u16 \<times> bytes) list" where
  "reached_attrs attrs = (if attrs \<noteq> [] \<and> snd (last attrs) = [] then butlast attrs else attrs)"

lemma Parse_message:
  assumes "length cookie = 4" and "length tid = 12" and "\<forall>(t, v) \<in> set attrs. length v < 65536"
  shows "StunPacket_Parse (be_bytes 2 (mt :: u16) @ be_bytes 2 (len :: u16) @ cookie @ tid @
      concat (map enc_attr attrs) @ post) (int (20 + length (concat (map enc_attr attrs)))) =
    Inr (Some \<lparr>stun_username = last_username [] (reached_attrs attrs), stun_method = mt AND 0xFEEF,
               stun_type = mt AND 0x0110, stun_transId = tid\<rparr>)"
proof (cases "attrs \<noteq> [] \<and> snd (last attrs) = []")
  case True
  obtain as t where attrs: "attrs = as @ [(t, [])]"
    using True by (cases attrs rule: rev_cases) auto
  let ?pre = "be_bytes 2 mt @ be_bytes 2 len @ cookie @ tid" and ?enc = "concat (map enc_attr as)"
  have "length (enc_attr (t, [])) = 4" by (simp add: length_enc_attr)
  then have n: "20 + length (concat (map enc_attr attrs)) = length ?pre + length ?enc + 4"
    using assms(1,2) by (simp add: attrs)
  have "StunPacket_Parse_loop (?pre @ ?enc @ enc_attr (t, []) @ post) (int (length ?pre + length ?enc + 4)) (length ?pre) rv =
      Inr (Some (rv\<lparr>stun_username := last_username (stun_username rv) as\<rparr>))" for rv
    using Parse_loop_attrs [of as ?pre "length ?pre + length ?enc + 4" "enc_attr (t, []) @ post" rv] assms(3)
    by (simp add: attrs Parse_loop_end)
  then show ?thesis
    unfolding n using assms(1,2) True by (simp only: Parse_header) (simp add: attrs reached_attrs_def)
next
  case False
  then have "reached_attrs attrs = attrs" by (simp only: reached_attrs_def if_False)
  then show ?thesis using Parse_encoded [OF assms _ refl, of mt len post] False by auto
qed

text \<open>
  C11. Parsing a well-formed message (header, then any attributes, encoded as type, length,
  value and padding to 32 bits) succeeds, whatever follows it in the receive buffer, and yields
  the transaction id, the method bits and the value of the last USERNAME attribute that is
  reached: all are, except an empty one at the very end of the message, which is ignored.
\<close>

theorem stun_parse_attributes:
  assumes "length cookie = 4" and "length tid = 12" and "\<forall>(t, v) \<in> set attrs. length v < 65536"
  shows "StunPacket_Parse (be_bytes 2 (mt :: u16) @ be_bytes 2 (len :: u16) @ cookie @ tid @
      concat (map enc_attr attrs) @ post) (int (20 + length (concat (map enc_attr attrs)))) =
    Inr (Some \<lparr>stun_username = last_username [] (reached_attrs attrs), stun_method = mt AND 0xFEEF,
               stun_type = mt AND 0x0110, stun_transId = tid\<rparr>)"
  using assms by (rule Parse_message)

theorem stun_parse_attributes_witness:
  "StunPacket_Parse (be_bytes 2 (1 :: u16) @ be_bytes 2 (12 :: u16) @ MagicCookie @ replicate 12 7 @
      concat (map enc_attr [(Username, of_string ''ab:cd''), (0x24, [1]), (Username, [])]) @ [99]) (int 44) =
    Inr (Some \<lparr>stun_username = ''ab:cd'', stun_method = 1, stun_type = 0, stun_transId = replicate 12 7\<rparr>)"
  using stun_parse_attributes [of MagicCookie "replicate 12 7" "[(Username, of_string ''ab:cd''), (0x24, [1]), (Username, [])]"
      1 12 "[99]"]
  by (simp add: reached_attrs_def last_username_def length_enc_attr Username_def)

text \<open>
  A message whose next attribute claims more bytes than the datagram has left is
  rejected with a null pointer, after any sequence of well-formed attributes.
\<close>

theorem stun_parse_truncated_attribute:
  assumes "length cookie = 4" and "length tid = 12" and "\<forall>(t, v) \<in> set attrs. length v < 65536"
    and "v \<noteq> []" and "length v < unat l"
  shows "StunPacket_Parse (be_bytes 2 (mt :: u16) @ be_bytes 2 (len :: u16) @ cookie @ tid @
      concat (map enc_attr attrs) @ be_bytes 2 (t :: u16) @ be_bytes 2 (l :: u16) @ v)
      (int (24 + length (concat (map enc_attr attrs)) + length v)) = Inr None"
proof -
  let ?pre = "be_bytes 2 mt @ be_bytes 2 len @ cookie @ tid"
  let ?enc = "concat (map enc_attr attrs)"
  let ?data = "?pre @ ?enc @ be_bytes 2 t @ be_bytes 2 l @ v"
  let ?n = "24 + length ?enc + length v"
  let ?i = "length ?pre + length ?enc"
  have pre: "length ?pre = 20" using assms(1,2) by simp
  have rd: "ReadBigEndian 2 ?data ?i = Inr t" "ReadBigEndian 2 ?data (?i + 2) = Inr l"
    using pre by (simp_all add: be16.rd_eq)
  have "?i + 4 < ?n" "?n < ?i + AttrHeaderSize + unat l"
    using pre assms(4,5) by (simp_all add: AttrHeaderSize_def)
  then have "int ?i + 4 < int ?n" "int (?i + AttrHeaderSize) + int (unat l) > int ?n"
    by linarith+
  then have "StunPacket_Parse_loop ?data (int ?n) ?i rv = Inr None" for rv
    using rd by (subst StunPacket_Parse_loop.simps) (simp add: Let_def)
  moreover have "\<And>rv. StunPacket_Parse_loop ?data (int ?n) (length ?pre) rv = StunPacket_Parse_loop ?data (int ?n) ?i
      (rv\<lparr>stun_username := last_username (stun_username rv) attrs\<rparr>)"
    by (rule Parse_loop_attrs) (use assms(3) pre in simp_all)
  ultimately show ?thesis using assms(1,2) by (simp only: Parse_header append_assoc)
qed

theorem stun_parse_truncated_attribute_witness:
  "StunPacket_Parse (be_bytes 2 (1 :: u16) @ be_bytes 2 (8 :: u16) @ MagicCookie @ replicate 12 7 @
      concat (map enc_attr []) @ be_bytes 2 Username @ be_bytes 2 (500 :: u16) @ [1, 2]) (int (24 + 0 + 2)) = Inr None"
  using stun_parse_truncated_attribute [of MagicCookie "replicate 12 7" "[]" "[1, 2]" 500 1 8 Username] by simp

text \<open>
  Serialising a packet succeeds for every content of the freshly allocated memory and
  produces the 52 bytes of a STUN message that do not depend on it: header with cookie and
  transaction id, MESSAGE-INTEGRITY over the header whose length field counts up to that
  attribute, and FINGERPRINT, the CRC of everything before it, under the final length 32.
\<close>

theorem stun_serialize_layout:
  assumes "length mem = MaxStunSize" and "length (stun_transId p) = 12"
    and "\<And>k m. length (hmac k m) = HMACSize"
  shows "StunPacket_Serialize hmac mem p pwd = Inr (stun_message hmac p pwd @ drop 52 mem, 52) \<and>
         length (stun_message hmac p pwd) = 52"
  using assms Serialize_eq [of mem p hmac pwd] length_stun_message [of p hmac pwd] by (simp add: HMACSize_def)

theorem stun_serialize_layout_witness:
  "StunPacket_Serialize (\<lambda>k m. replicate 20 0) (replicate 640 1)
     \<lparr>stun_username = [], stun_method = 1, stun_type = 2, stun_transId = replicate 12 5\<rparr> ''pw''
   = Inr (stun_message (\<lambda>k m. replicate 20 0)
       \<lparr>stun_username = [], stun_method = 1, stun_type = 2, stun_transId = replicate 12 5\<rparr> ''pw'' @
       drop 52 (replicate 640 1), 52)"
  using stun_serialize_layout [of "replicate 640 1"
      "\<lparr>stun_username = [], stun_method = 1, stun_type = 2, stun_transId = replicate 12 5\<rparr>"
      "\<lambda>k m. replicate 20 0" "''pw''"]
  by (simp add: MaxStunSize_def HMACSize_def)

lemma stun_message_attrs:
  assumes "\<And>k m. length (hmac k m) = 20"
  shows "stun_message hmac p pwd = be_bytes 2 (message_type p) @ be_bytes 2 (32 :: u16) @ MagicCookie @
    stun_transId p @ concat (map enc_attr
      [(MessageIntegrity, hmac (of_string pwd) (stun_header (message_type p) 24 (stun_transId p))),
       (0x8028, be_bytes 4 (crc32_ref (stun_body hmac p pwd) XOR 0x5354554e))])"
  using assms by (simp add: stun_message_def stun_body_def stun_integrity_def stun_header_def enc_attr_def)

lemma Parse_stun_message:
  assumes "length (stun_transId p) = 12" and mac: "\<And>k m. length (hmac k m) = 20"
  shows "StunPacket_Parse (stun_message hmac p pwd @ rest) (int 52) =
    Inr (Some \<lparr>stun_username = [], stun_method = message_type p AND 0xFEEF,
               stun_type = message_type p AND 0x0110, stun_transId = stun_transId p\<rparr>)"
proof -
  define attrs where "attrs =
    [(MessageIntegrity, hmac (of_string pwd) (stun_header (message_type p) 24 (stun_transId p))),
     (0x8028, be_bytes 4 (crc32_ref (stun_body hmac p pwd) XOR 0x5354554e))]"
  have "be_bytes 4 w \<noteq> []" for w :: u32
    by (metis length_be_bytes list.size(3) zero_neq_numeral)
  then have "StunPacket_Parse (be_bytes 2 (message_type p) @ be_bytes 2 (32 :: u16) @ MagicCookie @
      stun_transId p @ concat (map enc_attr attrs) @ rest) (int 52) =
    Inr (Some \<lparr>stun_username = last_username [] attrs, stun_method = message_type p AND 0xFEEF,
               stun_type = message_type p AND 0x0110, stun_transId = stun_transId p\<rparr>)"
    using assms by (intro Parse_encoded) (auto simp: attrs_def length_enc_attr)
  then show ?thesis
    using stun_message_attrs [where hmac = hmac and p = p and pwd = pwd, OF mac]
    by (simp add: attrs_def last_username_def Username_def MessageIntegrity_def)
qed

text \<open>
  C12. The reply to a binding request: for every request the parser accepts, the serialised
  response is recognised as a STUN message, has message type 0x0101, the request's transaction id, the magic cookie, a valid
  fingerprint and an integrity code keyed with the given password, and parses back to the
  same method and transaction id.
\<close>

theorem stun_binding_reply:
  assumes req: "ReadBigEndian 2 data 0 = Inr (0x0001 :: u16)" and p: "StunPacket_Parse data sz = Inr (Some p)"
    and mem: "length mem = MaxStunSize" and mac: "\<And>k m. length (hmac k m) = HMACSize"
  shows "\<exists>buf. StunPacket_Serialize hmac mem (MakeResponse p) pwd = Inr (buf, 52) \<and>
     IsStun buf 52 = Inr True \<and> ReadBigEndian 2 buf 0 = Inr (0x0101 :: u16) \<and>
     rd_bytes buf 4 4 = Inr MagicCookie \<and>
     rd_bytes buf 8 12 = rd_bytes data 8 12 \<and>
     rd_bytes buf 24 20 = Inr (hmac (of_string pwd) (stun_header 0x0101 24 (stun_transId p))) \<and>
     ReadBigEndian 4 buf 48 = Inr (crc32_ref (take 44 buf) XOR 0x5354554e) \<and>
     (\<exists>q. StunPacket_Parse buf 52 = Inr (Some q) \<and> stun_method q = Binding \<and> stun_transId q = stun_transId p)"
proof -
  have loop: "StunPacket_Parse_loop data sz i rv = Inr (Some q) \<Longrightarrow>
      stun_method q = stun_method rv \<and> stun_transId q = stun_transId rv" for i rv q
    by (drule Parse_loop_frame) simp
  obtain tid where tid: "rd_bytes data 8 12 = Inr tid" and m: "stun_method p = 1" "stun_transId p = tid"
    using p req by (auto simp: StunPacket_Parse_def bindr_eq_Inr dest!: loop)
  have "length tid = 12" using tid by (auto simp: rd_bytes_def split: if_splits)
  then have len: "length (stun_transId p) = 12" using m by simp
  let ?r = "MakeResponse p"
  have r: "message_type ?r = 0x0101" "stun_transId ?r = tid" "length (stun_transId ?r) = 12"
    using m len by (simp_all add: MakeResponse_def message_type_def Response_def)
  let ?buf = "stun_message hmac ?r pwd @ drop 52 mem"
  have mac20: "\<And>k m. length (hmac k m) = 20" using mac by (simp add: HMACSize_def)
  have body: "length (stun_body hmac ?r pwd) = 44"
    using r(3) mac20 by (simp add: stun_body_def stun_integrity_def length_stun_header)
  then have take44: "take 44 ?buf = stun_body hmac ?r pwd" by (simp add: stun_message_def)
  have "StunPacket_Parse ?buf 52 = Inr (Some \<lparr>stun_username = [], stun_method = 1, stun_type = 0x100, stun_transId = tid\<rparr>)"
    using Parse_stun_message [of ?r hmac pwd "drop 52 mem"] r mac20 by simp
  moreover have "ReadBigEndian 4 ?buf 48 = Inr (crc32_ref (take 44 ?buf) XOR 0x5354554e)"
    unfolding take44 using body by (simp add: be32.rd_eq stun_message_def)
  moreover have "IsStun ?buf 52 = Inr True"
    using r(1) by (simp add: IsStun_def eq8_def stun_message_def stun_body_def stun_header_def be_bytes_unfold(2))
  ultimately show ?thesis
    using Serialize_eq [where hmac = hmac and pwd = pwd, OF mem r(3) mac20] r m tid mac20
    by (auto simp: be16.rd_eq stun_message_def stun_body_def stun_integrity_def stun_header_def Binding_def)
qed

theorem stun_binding_reply_witness:
  "\<exists>buf. StunPacket_Serialize (\<lambda>k m. replicate 20 0) (replicate 640 9)
       (MakeResponse \<lparr>stun_username = [], stun_method = 1, stun_type = 0, stun_transId = replicate 12 5\<rparr>) ''pw''
         = Inr (buf, 52) \<and>
     ReadBigEndian 2 buf 0 = Inr (0x0101 :: u16) \<and> rd_bytes buf 8 12 = Inr (replicate 12 5)"
proof -
  let ?data = "be_bytes 2 (1 :: u16) @ be_bytes 2 (0 :: u16) @ MagicCookie @ replicate 12 (5 :: byte) @ concat (map enc_attr []) @ []"
  let ?p = "\<lparr>stun_username = [], stun_method = 1, stun_type = 0, stun_transId = replicate 12 5\<rparr>"
  have "StunPacket_Parse ?data (int 20) = Inr (Some ?p)"
    using Parse_encoded [of MagicCookie "replicate 12 5" "[]" 20 1 0 "[]"] by (simp add: last_username_def)
  moreover have "ReadBigEndian 2 ?data 0 = Inr (1 :: u16)" "rd_bytes ?data 8 12 = Inr (replicate 12 5)"
    by (simp_all add: be16.rd_eq)
  ultimately show ?thesis
    using stun_binding_reply [of ?data "int 20" ?p "replicate 640 9" "\<lambda>k m. replicate 20 0" "''pw''"]
    by (auto simp: MaxStunSize_def HMACSize_def)
qed

text \<open>
  The class bits of a message are not decoded: a response the code itself serialised is
  parsed with a type that is not \<open>Response\<close>, and serialising it again produces a request.
\<close>

theorem stun_response_type_lost:
  assumes "length (stun_transId p) = 12" and "\<And>k m. length (hmac k m) = HMACSize" and "stun_method p = Binding"
  shows "\<exists>q. StunPacket_Parse (stun_message hmac (MakeResponse p) pwd) 52 = Inr (Some q) \<and>
     stun_type q \<noteq> Response \<and> message_type q = 0x0001 \<and> message_type (MakeResponse p) = 0x0101"
  using assms Parse_stun_message [of "MakeResponse p" hmac pwd "[]"]
  by (simp add: MakeResponse_def message_type_def Response_def Binding_def HMACSize_def)

theorem stun_response_type_lost_witness:
  "\<exists>q. StunPacket_Parse (stun_message (\<lambda>k m. replicate 20 0)
       (MakeResponse \<lparr>stun_username = [], stun_method = 1, stun_type = 0, stun_transId = replicate 12 5\<rparr>) ''pw'') 52
         = Inr (Some q) \<and> message_type q = 0x0001"
  using stun_response_type_lost [of "\<lparr>stun_username = [], stun_method = 1, stun_type = 0, stun_transId = replicate 12 5\<rparr>"
      "\<lambda>k m. replicate 20 0" "''pw''"]
  by (auto simp: HMACSize_def Binding_def)

end
