(* ===== verification/Server.thy ===== *)
theory Server
  imports Stun_Packet
begin

text \<open>
  The server (\<open>server.h\<close>, \<open>server.cpp\<close>): the table of peer connections by their pair of ICE
  user names, the port counter, and the answer to a STUN request received on the server's
  own socket. A connection is its object's number; \<open>GetLocalPassword\<close> of the objects is the
  argument \<open>pwd\<close>. The calls into libuv and the C library are results, in their order;
  \<open>PeerConnection::Active\<close> returns at once and has no effect. The constructor returns before
  it binds the socket and starts to receive, so in the program as it is nothing calls \<open>read_s\<close>.
\<close>

unbundle bit_operations_syntax

record sockaddr =
  sin_addr :: u32
  sin_port :: u16

record Server =
  srv_pcTable :: "string \<rightharpoonup> nat"
  srv_candidateIp :: string
  srv_port :: u32

definition Server_new :: "u32 \<Rightarrow> Server" where
  "Server_new port = \<lparr>srv_pcTable = Map.empty, srv_candidateIp = ''192.168.73.128'', srv_port = port\<rparr>"

definition pc_name :: "string \<Rightarrow> string \<Rightarrow> string" where
  "pc_name localUsername remoteUsername = localUsername @ '':'' @ remoteUsername"

definition AddPC :: "Server \<Rightarrow> string \<Rightarrow> string \<Rightarrow> nat \<Rightarrow> Server" where
  "AddPC self localUsername remoteUsername pc =
     self\<lparr>srv_pcTable := (srv_pcTable self)(pc_name localUsername remoteUsername \<mapsto> pc)\<rparr>"

definition RemovePC :: "Server \<Rightarrow> string \<Rightarrow> string \<Rightarrow> Server" where
  "RemovePC self localUsername remoteUsername =
     self\<lparr>srv_pcTable := (srv_pcTable self)(pc_name localUsername remoteUsername := None)\<rparr>"

definition GetPort :: "Server \<Rightarrow> Server \<times> u32" where
  "GetPort self = (self\<lparr>srv_port := srv_port self + 1\<rparr>, srv_port self)"

text \<open>
  What \<open>OnData\<close> does with a reply: it hands the bytes to \<open>uv_udp_send\<close>, with a destination or
  without one (the null pointer), and frees the block at once.
\<close>

datatype server_call = UvUdpSend bytes "sockaddr option" | FreeReply

definition Server_OnData ::
  "(bytes \<Rightarrow> bytes \<Rightarrow> bytes) \<Rightarrow> bytes \<Rightarrow> (nat \<Rightarrow> string) \<Rightarrow> Server \<Rightarrow> bytes \<Rightarrow> int \<Rightarrow> server_call list res" where
  "Server_OnData hmac mem pwd self base len =
     bindr (IsStun base len) (\<lambda>stun.
     if \<not> stun then Inr []
     else bindr (StunPacket_Parse base len) (\<lambda>p.
       case p of None \<Rightarrow> Inl NullDeref
       | Some p \<Rightarrow>
           let q = MakeResponse p in
           (case srv_pcTable self (stun_username p) of
              Some pc \<Rightarrow> bindr (StunPacket_Serialize hmac mem q (pwd pc)) (\<lambda>(data, sz).
                Inr [UvUdpSend (take sz data) None, FreeReply])
            | None \<Rightarrow> Inr [])))"

text \<open>
  The receive callback \<open>read_s\<close>: \<open>addr\<close> says whether a sender address is given. The last
  component tells whether the buffer is freed.
\<close>

definition read_s ::
  "(bytes \<Rightarrow> bytes \<Rightarrow> bytes) \<Rightarrow> bytes \<Rightarrow> (nat \<Rightarrow> string) \<Rightarrow> Server \<Rightarrow> int \<Rightarrow> bytes \<Rightarrow> bool \<Rightarrow> (server_call list \<times> bool) res" where
  "read_s hmac mem pwd self nread buf addr =
     bindr (if addr \<and> 0 < nread then Server_OnData hmac mem pwd self buf nread else Inr []) (\<lambda>calls.
     Inr (calls, nread = 0 \<and> \<not> addr))"

text \<open>
  The datagrams that leave the socket: those of the calls that libuv accepts. Its
  documentation says that a call without a destination fails with \<open>UV_EDESTADDRREQ\<close> unless
  the socket is connected, and the program never connects this one.
\<close>

fun departures :: "(sockaddr option \<Rightarrow> bool) \<Rightarrow> server_call list \<Rightarrow> bytes list" where
  "departures accepts [] = []"
| "departures accepts (UvUdpSend bs dest # cs) = (if accepts dest then bs # departures accepts cs else departures accepts cs)"
| "departures accepts (FreeReply # cs) = departures accepts cs"

definition unconnected :: "(sockaddr option \<Rightarrow> bool) \<Rightarrow> bool" where
  "unconnected accepts \<longleftrightarrow> \<not> accepts None"

section \<open>Names\<close>

lemma pc_name_inj:
  assumes "CHR '':'' \<notin> set l" "CHR '':'' \<notin> set l'"
  shows "pc_name l r = pc_name l' r' \<longleftrightarrow> l = l' \<and> r = r'"
proof
  assume "pc_name l r = pc_name l' r'"
  then have "l @ '':'' @ r = l' @ '':'' @ r'" by (simp add: pc_name_def)
  moreover have "takeWhile (\<lambda>c. c \<noteq> CHR '':'') (x @ '':'' @ y) = x" if "CHR '':'' \<notin> set x" for x y
    using that by (induction x) auto
  ultimately have "l = l'" using assms by metis
  then show "l = l' \<and> r = r'" using \<open>l @ '':'' @ r = l' @ '':'' @ r'\<close> by simp
qed simp

text \<open>The table as a table of pairs of names; local names come from \<open>randomID\<close>.\<close>

type_synonym names = "string \<times> string"

interpretation registry: keyed_table "\<lambda>_. True" "\<lambda>s n. srv_pcTable s n"
  "\<lambda>s n pc. s\<lparr>srv_pcTable := (srv_pcTable s)(n \<mapsto> pc)\<rparr>" "\<lambda>s n. s\<lparr>srv_pcTable := (srv_pcTable s)(n := None)\<rparr>"
  by unfold_locales auto

datatype server_op = OpAdd string string nat | OpRemove string string

fun server_step :: "server_op \<Rightarrow> Server \<Rightarrow> Server" where
  "server_step (OpAdd uuid r pc) s = AddPC s (randomID uuid) r pc"
| "server_step (OpRemove uuid r) s = RemovePC s (randomID uuid) r"

text \<open>The specification: connections by the pair of names.\<close>

fun last_registration :: "names \<Rightarrow> server_op \<Rightarrow> nat option \<Rightarrow> nat option" where
  "last_registration n (OpAdd uuid r pc) c = (if n = (randomID uuid, r) then Some pc else c)"
| "last_registration n (OpRemove uuid r) c = (if n = (randomID uuid, r) then None else c)"

fun as_table_op :: "server_op \<Rightarrow> (string, nat) table_op" where
  "as_table_op (OpAdd uuid r pc) = Ins (pc_name (randomID uuid) r) pc"
| "as_table_op (OpRemove uuid r) = Del (pc_name (randomID uuid) r)"

lemma server_step_table:
  "server_step x = table_step (\<lambda>s n pc. s\<lparr>srv_pcTable := (srv_pcTable s)(n \<mapsto> pc)\<rparr>)
     (\<lambda>s n. s\<lparr>srv_pcTable := (srv_pcTable s)(n := None)\<rparr>) (as_table_op x)"
  by (cases x) (auto simp: AddPC_def RemovePC_def)

lemma last_op_names: "last_op (pc_name (randomID u) r) (as_table_op x) c = last_registration (randomID u, r) x c"
  by (cases x) (simp_all add: pc_name_inj randomID_no_colon eq_commute)

lemma registry_run:
  "srv_pcTable (fold server_step ops s) (pc_name (randomID u) r) =
   fold (last_registration (randomID u, r)) ops (srv_pcTable s (pc_name (randomID u) r))"
proof -
  have "fold server_step ops s = fold (table_step (\<lambda>s n pc. s\<lparr>srv_pcTable := (srv_pcTable s)(n \<mapsto> pc)\<rparr>)
     (\<lambda>s n. s\<lparr>srv_pcTable := (srv_pcTable s)(n := None)\<rparr>)) (map as_table_op ops) s"
    by (induction ops arbitrary: s) (simp_all add: server_step_table)
  moreover have "fold (last_op (pc_name (randomID u) r)) (map as_table_op ops) c = fold (last_registration (randomID u, r)) ops c" for c
    by (induction ops arbitrary: c) (simp_all add: last_op_names)
  ultimately show ?thesis by (simp add: registry.lookup_run)
qed

lemma OnData_request:
  assumes "length tid = 12" and "length mem = MaxStunSize" and "\<And>k m. length (hmac k m) = HMACSize"
    and "n \<noteq> []" and "length n < 65536"
    and "req = be_bytes 2 (1 :: u16) @ be_bytes 2 (len :: u16) @ MagicCookie @ tid @ enc_attr (Username, of_string n)"
  shows "Server_OnData hmac mem pwd s req (int (length req)) =
    Inr (case srv_pcTable s n of None \<Rightarrow> []
      | Some pc \<Rightarrow> [UvUdpSend (stun_message hmac \<lparr>stun_username = n, stun_method = Binding, stun_type = Response, stun_transId = tid\<rparr> (pwd pc)) None,
          FreeReply])"
proof -
  let ?attrs = "[(Username, of_string n)]"
  let ?q = "\<lparr>stun_username = n, stun_method = Binding, stun_type = Response, stun_transId = tid\<rparr>"
  have "of_string n \<noteq> []" using assms(4) by (simp add: of_string_def)
  then have "StunPacket_Parse (be_bytes 2 (1 :: u16) @ be_bytes 2 len @ MagicCookie @ tid @ concat (map enc_attr ?attrs) @ [])
      (int (20 + length (concat (map enc_attr ?attrs)))) =
    Inr (Some \<lparr>stun_username = last_username [] ?attrs, stun_method = 1 AND 0xFEEF, stun_type = 1 AND 0x0110, stun_transId = tid\<rparr>)"
    using assms(1,5) by (intro Parse_encoded) simp_all
  then have parse: "StunPacket_Parse req (int (length req)) = Inr (Some \<lparr>stun_username = n, stun_method = 1, stun_type = 0, stun_transId = tid\<rparr>)"
    using assms(1) by (simp add: assms(6) last_username_def)
  have stun: "IsStun req k = Inr True" for k by (simp add: IsStun_def eq8_def assms(6) be_bytes_unfold(2))
  have ser: "StunPacket_Serialize hmac mem ?q x = Inr (stun_message hmac ?q x @ drop 52 mem, 52)" "length (stun_message hmac ?q x) = 52" for x
    using assms(1-3) Serialize_eq [of mem ?q hmac x] length_stun_message [of ?q hmac x] by (simp_all add: HMACSize_def)
  show ?thesis
    using ser by (simp add: Server_OnData_def stun parse MakeResponse_def Binding_def split: option.splits)
qed

section \<open>Properties\<close>

lemma OnData_departs:
  assumes "Server_OnData hmac mem pwd s base len = Inr calls" "unconnected accepts"
  shows "departures accepts calls = []"
proof -
  have "calls = [] \<or> (\<exists>bs. calls = [UvUdpSend bs None, FreeReply])"
    using assms(1) by (auto simp: Server_OnData_def bindr_eq_Inr Let_def split: if_split_asm option.split_asm)
  then show ?thesis using assms(2) by (auto simp: unconnected_def)
qed

text \<open>
  C17. The server prepares the right reply and never delivers it. After any sequence of
  registrations and removals, a binding request for the pair of names \<open>(randomID u, r)\<close> makes
  \<open>OnData\<close> build a reply, signed with the connection's password, exactly if the last operation
  on the pair registered a connection; other pairs do not interfere, since generated local
  names contain no colon. But the reply is handed to \<open>uv_udp_send\<close> without a destination:
  under libuv's rule for a socket that is not connected no datagram ever leaves it, for
  this request or any other input.
\<close>

theorem server_reply_without_destination:
  assumes "length tid = 12" and "length mem = MaxStunSize" and "\<And>k m. length (hmac k m) = HMACSize"
    and "n = pc_name (randomID u) r" and "length n < 65536"
    and "req = be_bytes 2 (1 :: u16) @ be_bytes 2 (len :: u16) @ MagicCookie @ tid @ enc_attr (Username, of_string n)"
    and "unconnected accepts"
  shows "Server_OnData hmac mem pwd (fold server_step ops (Server_new port)) req (int (length req)) =
      Inr (case fold (last_registration (randomID u, r)) ops None of None \<Rightarrow> []
        | Some pc \<Rightarrow> [UvUdpSend (stun_message hmac \<lparr>stun_username = n, stun_method = Binding, stun_type = Response, stun_transId = tid\<rparr> (pwd pc)) None,
            FreeReply]) \<and>
    (\<forall>s base sz calls. Server_OnData hmac mem pwd s base sz = Inr calls \<longrightarrow> departures accepts calls = [])"
proof -
  have "srv_pcTable (fold server_step ops (Server_new port)) n = fold (last_registration (randomID u, r)) ops None"
    unfolding assms(4) registry_run by (simp add: Server_new_def)
  moreover have "n \<noteq> []" using assms(4) by (simp add: pc_name_def)
  ultimately show ?thesis using OnData_request [OF assms(1-3) _ assms(5,6)] OnData_departs assms(7) by simp
qed

theorem server_reply_without_destination_witness:
  "\<exists>reply. Server_OnData (\<lambda>k m. replicate 20 0) (replicate 640 9) (\<lambda>pc. ''pw'')
     (fold server_step [OpAdd ''a-1'' ''x'' 7, OpAdd ''b'' ''x'' 8] (Server_new 8080))
     (be_bytes 2 (1 :: u16) @ be_bytes 2 (8 :: u16) @ MagicCookie @ replicate 12 5 @ enc_attr (Username, of_string (pc_name (randomID ''b'') ''x''))) 28
   = Inr [UvUdpSend reply None, FreeReply] \<and> departures (\<lambda>dest. dest \<noteq> None) [UvUdpSend reply None, FreeReply] = []"
proof -
  let ?n = "pc_name (randomID ''b'') ''x''"
  have r: "randomID ''b'' = ''b''" "randomID ''a-1'' = ''a1''" by (simp_all add: randomID_def is_id_char_def code_def)
  have "length (be_bytes 2 (1 :: u16) @ be_bytes 2 (8 :: u16) @ MagicCookie @ replicate 12 5 @ enc_attr (Username, of_string ?n)) = 28"
    by (simp add: length_enc_attr pc_name_def r)
  then show ?thesis
    using server_reply_without_destination [of "replicate 12 5" "replicate 640 9" "\<lambda>k m. replicate 20 0" ?n "''b''" "''x''" _ 8
        "\<lambda>dest. dest \<noteq> None" "\<lambda>pc. ''pw''" "[OpAdd ''a-1'' ''x'' 7, OpAdd ''b'' ''x'' 8]" 8080, OF _ _ _ refl _ refl]
    by (simp add: MaxStunSize_def HMACSize_def r pc_name_def unconnected_def)
qed

end
