(* ===== verification/Peer_Connection.thy ===== *)
theory Peer_Connection
  imports Pool Session_Manager Media_Stream Server
begin

text \<open>
  Peer connections (\<open>peerconnection.h\<close>, \<open>peerconnection.cpp\<close>) and the state they share: the
  objects, the media streams, the pool of loops, the server, the allocated memory blocks
  and the datagrams handed to libuv. A \<open>shared_ptr\<close> or \<open>weak_ptr\<close> to a connection or a stream is
  its number; an object that has been destroyed is no longer in the table. Every \<open>malloc\<close>
  returns a fresh block number; \<open>free\<close> of a block that is not allocated is a fault, and so is
  sending from one.
  \<open>w_sent\<close> are all the requests handed to libuv, \<open>w_inflight\<close> those it has accepted and not yet
  completed. Which requests it accepts is not up to the program: \<open>w_accepts\<close> says it, and may
  change between any two steps. A completion looks at its request only; that libuv reaches it
  through the socket, a member of the connection, is not modelled.
  A posted function is a \<open>task\<close>. What a handler obtains from outside (clocks, the contents
  of fresh memory, indeterminate members, OpenSSL's HMAC) is the record \<open>env\<close>.
\<close>

unbundle bit_operations_syntax

section \<open>State\<close>

record PeerConnection =
  pc_sessionManager :: "RTPSessionManager option"
  pc_id :: string
  pc_loop :: nat
  pc_callback :: bool
  pc_localStream :: "nat option"
  pc_remoteStream :: "nat option"
  pc_localUsername :: string
  pc_localPassword :: string
  pc_remoteUsername :: string
  pc_remotePassword :: string
  pc_lastPacketRecvTimeMS :: u64
  pc_port :: u16
  pc_lastRemote :: "sockaddr option"
  pc_started :: bool

text \<open>
  A send request: the socket, the block that \<open>send_u\<close> frees, the bytes and the address. No
  address (\<open>None\<close>) is the indeterminate \<open>lastRemote_\<close> of a connection that has received nothing.
\<close>

record send_req =
  req_pc :: nat
  req_block :: nat
  req_bytes :: bytes
  req_dest :: "sockaddr option"

datatype task = TaskSend nat nat bytes int | TaskStart nat

record world =
  w_pcs :: "nat \<rightharpoonup> PeerConnection"
  w_streams :: "nat \<rightharpoonup> MediaStream"
  w_pool :: "task Pool"
  w_server :: Server
  w_blocks :: "nat set"
  w_next :: nat
  w_inflight :: "send_req list"
  w_sent :: "send_req list"
  w_timers :: "nat set"
  w_accepts :: "send_req \<Rightarrow> bool"

record env =
  env_hmac :: "bytes \<Rightarrow> bytes \<Rightarrow> bytes"
  env_stun_mem :: bytes
  env_fb_mem :: bytes
  env_fbc0 :: byte
  env_ssrc0 :: u32
  env_rtp0 :: RTPPacket
  env_now_ms :: u64
  env_now_us :: u64

definition IceTimeout :: u64 where "IceTimeout = 10000"

section \<open>Memory and objects\<close>

definition malloc :: "world \<Rightarrow> world \<times> nat" where
  "malloc w = (w\<lparr>w_blocks := insert (w_next w) (w_blocks w), w_next := w_next w + 1\<rparr>, w_next w)"

definition free :: "nat \<Rightarrow> world \<Rightarrow> world res" where
  "free b w = (if b \<in> w_blocks w then Inr (w\<lparr>w_blocks := w_blocks w - {b}\<rparr>) else Inl InvalidFree)"

definition use_block :: "nat \<Rightarrow> world \<Rightarrow> unit res" where
  "use_block b w = (if b \<in> w_blocks w then Inr () else Inl UseAfterFree)"

definition deref :: "('a \<rightharpoonup> 'b) \<Rightarrow> 'a \<Rightarrow> 'b res" where
  "deref m x = (case m x of None \<Rightarrow> Inl NullDeref | Some y \<Rightarrow> Inr y)"

definition upd_pc :: "nat \<Rightarrow> (PeerConnection \<Rightarrow> PeerConnection) \<Rightarrow> world \<Rightarrow> world" where
  "upd_pc pc f w = w\<lparr>w_pcs := (w_pcs w)(pc := map_option f (w_pcs w pc))\<rparr>"

section \<open>Sending\<close>

text \<open>
  \<open>uv_udp_send\<close>, whose result the program ignores. A refused request has no completion: neither
  it nor its block is ever freed.
\<close>

definition uv_udp_send :: "nat \<Rightarrow> nat \<Rightarrow> bytes \<Rightarrow> sockaddr option \<Rightarrow> world \<Rightarrow> world" where
  "uv_udp_send pc b data dest w =
     (let r = \<lparr>req_pc = pc, req_block = b, req_bytes = data, req_dest = dest\<rparr> in
      w\<lparr>w_inflight := (if w_accepts w r then w_inflight w @ [r] else w_inflight w), w_sent := w_sent w @ [r]\<rparr>)"

definition sendData :: "nat \<Rightarrow> nat \<Rightarrow> bytes \<Rightarrow> int \<Rightarrow> world \<Rightarrow> world res" where
  "sendData pc b data sz w =
     bindr (deref (w_pcs w) pc) (\<lambda>self.
     bindr (use_block b w) (\<lambda>_.
     bindr (rd_bytes data 0 (nat sz)) (\<lambda>bs.
     Inr (uv_udp_send pc b bs (pc_lastRemote self) w))))"

text \<open>The completion of the \<open>k\<close>-th request that is in flight.\<close>

definition send_u :: "nat \<Rightarrow> world \<Rightarrow> world res" where
  "send_u k w = (if k < length (w_inflight w)
     then let req = w_inflight w ! k in
          free (req_block req) (w\<lparr>w_inflight := take k (w_inflight w) @ drop (k + 1) (w_inflight w)\<rparr>)
     else Inr w)"

definition OnMediaData :: "nat \<Rightarrow> nat \<times> RTPPacket \<Rightarrow> world \<Rightarrow> world res" where
  "OnMediaData pc bp w =
     bindr (deref (w_pcs w) pc) (\<lambda>self.
     Inr (w\<lparr>w_pool := Async (w_pool w) (pc_loop self) (TaskSend pc (fst bp) (rtp_data (snd bp)) (rtp_size (snd bp)))\<rparr>))"

text \<open>
  The functions that are posted: sending, and binding the socket and starting the timer. The
  loop keeps a pointer to a timer that has been started: \<open>w_timers\<close> are the connections whose
  ICE timer is armed.
\<close>

definition Start_posted :: "nat \<Rightarrow> world \<Rightarrow> world res" where
  [simp]: "Start_posted pc w = bindr (deref (w_pcs w) pc) (\<lambda>_.
     Inr ((upd_pc pc (\<lambda>self. self\<lparr>pc_started := True\<rparr>) w)\<lparr>w_timers := insert pc (w_timers w)\<rparr>))"

fun run_task :: "task \<Rightarrow> world \<Rightarrow> world res" where
  "run_task (TaskSend pc b data sz) w = sendData pc b data sz w"
| "run_task (TaskStart pc) w = Start_posted pc w"

definition loop_run :: "nat \<Rightarrow> nat \<Rightarrow> world \<Rightarrow> world res" where
  "loop_run loop k w = (case async_cb (w_pool w) loop k of None \<Rightarrow> Inr w
     | Some (t, pool) \<Rightarrow> run_task t (w\<lparr>w_pool := pool\<rparr>))"

section \<open>Receiving\<close>

definition handleIncomingRTCPData :: "env \<Rightarrow> nat \<Rightarrow> bytes \<Rightarrow> int \<Rightarrow> world \<Rightarrow> world res" where
  "handleIncomingRTCPData env pc data sz w =
     bindr (deref (w_pcs w) pc) (\<lambda>self.
     bindr (RTCPPacket_Parse (env_ssrc0 env) data sz) (\<lambda>(cnt, packets).
     if packets = [] then Inr w
     else case pc_sessionManager self of None \<Rightarrow> Inl NullDeref
       | Some sm \<Rightarrow> Inr (upd_pc pc (\<lambda>self. self\<lparr>pc_sessionManager := Some (foldl OnRecvRTCP sm packets)\<rparr>) w)))"

definition sink_alive :: "world \<Rightarrow> nat \<Rightarrow> bool" where
  "sink_alive w pc \<longleftrightarrow> w_pcs w pc \<noteq> None"

definition handleIncomingRTPData :: "env \<Rightarrow> nat \<Rightarrow> nat \<Rightarrow> bytes \<Rightarrow> int \<Rightarrow> world \<Rightarrow> world res" where
  "handleIncomingRTPData env pc b data sz w =
     bindr (deref (w_pcs w) pc) (\<lambda>self.
     bindr (RTPPacket_Parse (RTPPacket_new (env_rtp0 env) (env_now_ms env)) data sz) (\<lambda>(packet, _).
     case pc_sessionManager self of None \<Rightarrow> Inl NullDeref
     | Some sm \<Rightarrow>
       bindr (OnRecvRTP (env_fb_mem env) (env_fbc0 env) (env_ssrc0 env) (sink_alive w pc) (env_now_us env) sm packet) (\<lambda>feedback.
       bindr (case feedback of None \<Rightarrow> Inr w
              | Some (fb, n) \<Rightarrow> let (w, fb_block) = malloc w in sendData pc fb_block fb n w) (\<lambda>w.
       case pc_remoteStream self of None \<Rightarrow> Inl NullDeref
       | Some sid \<Rightarrow>
         bindr (deref (w_streams w) sid) (\<lambda>stream.
         MediaStream_OnRTP sink_alive OnMediaData stream (b, packet) w)))))"

definition OnSocketData :: "env \<Rightarrow> nat \<Rightarrow> nat \<Rightarrow> bytes \<Rightarrow> int \<Rightarrow> sockaddr \<Rightarrow> world \<Rightarrow> world res" where
  "OnSocketData env pc b data sz rmtSock w =
     bindr (deref (w_pcs w) pc) (\<lambda>_.
     let w = upd_pc pc (\<lambda>self. self\<lparr>pc_lastRemote := Some rmtSock, pc_lastPacketRecvTimeMS := env_now_ms env\<rparr>) w in
     bindr (deref (w_pcs w) pc) (\<lambda>self.
     bindr (IsStun data sz) (\<lambda>stun.
     if stun
     then bindr (StunPacket_Parse data sz) (\<lambda>p.
       case p of None \<Rightarrow> Inl NullDeref
       | Some p \<Rightarrow>
         let q = MakeResponse p; (w, reply_block) = malloc w in
         bindr (StunPacket_Serialize (env_hmac env) (env_stun_mem env) q (pc_localPassword self)) (\<lambda>(reply, n).
         bindr (rd_bytes reply 0 n) (\<lambda>bs.
         Inr (uv_udp_send pc reply_block bs (pc_lastRemote self) w))))
     else bindr (IsRTCP data sz) (\<lambda>rtcp.
       if rtcp then handleIncomingRTCPData env pc data sz w
       else handleIncomingRTPData env pc b data sz w))))"

text \<open>The receive callback; \<open>b\<close> is the block that \<open>buf_alloc\<close> allocated for this read.\<close>

definition read_u :: "env \<Rightarrow> nat \<Rightarrow> int \<Rightarrow> nat \<Rightarrow> bytes \<Rightarrow> sockaddr option \<Rightarrow> world \<Rightarrow> world res" where
  "read_u env pc nread b buf addr w =
     bindr (if 0 < nread \<and> w_pcs w pc \<noteq> None
            then case addr of None \<Rightarrow> Inl NullDeref | Some rmt \<Rightarrow> OnSocketData env pc b buf nread rmt w
            else Inr w) (\<lambda>w.
     if nread = 0 \<and> addr = None then free b w else Inr w)"

section \<open>Life cycle\<close>

text \<open>
  The constructor; \<open>uuid1\<close> \dots \<open>uuid3\<close> are the results of \<open>uuid()\<close>. The port counter of the
  server is truncated to 16 bits.
\<close>

definition PeerConnection_new :: "nat \<Rightarrow> string \<Rightarrow> string \<Rightarrow> string \<Rightarrow> world \<Rightarrow> world" where
  "PeerConnection_new pc uuid1 uuid2 uuid3 w =
     (let (pool, loop) = GetLoop (w_pool w); (server, port) = GetPort (w_server w) in
      w\<lparr>w_pool := pool, w_server := server,
        w_pcs := (w_pcs w)(pc \<mapsto>
          \<lparr>pc_sessionManager = None, pc_id = uuid3, pc_loop = loop, pc_callback = False, pc_localStream = None,
           pc_remoteStream = None, pc_localUsername = randomID uuid1, pc_localPassword = randomID uuid2,
           pc_remoteUsername = [], pc_remotePassword = [], pc_lastPacketRecvTimeMS = 0, pc_port = ucast port,
           pc_lastRemote = None, pc_started = False\<rparr>)\<rparr>)"

definition PeerConnection_delete :: "nat \<Rightarrow> world \<Rightarrow> world res" where
  "PeerConnection_delete pc w =
     bindr (deref (w_pcs w) pc) (\<lambda>self.
     bindr (case pc_localStream self of None \<Rightarrow> Inr w
            | Some sid \<Rightarrow> bindr (deref (w_streams w) sid) (\<lambda>stream.
                Inr (w\<lparr>w_streams := (w_streams w)(sid \<mapsto> RemoveSink stream (pc_id self))\<rparr>))) (\<lambda>w.
     Inr (w\<lparr>w_pcs := (w_pcs w)(pc := None)\<rparr>)))"

definition AddStream :: "nat \<Rightarrow> nat \<Rightarrow> world \<Rightarrow> world res" where
  "AddStream pc sid w =
     bindr (deref (w_pcs w) pc) (\<lambda>self.
     bindr (deref (w_streams w) sid) (\<lambda>stream.
     let w = upd_pc pc (\<lambda>self. self\<lparr>pc_localStream := Some sid\<rparr>) w in
     Inr (w\<lparr>w_streams := (w_streams w)(sid \<mapsto> AddSink stream (pc_id self) pc)\<rparr>)))"

definition AddRemoteStreamListener :: "nat \<Rightarrow> world \<Rightarrow> world" where
  "AddRemoteStreamListener pc w = upd_pc pc (\<lambda>self. self\<lparr>pc_callback := True\<rparr>) w"

definition Start :: "nat \<Rightarrow> world \<Rightarrow> world res" where
  "Start pc w = bindr (deref (w_pcs w) pc) (\<lambda>self.
     Inr (w\<lparr>w_pool := Async (w_pool w) (pc_loop self) (TaskStart pc)\<rparr>))"

definition Destroy :: "nat \<Rightarrow> world \<Rightarrow> world res" where
  "Destroy pc w = bindr (deref (w_pcs w) pc) (\<lambda>self.
     Inr (w\<lparr>w_server := RemovePC (w_server w) (pc_localUsername self) (pc_remoteUsername self)\<rparr>))"

definition SetRemoteSdp :: "nat \<Rightarrow> world \<Rightarrow> world res" where
  "SetRemoteSdp pc w = bindr (deref (w_pcs w) pc) (\<lambda>self.
     Inr (w\<lparr>w_server := AddPC (w_server w) (pc_localUsername self) (pc_remoteUsername self) pc\<rparr>))"

text \<open>\<open>CreateOffer\<close> only creates the session manager and returns an empty string.\<close>

definition CreateOffer :: "u64 \<Rightarrow> nat \<Rightarrow> world \<Rightarrow> (world \<times> string) res" where
  "CreateOffer now pc w = bindr (deref (w_pcs w) pc) (\<lambda>_.
     Inr (upd_pc pc (\<lambda>self. self\<lparr>pc_sessionManager := Some (RTPSessionManager_new now)\<rparr>) w, ''''))"

text \<open>\<open>OnIceTimer\<close>; the second component tells whether the time-out is reported.\<close>

definition OnIceTimer :: "u64 \<Rightarrow> nat \<Rightarrow> world \<Rightarrow> (world \<times> bool) res" where
  "OnIceTimer now pc w =
     bindr (deref (w_pcs w) pc) (\<lambda>self.
     if pc_lastPacketRecvTimeMS self = 0
     then Inr (upd_pc pc (\<lambda>self. self\<lparr>pc_lastPacketRecvTimeMS := now\<rparr>) w, False)
     else Inr (w, now - pc_lastPacketRecvTimeMS self > IceTimeout))"

text \<open>
  The expiry of an armed timer. The handle is a member of the connection: once the connection
  is destroyed, reading its \<open>data\<close> is an access to an object that no longer exists.
\<close>

definition ontimer :: "u64 \<Rightarrow> nat \<Rightarrow> world \<Rightarrow> (world \<times> bool) res" where
  "ontimer now pc w = (case w_pcs w pc of None \<Rightarrow> Inl UseAfterFree | Some _ \<Rightarrow> OnIceTimer now pc w)"

section \<open>Well-formed states\<close>

lemma deref_simps [simp]: "m x = Some y \<Longrightarrow> deref m x = Inr y" "m x = None \<Longrightarrow> deref m x = Inl NullDeref"
  by (simp_all add: deref_def)

lemma deref_eq_Inr [simp]: "deref m x = Inr y \<longleftrightarrow> m x = Some y"
  by (simp add: deref_def split: option.splits)

lemma upd_pc_fields [simp]:
  "w_streams (upd_pc pc f w) = w_streams w" "w_pool (upd_pc pc f w) = w_pool w" "w_server (upd_pc pc f w) = w_server w"
  "w_blocks (upd_pc pc f w) = w_blocks w" "w_next (upd_pc pc f w) = w_next w" "w_inflight (upd_pc pc f w) = w_inflight w"
  "w_sent (upd_pc pc f w) = w_sent w" "w_timers (upd_pc pc f w) = w_timers w" "w_accepts (upd_pc pc f w) = w_accepts w"
  by (simp_all add: upd_pc_def)

lemma w_pcs_upd_pc: "w_pcs (upd_pc pc f w) x = (if x = pc then map_option f (w_pcs w pc) else w_pcs w x)"
  by (simp add: upd_pc_def)

fun task_pc :: "task \<Rightarrow> nat" where
  "task_pc (TaskSend pc b data sz) = pc"
| "task_pc (TaskStart pc) = pc"

fun task_ok :: "task \<Rightarrow> bool" where
  "task_ok (TaskSend pc b data sz) \<longleftrightarrow> nat sz \<le> length data"
| "task_ok (TaskStart pc) \<longleftrightarrow> True"

definition pc_ok :: "world \<Rightarrow> PeerConnection \<Rightarrow> bool" where
  "pc_ok w self \<longleftrightarrow> pc_loop self < LOOP_NUM \<and>
     (\<forall>sid. pc_localStream self = Some sid \<or> pc_remoteStream self = Some sid \<longrightarrow> w_streams w sid \<noteq> None)"

text \<open>
  The invariant of the shared state: the pool has its four loops, every connection is
  attached to one of them and refers to existing streams, names of sinks are unique, and
  whatever holds a \<open>shared_ptr\<close> to a connection (a posted function, the server's table)
  holds one that has not been destroyed.
\<close>

definition world_ok :: "world \<Rightarrow> bool" where
  "world_ok w \<longleftrightarrow> pool_ok (w_pool w) \<and>
     (\<forall>pc self. w_pcs w pc = Some self \<longrightarrow> pc_ok w self) \<and>
     (\<forall>sid s. w_streams w sid = Some s \<longrightarrow> stream_ok s) \<and>
     (\<forall>t \<in># pending (w_pool w). w_pcs w (task_pc t) \<noteq> None \<and> task_ok t) \<and>
     (\<forall>n pc. srv_pcTable (w_server w) n = Some pc \<longrightarrow> w_pcs w pc \<noteq> None) \<and>
     (\<forall>b \<in> w_blocks w. b < w_next w)"

text \<open>A posted function that will send from a block finds it allocated.\<close>

fun task_live :: "world \<Rightarrow> task \<Rightarrow> bool" where
  "task_live w (TaskSend pc b data sz) \<longleftrightarrow> b \<in> w_blocks w"
| "task_live w (TaskStart pc) \<longleftrightarrow> True"

definition live_ok :: "world \<Rightarrow> bool" where
  "live_ok w \<longleftrightarrow> world_ok w \<and> (\<forall>t \<in># pending (w_pool w). task_live w t)"

lemma live_ok_world: "live_ok w \<Longrightarrow> world_ok w"
  by (simp add: live_ok_def)

lemma task_live_mono: "w_blocks w \<subseteq> w_blocks w' \<Longrightarrow> task_live w t \<Longrightarrow> task_live w' t"
  by (cases t) auto

section \<open>Running posted functions\<close>

text \<open>What is handed to libuv and accepted is in flight until its completion.\<close>

definition sends :: "world \<Rightarrow> world \<Rightarrow> bool" where
  "sends w w' \<longleftrightarrow> w_accepts w' = w_accepts w \<and>
     (\<exists>rs. w_sent w' = w_sent w @ rs \<and> w_inflight w' = w_inflight w @ filter (w_accepts w) rs)"

lemma sends_refl: "w_sent w' = w_sent w \<Longrightarrow> w_inflight w' = w_inflight w \<Longrightarrow> w_accepts w' = w_accepts w \<Longrightarrow> sends w w'"
  by (simp add: sends_def)

lemma sends_trans: "sends w w1 \<Longrightarrow> sends w1 w2 \<Longrightarrow> sends w w2"
  by (auto simp: sends_def)

definition task_reqs :: "world \<Rightarrow> task \<Rightarrow> send_req multiset" where
  "task_reqs w t = (case t of
     TaskSend pc b data sz \<Rightarrow> (case w_pcs w pc of None \<Rightarrow> {#}
       | Some self \<Rightarrow> {#\<lparr>req_pc = pc, req_block = b, req_bytes = take (nat sz) data, req_dest = pc_lastRemote self\<rparr>#})
   | TaskStart pc \<Rightarrow> {#})"

text \<open>All the requests made so far or still to be made by posted functions.\<close>

definition total_reqs :: "world \<Rightarrow> send_req multiset" where
  "total_reqs w = mset (w_sent w) + (\<Sum>t \<in># pending (w_pool w). task_reqs w t)"

lemma task_reqs_cong: "(\<And>pc. map_option pc_lastRemote (w_pcs w pc) = map_option pc_lastRemote (w_pcs w' pc)) \<Longrightarrow> task_reqs w t = task_reqs w' t"
proof -
  assume same: "\<And>pc. map_option pc_lastRemote (w_pcs w pc) = map_option pc_lastRemote (w_pcs w' pc)"
  show ?thesis
  proof (cases t)
    case (TaskSend pc b data sz)
    then show ?thesis using same [of pc] by (cases "w_pcs w pc"; cases "w_pcs w' pc") (auto simp: task_reqs_def)
  qed (simp add: task_reqs_def)
qed

lemma run_task_dead:
  assumes "w_pcs w (task_pc t) = Some self" "\<not> task_live w t"
  shows "run_task t w = Inl UseAfterFree"
  using assms by (cases t) (simp_all add: sendData_def use_block_def)

lemma run_task_eq:
  assumes "w_pcs w (task_pc t) = Some self" "task_ok t" "task_live w t"
  shows "\<exists>w'. run_task t w = Inr w' \<and> mset (w_sent w') = mset (w_sent w) + task_reqs w t \<and>
    (\<forall>pc. map_option pc_lastRemote (w_pcs w' pc) = map_option pc_lastRemote (w_pcs w pc)) \<and>
    w_pool w' = w_pool w \<and> w_blocks w' = w_blocks w \<and> (world_ok w \<longrightarrow> world_ok w') \<and> sends w w'"
proof (cases t)
  case (TaskSend pc b data sz)
  then show ?thesis
    using assms by (auto simp: sendData_def use_block_def uv_udp_send_def task_reqs_def Let_def world_ok_def pc_ok_def sends_def)
next
  case (TaskStart pc)
  let ?w = "(upd_pc pc (\<lambda>self. self\<lparr>pc_started := True\<rparr>) w)\<lparr>w_timers := insert pc (w_timers w)\<rparr>"
  have "pc_ok ?w s" if "world_ok w" "w_pcs ?w x = Some s" for x s
    using that by (auto simp: world_ok_def pc_ok_def w_pcs_upd_pc split: if_splits)
  moreover have "w_pcs ?w x = None \<longleftrightarrow> w_pcs w x = None" for x by (simp add: w_pcs_upd_pc)
  ultimately have "world_ok w \<Longrightarrow> world_ok ?w" by (simp add: world_ok_def)
  moreover have "map_option pc_lastRemote (w_pcs ?w x) = map_option pc_lastRemote (w_pcs w x)" for x
    by (simp add: w_pcs_upd_pc option.map_comp comp_def)
  ultimately show ?thesis using assms TaskStart by (simp add: task_reqs_def sends_refl)
qed

lemma world_ok_take:
  assumes "world_ok w" "async_cb (w_pool w) l k = Some (t, pool)"
  shows "world_ok (w\<lparr>w_pool := pool\<rparr>)" "w_pcs w (task_pc t) \<noteq> None" "task_ok t"
  using assms async_cb_pending [OF assms(2)] by (auto simp: world_ok_def pc_ok_def)

lemma loop_run_eq:
  assumes w: "live_ok w"
  shows "\<exists>w'. loop_run l k w = Inr w' \<and> live_ok w' \<and> total_reqs w' = total_reqs w \<and> sends w w' \<and>
    (async_cb (w_pool w) l k \<noteq> None \<longrightarrow> size (pending (w_pool w)) = Suc (size (pending (w_pool w'))))"
proof (cases "async_cb (w_pool w) l k")
  case (Some tp)
  obtain t pool where tp: "async_cb (w_pool w) l k = Some (t, pool)" using Some by (cases tp) auto
  note pend = async_cb_pending [OF tp] and ok = world_ok_take [OF live_ok_world [OF w] tp]
  let ?w = "w\<lparr>w_pool := pool\<rparr>"
  obtain self where self: "w_pcs ?w (task_pc t) = Some self" using ok(2) by auto
  have live: "task_live w t'" if "t' \<in># pending (w_pool w)" for t' using w that by (simp add: live_ok_def)
  have "task_live w t" by (rule live) (simp add: pend(1))
  then have "task_live ?w t" by (rule task_live_mono [rotated]) simp
  from run_task_eq [OF self ok(3) this] ok(1) obtain w' where w': "run_task t ?w = Inr w'" "mset (w_sent w') = mset (w_sent w) + task_reqs ?w t"
      "\<forall>pc. map_option pc_lastRemote (w_pcs w' pc) = map_option pc_lastRemote (w_pcs ?w pc)" "w_pool w' = pool" "w_blocks w' = w_blocks w"
      "world_ok w'" "sends ?w w'"
    by auto
  have same: "task_reqs w' t' = task_reqs w t'" "task_reqs ?w t' = task_reqs w t'" for t'
    using w'(3) by (intro task_reqs_cong; simp)+
  have "total_reqs w' = total_reqs w"
    unfolding total_reqs_def w'(2,4) pend(1) same by (simp add: ac_simps)
  moreover have "live_ok w'"
    unfolding live_ok_def w'(4) using live pend(1) w'(5,6) by (auto intro: task_live_mono [of w])
  moreover have "sends w ?w" by (simp add: sends_refl)
  ultimately show ?thesis using w' tp pend(1) sends_trans by (simp add: loop_run_def)
qed (simp add: loop_run_def w sends_refl)

text \<open>Without the assumption on the blocks, the only fault is to send from a block that has been freed.\<close>

lemma loop_run_cases:
  assumes "world_ok w"
  shows "(\<exists>w'. loop_run l k w = Inr w' \<and> world_ok w') \<or> loop_run l k w = Inl UseAfterFree"
proof (cases "async_cb (w_pool w) l k")
  case (Some tp)
  obtain t pool where tp: "async_cb (w_pool w) l k = Some (t, pool)" using Some by (cases tp) auto
  note ok = world_ok_take [OF assms tp]
  obtain self where "w_pcs (w\<lparr>w_pool := pool\<rparr>) (task_pc t) = Some self" using ok(2) by auto
  from run_task_eq [OF this ok(3)] run_task_dead [OF this] ok(1) show ?thesis
    by (cases "task_live (w\<lparr>w_pool := pool\<rparr>) t") (auto simp: loop_run_def tp)
qed (simp add: loop_run_def assms)

fun run_schedule :: "(nat \<times> nat) list \<Rightarrow> world \<Rightarrow> world res" where
  "run_schedule [] w = Inr w"
| "run_schedule ((l, k) # ks) w = bindr (loop_run l k w) (run_schedule ks)"

lemma run_schedule_eq:
  "live_ok w \<Longrightarrow> \<exists>w'. run_schedule ks w = Inr w' \<and> live_ok w' \<and> total_reqs w' = total_reqs w \<and> sends w w'"
proof (induction ks arbitrary: w)
  case (Cons lk ks)
  obtain l k where lk: "lk = (l, k)" by (cases lk)
  obtain w1 where w1: "loop_run l k w = Inr w1" "live_ok w1" "total_reqs w1 = total_reqs w" "sends w w1"
    using loop_run_eq [OF Cons.prems] by blast
  obtain w2 where "run_schedule ks w1 = Inr w2" "live_ok w2" "total_reqs w2 = total_reqs w1" "sends w1 w2"
    using Cons.IH [OF w1(2)] by blast
  then show ?case using w1 sends_trans [of w w1 w2] by (simp add: lk)
qed (simp add: sends_refl)

lemma pending_handle: "pending p \<noteq> {#} \<Longrightarrow> \<exists>l. async_cb p l 0 \<noteq> None"
proof -
  assume "pending p \<noteq> {#}"
  then obtain q where "q \<in> set (pool_loops p)" "q \<noteq> []" by (auto simp: pending_def)
  then obtain l where "l < length (pool_loops p)" "pool_loops p ! l \<noteq> []" by (auto simp: in_set_conv_nth)
  then show ?thesis by (intro exI [of _ l]) (simp add: async_cb_def Let_def)
qed

text \<open>A loop that keeps running empties its queue: a schedule as long as the number of posted functions does.\<close>

lemma drain:
  "live_ok w \<Longrightarrow> \<exists>ks w'. length ks = size (pending (w_pool w)) \<and> run_schedule ks w = Inr w' \<and> pending (w_pool w') = {#}"
proof (induction "size (pending (w_pool w))" arbitrary: w)
  case (Suc n)
  then have "pending (w_pool w) \<noteq> {#}" by auto
  then obtain l where l: "async_cb (w_pool w) l 0 \<noteq> None" using pending_handle by blast
  obtain w1 where w1: "loop_run l 0 w = Inr w1" "live_ok w1" "size (pending (w_pool w)) = Suc (size (pending (w_pool w1)))"
    using loop_run_eq [OF Suc.prems, of l 0] l by blast
  then obtain ks w' where "length ks = size (pending (w_pool w1))" "run_schedule ks w1 = Inr w'" "pending (w_pool w') = {#}"
    using Suc.hyps(1) [of w1] Suc.hyps(2) by auto
  then show ?case using w1 Suc.hyps(2) by (intro exI [of _ "(l, 0) # ks"] exI [of _ w']) simp
qed auto

lemma total_reqs_drained: "pending (w_pool w) = {#} \<Longrightarrow> mset (w_sent w) = total_reqs w"
  by (simp add: total_reqs_def)

section \<open>Forwarding\<close>

definition live_sinks :: "world \<Rightarrow> MediaStream \<Rightarrow> nat list" where
  "live_sinks w s = filter (sink_alive w) (map snd (ms_sinks s))"

lemma OnRTP_loop_eq:
  assumes "pool_ok (w_pool w)" "\<forall>pc self. w_pcs w pc = Some self \<longrightarrow> pc_loop self < LOOP_NUM"
  shows "\<exists>pool. OnRTP_loop sink_alive OnMediaData (b, p) ss w = Inr (w\<lparr>w_pool := pool\<rparr>) \<and> pool_ok pool \<and>
    pending pool = pending (w_pool w) +
      mset (map (\<lambda>s. TaskSend s b (rtp_data p) (rtp_size p)) (filter (sink_alive w) (map snd ss)))"
  using assms
proof (induction ss arbitrary: w)
  case Nil
  then show ?case by (intro exI [of _ "w_pool w"]) simp
next
  case (Cons e ss)
  obtain n s where e: "e = (n, s)" by (cases e)
  show ?case
  proof (cases "w_pcs w s")
    case None
    then show ?thesis using Cons.IH [OF Cons.prems] by (simp add: e sink_alive_def)
  next
    case (Some self)
    let ?t = "TaskSend s b (rtp_data p) (rtp_size p)"
    let ?w = "w\<lparr>w_pool := Async (w_pool w) (pc_loop self) ?t\<rparr>"
    have l: "pc_loop self < LOOP_NUM" using Some Cons.prems(2) by blast
    have "sink_alive ?w = sink_alive w" by (rule ext) (simp add: sink_alive_def)
    then obtain pool where "OnRTP_loop sink_alive OnMediaData (b, p) ss ?w = Inr (w\<lparr>w_pool := pool\<rparr>)" "pool_ok pool"
        "pending pool = pending (w_pool ?w) + mset (map (\<lambda>s. TaskSend s b (rtp_data p) (rtp_size p)) (filter (sink_alive w) (map snd ss)))"
      using Cons.IH [of ?w] Cons.prems by auto
    moreover have "sink_alive w s" "OnMediaData s (b, p) w = Inr ?w" using Some by (simp_all add: sink_alive_def OnMediaData_def)
    ultimately show ?thesis
      using pending_Async [OF Cons.prems(1) l, of ?t] by (intro exI [of _ pool]) (simp add: e)
  qed
qed

definition forward_req :: "world \<Rightarrow> nat \<Rightarrow> bytes \<Rightarrow> nat \<Rightarrow> send_req" where
  "forward_req w b data s = \<lparr>req_pc = s, req_block = b, req_bytes = data,
     req_dest = (case w_pcs w s of None \<Rightarrow> None | Some self \<Rightarrow> pc_lastRemote self)\<rparr>"

lemma OnRTP_reqs:
  assumes w: "live_ok w" and b: "b \<in> w_blocks w" and p: "rtp_data p = data" "rtp_size p = int (length data)"
  shows "\<exists>w'. MediaStream_OnRTP sink_alive OnMediaData s (b, p) w = Inr w' \<and> live_ok w' \<and>
    total_reqs w' = total_reqs w + mset (map (forward_req w b data) (live_sinks w s)) \<and>
    w_pcs w' = w_pcs w \<and> sends w w'"
proof -
  let ?ts = "map (\<lambda>s. TaskSend s b data (int (length data))) (live_sinks w s)"
  have "pool_ok (w_pool w)" "\<forall>pc self. w_pcs w pc = Some self \<longrightarrow> pc_loop self < LOOP_NUM"
    using w by (auto simp: live_ok_def world_ok_def pc_ok_def)
  from OnRTP_loop_eq [OF this] p obtain pool where
    pool: "MediaStream_OnRTP sink_alive OnMediaData s (b, p) w = Inr (w\<lparr>w_pool := pool\<rparr>)" "pool_ok pool"
      "pending pool = pending (w_pool w) + mset ?ts"
    unfolding MediaStream_OnRTP_def live_sinks_def by fastforce
  let ?w = "w\<lparr>w_pool := pool\<rparr>"
  have same: "task_reqs ?w t = task_reqs w t" for t by (rule task_reqs_cong) simp
  have "w_pcs w (task_pc t) \<noteq> None \<and> task_ok t \<and> task_live ?w t" if "t \<in># mset ?ts" for t
    using that b by (auto simp: live_sinks_def sink_alive_def)
  moreover have "task_live ?w t" if "t \<in># pending (w_pool w)" for t
    using w that by (auto simp: live_ok_def intro: task_live_mono [of w])
  ultimately have "live_ok ?w" using w pool(2,3) by (auto simp: live_ok_def world_ok_def pc_ok_def)
  moreover have "(\<Sum>t \<in># mset (map (\<lambda>s. TaskSend s b data (int (length data))) ss). task_reqs w t) = mset (map (forward_req w b data) ss)"
    if "\<forall>s \<in> set ss. sink_alive w s" for ss
    using that by (induction ss) (auto simp: task_reqs_def forward_req_def sink_alive_def)
  from this [of "live_sinks w s"] have "(\<Sum>t \<in># mset ?ts. task_reqs w t) = mset (map (forward_req w b data) (live_sinks w s))"
    unfolding live_sinks_def by auto
  then have "total_reqs ?w = total_reqs w + mset (map (forward_req w b data) (live_sinks w s))"
    by (simp add: total_reqs_def same pool(3))
  ultimately show ?thesis using pool(1) by (simp add: sends_refl)
qed

text \<open>The state after the address and the time of a datagram have been recorded.\<close>

definition note_remote :: "env \<Rightarrow> nat \<Rightarrow> sockaddr \<Rightarrow> world \<Rightarrow> world" where
  "note_remote env pc rmt w = upd_pc pc (\<lambda>self. self\<lparr>pc_lastRemote := Some rmt, pc_lastPacketRecvTimeMS := env_now_ms env\<rparr>) w"

lemma world_ok_note: "world_ok w \<Longrightarrow> world_ok (note_remote env pc rmt w)"
proof -
  assume w: "world_ok w"
  have "pc_ok (note_remote env pc rmt w) s" if "w_pcs (note_remote env pc rmt w) x = Some s" for x s
    using that w by (auto simp: world_ok_def pc_ok_def note_remote_def w_pcs_upd_pc split: if_splits)
  moreover have "w_pcs (note_remote env pc rmt w) x = None \<longleftrightarrow> w_pcs w x = None" for x
    by (simp add: note_remote_def w_pcs_upd_pc)
  ultimately show ?thesis using w by (simp add: world_ok_def note_remote_def)
qed

lemma live_ok_note: "live_ok w \<Longrightarrow> live_ok (note_remote env pc rmt w)"
  unfolding live_ok_def by (auto simp: note_remote_def world_ok_note [unfolded note_remote_def] intro: task_live_mono [of w])

lemma live_sinks_note [simp]: "live_sinks (note_remote env pc rmt w) s = live_sinks w s"
proof -
  have "sink_alive (note_remote env pc rmt w) = sink_alive w"
    by (rule ext) (simp add: sink_alive_def note_remote_def w_pcs_upd_pc)
  then show ?thesis by (simp add: live_sinks_def)
qed

lemma live_ok_send:
  assumes "live_ok w" "w_pcs w pc = Some self" "nat n \<le> length fb"
  shows "\<exists>w'. (let (w, fb_block) = malloc w in sendData pc fb_block fb n w) = Inr w' \<and> live_ok w' \<and>
    total_reqs w' = add_mset \<lparr>req_pc = pc, req_block = w_next w, req_bytes = take (nat n) fb, req_dest = pc_lastRemote self\<rparr> (total_reqs w) \<and>
    w_pcs w' = w_pcs w \<and> w_streams w' = w_streams w \<and> w_blocks w \<subseteq> w_blocks w' \<and> sends w w'"
proof -
  let ?r = "\<lparr>req_pc = pc, req_block = w_next w, req_bytes = take (nat n) fb, req_dest = pc_lastRemote self\<rparr>"
  let ?w = "w\<lparr>w_blocks := insert (w_next w) (w_blocks w), w_next := w_next w + 1,
      w_inflight := (if w_accepts w ?r then w_inflight w @ [?r] else w_inflight w), w_sent := w_sent w @ [?r]\<rparr>"
  have "(let (w, fb_block) = malloc w in sendData pc fb_block fb n w) = Inr ?w"
    using assms by (simp add: malloc_def sendData_def use_block_def uv_udp_send_def Let_def)
  moreover have "world_ok ?w" using assms(1) by (auto simp: live_ok_def world_ok_def pc_ok_def)
  then have "live_ok ?w" using assms(1) by (auto simp: live_ok_def intro: task_live_mono [of w])
  moreover have "task_reqs ?w t = task_reqs w t" for t by (rule task_reqs_cong) simp
  then have "total_reqs ?w = add_mset ?r (total_reqs w)" by (simp add: total_reqs_def)
  ultimately show ?thesis by (intro exI [of _ ?w]) (auto simp: sends_def)
qed

text \<open>The requests for a feedback packet that the session manager produced.\<close>

definition feedback_reqs :: "world \<Rightarrow> nat \<Rightarrow> PeerConnection \<Rightarrow> (bytes \<times> int) option \<Rightarrow> send_req multiset" where
  "feedback_reqs w pc self feedback = (case feedback of None \<Rightarrow> {#}
     | Some (fb, n) \<Rightarrow> {#\<lparr>req_pc = pc, req_block = w_next w, req_bytes = take (nat n) fb, req_dest = pc_lastRemote self\<rparr>#})"

lemma handle_RTP_eq:
  assumes w: "live_ok w" and b: "b \<in> w_blocks w" and pc: "w_pcs w pc = Some self" "pc_sessionManager self = Some sm" "pc_remoteStream self = Some sid"
    and s: "w_streams w sid = Some s" and len: "length data < 2 ^ 31"
    and parse: "RTPPacket_Parse (RTPPacket_new (env_rtp0 env) (env_now_ms env)) data (int (length data)) = Inr (p, ok)"
    and fb: "OnRecvRTP (env_fb_mem env) (env_fbc0 env) (env_ssrc0 env) True (env_now_us env) sm p = Inr feedback"
      "\<And>fb n. feedback = Some (fb, n) \<Longrightarrow> nat n \<le> length fb"
  shows "\<exists>w'. handleIncomingRTPData env pc b data (int (length data)) w = Inr w' \<and> live_ok w' \<and>
    total_reqs w' = total_reqs w + feedback_reqs w pc self feedback + mset (map (forward_req w b data) (live_sinks w s)) \<and>
    sends w w'"
proof -
  have p: "rtp_data p = data" "rtp_size p = int (length data)"
    using RTPPacket_Parse_total [of "int (length data)" data "RTPPacket_new (env_rtp0 env) (env_now_ms env)"] len parse by auto
  have "\<exists>w1. (case feedback of None \<Rightarrow> Inr w
      | Some (fb, n) \<Rightarrow> let (w, fb_block) = malloc w in sendData pc fb_block fb n w) = Inr w1 \<and> live_ok w1 \<and>
      total_reqs w1 = total_reqs w + feedback_reqs w pc self feedback \<and> w_pcs w1 = w_pcs w \<and> w_streams w1 = w_streams w \<and> w_blocks w \<subseteq> w_blocks w1 \<and> sends w w1"
  proof (cases feedback)
    case (Some x)
    obtain fb' n where x: "x = (fb', n)" by (cases x)
    have "nat n \<le> length fb'" using fb(2) Some x by blast
    from live_ok_send [OF w pc(1) this] show ?thesis
      unfolding Some x feedback_reqs_def option.case prod.case by (metis union_mset_add_mset_right add.right_neutral)
  qed (simp add: w feedback_reqs_def sends_refl)
  then obtain w1 where w1: "(case feedback of None \<Rightarrow> Inr w
      | Some (fb, n) \<Rightarrow> let (w, fb_block) = malloc w in sendData pc fb_block fb n w) = Inr w1" "live_ok w1"
      "total_reqs w1 = total_reqs w + feedback_reqs w pc self feedback" "w_pcs w1 = w_pcs w" "w_streams w1 = w_streams w" "w_blocks w \<subseteq> w_blocks w1" "sends w w1"
    by blast
  have "sink_alive w1 = sink_alive w" by (rule ext) (simp add: sink_alive_def w1(4))
  then have same: "live_sinks w1 s = live_sinks w s" "forward_req w1 b data = forward_req w b data"
    using w1(4) by (auto simp: live_sinks_def forward_req_def intro!: ext)
  obtain w2 where w2: "MediaStream_OnRTP sink_alive OnMediaData s (b, p) w1 = Inr w2" "live_ok w2"
      "total_reqs w2 = total_reqs w1 + mset (map (forward_req w b data) (live_sinks w s))" "sends w1 w2"
    using OnRTP_reqs [OF w1(2) _ p, of b s] b w1(6) unfolding same by blast
  have alive: "sink_alive w pc = True" using pc(1) by (simp add: sink_alive_def)
  have "handleIncomingRTPData env pc b data (int (length data)) w = Inr w2"
    unfolding handleIncomingRTPData_def alive
    using pc s w1(5) w2(1) by (simp add: parse fb(1) w1(1))
  then show ?thesis using w2 w1(3,7) sends_trans [of w w1 w2] by simp
qed

section \<open>Completions\<close>

fun complete :: "nat list \<Rightarrow> world \<Rightarrow> world res" where
  "complete [] w = Inr w"
| "complete (k # ks) w = bindr (send_u k w) (complete ks)"

text \<open>A block that two requests in flight share can be freed only once.\<close>

definition stuck :: "nat \<Rightarrow> world \<Rightarrow> bool" where
  "stuck b w \<longleftrightarrow> (let n = length (filter (\<lambda>r. req_block r = b) (w_inflight w)) in 2 \<le> n \<or> 1 \<le> n \<and> b \<notin> w_blocks w)"

lemma send_u_stuck:
  assumes "stuck b w" "send_u k w = Inr w'"
  shows "stuck b w'"
proof (cases "k < length (w_inflight w)")
  case True
  let ?rs = "w_inflight w" let ?P = "\<lambda>r. req_block r = b"
  have split: "?rs = take k ?rs @ ?rs ! k # drop (k + 1) ?rs" using id_take_nth_drop [OF True] by simp
  have "length (filter ?P ?rs) = length (filter ?P (take k ?rs @ drop (k + 1) ?rs)) + (if ?P (?rs ! k) then 1 else 0)"
    by (subst split) simp
  then show ?thesis
    using assms True by (auto simp: stuck_def send_u_def free_def Let_def split: if_splits)
next
  case False
  then show ?thesis using assms by (simp add: send_u_def)
qed

lemma complete_stuck: "stuck b w \<Longrightarrow> complete ks w = Inr w' \<Longrightarrow> stuck b w'"
  by (induction ks arbitrary: w) (auto simp: bindr_eq_Inr dest: send_u_stuck)

section \<open>Properties\<close>

lemma OnSocketData_RTP:
  assumes "w_pcs w pc \<noteq> None" "IsStun data sz = Inr False" "IsRTCP data sz = Inr False"
  shows "OnSocketData env pc b data sz rmt w = handleIncomingRTPData env pc b data sz (note_remote env pc rmt w)"
proof -
  obtain self where "w_pcs w pc = Some self" using assms(1) by auto
  then show ?thesis using assms(2,3) by (simp add: OnSocketData_def Let_def note_remote_def w_pcs_upd_pc)
qed

text \<open>
  A datagram that asks for no feedback: the connection negotiated no transport-wide extension,
  or the packet has no number under it.
\<close>

definition no_feedback :: "env \<Rightarrow> RTPSessionManager \<Rightarrow> bytes \<Rightarrow> bool" where
  "no_feedback env sm data \<longleftrightarrow> (case GetExtensionId sm ExtTransportCC of None \<Rightarrow> True
     | Some i \<Rightarrow> (case RTPPacket_Parse (RTPPacket_new (env_rtp0 env) (env_now_ms env)) data (int (length data)) of
         Inl _ \<Rightarrow> False | Inr (p, _) \<Rightarrow> GetTransportCCNum p i = Inr None))"

lemma no_feedback_None [simp]: "GetExtensionId sm ExtTransportCC = None \<Longrightarrow> no_feedback env sm data"
  by (simp add: no_feedback_def)

lemma forwarded:
  assumes w: "live_ok w" and b: "b \<in> w_blocks w" and pc: "w_pcs w pc = Some self" "pc_sessionManager self = Some sm" "pc_remoteStream self = Some sid"
    and s: "w_streams w sid = Some s" and len: "length data < 2 ^ 31"
    and kind: "IsStun data (int (length data)) = Inr False" "IsRTCP data (int (length data)) = Inr False"
    and ext: "no_feedback env sm data"
  shows "\<exists>w1. OnSocketData env pc b data (int (length data)) rmt w = Inr w1 \<and> live_ok w1 \<and>
    total_reqs w1 = total_reqs (note_remote env pc rmt w) + mset (map (forward_req (note_remote env pc rmt w) b data) (live_sinks w s)) \<and>
    sends w w1"
proof -
  let ?w = "note_remote env pc rmt w"
  let ?self = "self\<lparr>pc_lastRemote := Some rmt, pc_lastPacketRecvTimeMS := env_now_ms env\<rparr>"
  have n: "w_pcs ?w pc = Some ?self" "w_streams ?w sid = Some s" using pc s by (simp_all add: note_remote_def w_pcs_upd_pc)
  have nb: "b \<in> w_blocks ?w" using b by (simp add: note_remote_def)
  obtain p ok where parse: "RTPPacket_Parse (RTPPacket_new (env_rtp0 env) (env_now_ms env)) data (int (length data)) = Inr (p, ok)"
    using RTPPacket_Parse_total [of "int (length data)" data] len by fastforce
  have "OnRecvRTP (env_fb_mem env) (env_fbc0 env) (env_ssrc0 env) True (env_now_us env) sm p = Inr None"
    using ext parse by (auto simp: no_feedback_def OnRecvRTP_def IncomingSession_AddPacket_def split: option.splits)
  from handle_RTP_eq [OF live_ok_note [OF w] nb n(1) _ _ n(2) len parse this] pc
  obtain w1 where "handleIncomingRTPData env pc b data (int (length data)) ?w = Inr w1" "live_ok w1"
      "total_reqs w1 = total_reqs ?w + mset (map (forward_req ?w b data) (live_sinks w s))" "sends ?w w1"
    by (auto simp: feedback_reqs_def)
  moreover have "sends w ?w" by (simp add: sends_refl note_remote_def)
  ultimately show ?thesis using pc(1) kind OnSocketData_RTP [of w pc data] sends_trans [of w ?w w1] by auto
qed

lemma completed_block_freed:
  assumes "world_ok w" "send_u c w = Inr w'" "c < length (w_inflight w)" "req_block (w_inflight w ! c) = b"
    "async_cb (w_pool w') l k = Some (TaskSend sink b d sz, pool)"
  shows "loop_run l k w' = Inl UseAfterFree"
proof -
  have w': "w_pcs w' = w_pcs w" "w_pool w' = w_pool w" "b \<notin> w_blocks w'"
    using assms(2-4) by (auto simp: send_u_def free_def Let_def split: if_splits)
  then obtain self where "w_pcs w' sink = Some self"
    using world_ok_take(2) [OF assms(1)] assms(5) by fastforce
  then show ?thesis using w'(3) assms(5) by (simp add: loop_run_def sendData_def use_block_def)
qed

lemma complete_two:
  assumes "length (w_inflight w) = 2" "stuck b w"
  shows "complete [0, 0] w = Inl InvalidFree"
proof (cases "complete [0, 0] w")
  case (Inl e)
  then show ?thesis by (auto simp: bindr_eq_Inl send_u_def free_def Let_def split: if_splits)
next
  case (Inr w')
  then have "w_inflight w' = []" using assms(1) by (auto simp: bindr_eq_Inr send_u_def free_def Let_def split: if_splits)
  then show ?thesis using complete_stuck [OF assms(2) Inr] by (simp add: stuck_def)
qed

text \<open>
  C5. Forwarding, for a packet that asks for no feedback (the connection negotiated no
  transport-wide extension or the packet carries no number under it; C1 is the other case):
  the datagram is posted to the loop of every sink that is alive. However the loops are
  scheduled, as long as no send completes, no posted function faults; there is a schedule that
  empties the queues, as long as the number of posted functions; and once they are empty, each
  live sink has handed the datagram to libuv, byte for byte and exactly once, addressed to its
  own \<open>lastRemote_\<close> (the last address it has received from, indeterminate before), and nothing
  else has been handed over but what was pending before. Of what was handed over, exactly what
  libuv accepts is in flight.
\<close>

theorem rtp_forwarded_to_sinks:
  assumes "live_ok w" and "b \<in> w_blocks w" and "w_pcs w pc = Some self" and "pc_sessionManager self = Some sm"
    and "pc_remoteStream self = Some sid" and "w_streams w sid = Some s" and "length data < 2 ^ 31"
    and "IsStun data (int (length data)) = Inr False" and "IsRTCP data (int (length data)) = Inr False"
    and "no_feedback env sm data"
  shows "\<exists>w1. OnSocketData env pc b data (int (length data)) rmt w = Inr w1 \<and>
    (\<forall>ks. \<exists>w2. run_schedule ks w1 = Inr w2 \<and> sends w w2 \<and> (pending (w_pool w2) = {#} \<longrightarrow> mset (w_sent w2) =
        total_reqs (note_remote env pc rmt w) +
        mset (map (forward_req (note_remote env pc rmt w) b data) (live_sinks w s)))) \<and>
    (\<exists>ks w2. length ks = size (pending (w_pool w1)) \<and> run_schedule ks w1 = Inr w2 \<and> pending (w_pool w2) = {#})"
proof -
  obtain w1 where w1: "OnSocketData env pc b data (int (length data)) rmt w = Inr w1" "live_ok w1"
      "total_reqs w1 = total_reqs (note_remote env pc rmt w) +
        mset (map (forward_req (note_remote env pc rmt w) b data) (live_sinks w s))" "sends w w1"
    using forwarded [OF assms] by blast
  have "\<exists>w2. run_schedule ks w1 = Inr w2 \<and> sends w w2 \<and> (pending (w_pool w2) = {#} \<longrightarrow> mset (w_sent w2) = total_reqs w1)" for ks
    using run_schedule_eq [OF w1(2), of ks] sends_trans [OF w1(4)] total_reqs_drained by metis
  with w1 drain [OF w1(2)] show ?thesis by auto
qed

text \<open>A state with a publisher, connection 1, whose stream 5 is watched by connections 2 and 3.\<close>

definition sample_pc :: "string \<Rightarrow> PeerConnection" where
  "sample_pc i = \<lparr>pc_sessionManager = Some (RTPSessionManager_new 0), pc_id = i, pc_loop = 1, pc_callback = True,
     pc_localStream = None, pc_remoteStream = Some 5, pc_localUsername = ''ab'', pc_localPassword = ''pw'',
     pc_remoteUsername = ''x'', pc_remotePassword = ''y'', pc_lastPacketRecvTimeMS = 7, pc_port = 8080,
     pc_lastRemote = Some \<lparr>sin_addr = 1, sin_port = 2\<rparr>, pc_started = True\<rparr>"

definition sample_world :: world where
  "sample_world = \<lparr>w_pcs = [1 \<mapsto> sample_pc ''p'', 2 \<mapsto> sample_pc ''q'', 3 \<mapsto> sample_pc ''r''],
     w_streams = [5 \<mapsto> \<lparr>ms_sinks = [(''q'', 2), (''r'', 3)], ms_audioSSRC = 0, ms_videoSSRC = 42\<rparr>],
     w_pool = Pool_new, w_server = Server_new 8081, w_blocks = {0}, w_next = 1, w_inflight = [], w_sent = [],
     w_timers = {1, 2, 3}, w_accepts = \<lambda>_. True\<rparr>"

definition sample_env :: env where
  "sample_env = \<lparr>env_hmac = \<lambda>k m. replicate 20 0, env_stun_mem = replicate 640 0xCC, env_fb_mem = replicate 1200 0xCC,
     env_fbc0 = 0, env_ssrc0 = 0, env_rtp0 = zero_rtp, env_now_ms = 100, env_now_us = 1000\<rparr>"

definition sample_addr :: sockaddr where
  "sample_addr = \<lparr>sin_addr = 9, sin_port = 9\<rparr>"

lemma sample_world_ok: "live_ok sample_world"
  by (auto simp: live_ok_def world_ok_def sample_world_def sample_pc_def pc_ok_def LOOP_NUM_def stream_ok_def Server_new_def split: if_splits)

lemma sample_facts:
  "w_pcs sample_world 1 = Some (sample_pc ''p'')" "pc_sessionManager (sample_pc i) = Some (RTPSessionManager_new 0)"
  "pc_remoteStream (sample_pc i) = Some 5" "pc_localPassword (sample_pc i) = ''pw''"
  "w_streams sample_world 5 = Some \<lparr>ms_sinks = [(''q'', 2), (''r'', 3)], ms_audioSSRC = 0, ms_videoSSRC = 42\<rparr>"
  "live_sinks sample_world \<lparr>ms_sinks = [(''q'', 2), (''r'', 3)], ms_audioSSRC = 0, ms_videoSSRC = 42\<rparr> = [2, 3]"
  "GetExtensionId (RTPSessionManager_new 0) ExtTransportCC = None"
  "w_sent sample_world = []" "w_inflight sample_world = []" "pending (w_pool sample_world) = {#}" "0 \<in> w_blocks sample_world"
  "w_accepts sample_world = (\<lambda>_. True)"
  by (simp_all add: sample_world_def sample_pc_def live_sinks_def sink_alive_def GetExtensionId_def RTPSessionManager_new_def)

definition sample_rtp :: bytes where
  "sample_rtp = [0x80, 96] @ replicate 12 7"

lemma sample_kind: "IsStun sample_rtp k = Inr False" "IsRTCP sample_rtp 14 = Inr False" "length sample_rtp = 14"
  by (simp_all add: sample_rtp_def IsStun_def IsRTCP_def eq8_def)

theorem rtp_forwarded_to_sinks_witness:
  "\<exists>w1 ks w2. OnSocketData sample_env 1 0 sample_rtp 14 sample_addr sample_world = Inr w1 \<and>
    run_schedule ks w1 = Inr w2 \<and> mset (map req_pc (w_sent w2)) = {#2, 3#} \<and> (\<forall>r \<in> set (w_sent w2). req_bytes r = sample_rtp)"
proof -
  let ?n = "note_remote sample_env 1 sample_addr sample_world"
  have t: "total_reqs ?n = {#}" by (simp add: total_reqs_def note_remote_def sample_facts)
  have k: "length sample_rtp < 2 ^ 31" "IsStun sample_rtp (int (length sample_rtp)) = Inr False" "IsRTCP sample_rtp (int (length sample_rtp)) = Inr False"
    using sample_kind by simp_all
  obtain w1 ks w2 where w1: "OnSocketData sample_env 1 0 sample_rtp (int (length sample_rtp)) sample_addr sample_world = Inr w1"
      "run_schedule ks w1 = Inr w2" "pending (w_pool w2) = {#}"
      "\<forall>ks. \<exists>w2. run_schedule ks w1 = Inr w2 \<and> (pending (w_pool w2) = {#} \<longrightarrow> mset (w_sent w2) =
        total_reqs ?n + mset (map (forward_req ?n 0 sample_rtp) [2, 3]))"
    using rtp_forwarded_to_sinks [OF sample_world_ok sample_facts(11,1-3,5) k no_feedback_None [OF sample_facts(7)], of sample_env sample_addr]
    unfolding sample_facts(6) by blast
  then have sent: "mset (w_sent w2) = mset (map (forward_req ?n 0 sample_rtp) [2, 3])"
    using spec [OF w1(4) [unfolded t], of ks] by (auto simp del: One_nat_def)
  note w1 = w1(1,2) [unfolded sample_kind(3)] sent
  have pcs: "mset (map req_pc (w_sent w2)) = {#2, 3#}"
    unfolding mset_map w1(3) by (simp add: forward_req_def)
  have "set (w_sent w2) = {forward_req ?n 0 sample_rtp 2, forward_req ?n 0 sample_rtp 3}"
    using arg_cong [OF w1(3), of set_mset] by simp
  then have "\<forall>r \<in> set (w_sent w2). req_bytes r = sample_rtp" by (simp add: forward_req_def)
  with w1(1,2) pcs show ?thesis unfolding of_nat_numeral by blast
qed

text \<open>
  C13. The block of a received datagram is freed by the completion of every send that uses
  it. When a datagram that asks for no feedback is forwarded to live sinks, nothing having been
  posted before, and libuv accepts two or more of the sends, the completions can therefore
  never all be processed: after draining the loops, no sequence of completions that stays
  defined leaves nothing in flight, and with exactly the two forwarded sends in flight the
  second completion frees a block that is already free. If a send completes before the other
  sink's loop has run, that loop sends from freed memory.
\<close>

theorem forwarding_double_free:
  assumes "live_ok w" and "b \<in> w_blocks w" and "w_pcs w pc = Some self" and "pc_sessionManager self = Some sm"
    and "pc_remoteStream self = Some sid" and "w_streams w sid = Some s" and "length data < 2 ^ 31"
    and "IsStun data (int (length data)) = Inr False" and "IsRTCP data (int (length data)) = Inr False"
    and "no_feedback env sm data" and "pending (w_pool w) = {#}"
    and "2 \<le> length (filter (\<lambda>x. w_accepts w (forward_req (note_remote env pc rmt w) b data x)) (live_sinks w s))"
  shows "\<exists>w1. OnSocketData env pc b data (int (length data)) rmt w = Inr w1 \<and>
    (\<forall>ks w2 cs w3. run_schedule ks w1 = Inr w2 \<longrightarrow> pending (w_pool w2) = {#} \<longrightarrow>
       (complete cs w2 = Inr w3 \<longrightarrow> w_inflight w3 \<noteq> []) \<and>
       (length (w_inflight w2) = 2 \<longrightarrow> complete [0, 0] w2 = Inl InvalidFree)) \<and>
    (\<forall>ks w2 c w3 l k sink d sz pool. run_schedule ks w1 = Inr w2 \<longrightarrow> send_u c w2 = Inr w3 \<longrightarrow>
       c < length (w_inflight w2) \<and> req_block (w_inflight w2 ! c) = b \<longrightarrow>
       async_cb (w_pool w3) l k = Some (TaskSend sink b d sz, pool) \<longrightarrow> loop_run l k w3 = Inl UseAfterFree)"
proof -
  let ?n = "note_remote env pc rmt w"
  obtain w1 where w1: "OnSocketData env pc b data (int (length data)) rmt w = Inr w1" "live_ok w1"
      "total_reqs w1 = total_reqs ?n + mset (map (forward_req ?n b data) (live_sinks w s))" "sends w w1"
    using forwarded [OF assms(1-10)] by blast
  have n: "total_reqs ?n = mset (w_sent w)" using assms(11) by (simp add: total_reqs_def note_remote_def)
  have stuck: "stuck b w2" if "run_schedule ks w1 = Inr w2" "pending (w_pool w2) = {#}" for ks w2
  proof -
    have w2: "total_reqs w2 = total_reqs w1" "sends w1 w2" using run_schedule_eq [OF w1(2), of ks] that(1) by auto
    have "mset (w_sent w2) = mset (w_sent w) + mset (map (forward_req ?n b data) (live_sinks w s))"
      using total_reqs_drained [OF that(2)] w2(1) w1(3) n by simp
    moreover have "sends w w2" using w1(4) w2(2) by (rule sends_trans)
    ultimately obtain rs where rs: "w_inflight w2 = w_inflight w @ filter (w_accepts w) rs" "mset rs = mset (map (forward_req ?n b data) (live_sinks w s))"
      by (auto simp: sends_def)
    let ?as = "filter (w_accepts w) rs"
    have all: "req_block r = b" if "r \<in> set rs" for r
      using that arg_cong [OF rs(2), of set_mset] by (auto simp: forward_req_def)
    have "mset ?as = image_mset (forward_req ?n b data) (mset (filter (\<lambda>x. w_accepts w (forward_req ?n b data x)) (live_sinks w s)))"
      unfolding mset_filter rs(2) by (simp add: filter_mset_image_mset)
    then have "2 \<le> length ?as" using assms(12) by (metis size_image_mset size_mset)
    moreover have "filter (\<lambda>r. req_block r = b) ?as = ?as" by (rule filter_True) (use all in auto)
    ultimately show ?thesis using rs(1) by (simp add: stuck_def Let_def)
  qed
  show ?thesis
  proof (intro exI [of _ w1] conjI w1(1) allI impI)
    fix ks w2 cs w3 assume r: "run_schedule ks w1 = Inr w2" "pending (w_pool w2) = {#}"
    note st = stuck [OF r]
    show "w_inflight w3 \<noteq> []" if "complete cs w2 = Inr w3"
      using complete_stuck [OF st that] by (auto simp: stuck_def Let_def)
    show "complete [0, 0] w2 = Inl InvalidFree" if "length (w_inflight w2) = 2"
      using that st by (rule complete_two)
  next
    fix ks w2 c w3 l k sink d sz pool
    assume r: "run_schedule ks w1 = Inr w2" "send_u c w2 = Inr w3" "c < length (w_inflight w2) \<and> req_block (w_inflight w2 ! c) = b"
      "async_cb (w_pool w3) l k = Some (TaskSend sink b d sz, pool)"
    have "world_ok w2" using run_schedule_eq [OF w1(2), of ks] r(1) by (auto simp: live_ok_def)
    then show "loop_run l k w3 = Inl UseAfterFree" using r(2-4) by (intro completed_block_freed) auto
  qed
qed

theorem forwarding_double_free_witness:
  "\<exists>w1. OnSocketData sample_env 1 0 sample_rtp 14 sample_addr sample_world = Inr w1 \<and>
    (\<forall>ks w2. run_schedule ks w1 = Inr w2 \<longrightarrow> pending (w_pool w2) = {#} \<longrightarrow> length (w_inflight w2) = 2 \<longrightarrow>
       complete [0, 0] w2 = Inl InvalidFree)"
proof -
  have k: "length sample_rtp < 2 ^ 31" "IsStun sample_rtp (int (length sample_rtp)) = Inr False" "IsRTCP sample_rtp (int (length sample_rtp)) = Inr False"
    using sample_kind by simp_all
  have "2 \<le> length (filter (\<lambda>x. w_accepts sample_world (forward_req (note_remote sample_env 1 sample_addr sample_world) 0 sample_rtp x))
      (live_sinks sample_world \<lparr>ms_sinks = [(''q'', 2), (''r'', 3)], ms_audioSSRC = 0, ms_videoSSRC = 42\<rparr>))"
    unfolding sample_facts(6,12) by simp
  from forwarding_double_free [OF sample_world_ok sample_facts(11,1-3,5) k no_feedback_None [OF sample_facts(7)] sample_facts(10) this]
  show ?thesis unfolding sample_kind(3) by auto
qed

lemma stun_reply_sent:
  assumes "w_pcs w pc = Some self" and "IsStun data sz = Inr True" and "StunPacket_Parse data sz = Inr (Some p)"
    and "length (env_stun_mem env) = MaxStunSize" and "\<And>k m. length (env_hmac env k m) = HMACSize"
  shows "\<exists>w'. OnSocketData env pc b data sz rmt w = Inr w' \<and>
    w_sent w' = w_sent w @ [\<lparr>req_pc = pc, req_block = w_next w,
      req_bytes = stun_message (env_hmac env) (MakeResponse p) (pc_localPassword self), req_dest = Some rmt\<rparr>] \<and>
    sends w w' \<and> w_blocks w' = insert (w_next w) (w_blocks w) \<and>
    rd_bytes data 8 12 = Inr (stun_transId (MakeResponse p)) \<and>
    w_pool w' = w_pool w \<and> w_streams w' = w_streams w \<and> w_server w' = w_server w \<and>
    w_pcs w' = (w_pcs w)(pc \<mapsto> self\<lparr>pc_lastRemote := Some rmt, pc_lastPacketRecvTimeMS := env_now_ms env\<rparr>)"
proof -
  let ?q = "MakeResponse p" and ?m = "stun_message (env_hmac env) (MakeResponse p) (pc_localPassword self)"
  have t: "stun_transId ?q = stun_transId p" by (simp add: MakeResponse_def)
  note tid = Parse_transId [OF assms(3)]
  have mac: "\<And>k m. length (env_hmac env k m) = 20" using assms(5) by (simp add: HMACSize_def)
  have len: "length ?m = 52" using tid t mac by (intro length_stun_message) simp_all
  have "StunPacket_Serialize (env_hmac env) (env_stun_mem env) ?q (pc_localPassword self) = Inr (?m @ drop 52 (env_stun_mem env), 52)"
    using assms(4) tid t mac by (intro Serialize_eq) simp_all
  moreover have "w_pcs (note_remote env pc rmt w) = (w_pcs w)(pc \<mapsto> self\<lparr>pc_lastRemote := Some rmt, pc_lastPacketRecvTimeMS := env_now_ms env\<rparr>)"
    using assms(1) by (simp add: note_remote_def upd_pc_def)
  ultimately show ?thesis
    using assms(1-3) tid len
    by (simp add: OnSocketData_def note_remote_def Let_def malloc_def uv_udp_send_def t sends_def)
qed

text \<open>
  C35. A STUN message is answered and nothing else: for every message that parses, the
  connection hands libuv one reply to the address the message came from, with the message's
  transaction id and an integrity code under the connection's own password, records the
  address and the time, and posts nothing to the loops.
\<close>

theorem stun_keepalive_answered:
  assumes "w_pcs w pc = Some self" and "IsStun data sz = Inr True" and "StunPacket_Parse data sz = Inr (Some p)"
    and "length (env_stun_mem env) = MaxStunSize" and "\<And>k m. length (env_hmac env k m) = HMACSize"
  shows "\<exists>w'. OnSocketData env pc b data sz rmt w = Inr w' \<and>
    w_sent w' = w_sent w @ [\<lparr>req_pc = pc, req_block = w_next w,
      req_bytes = stun_message (env_hmac env) (MakeResponse p) (pc_localPassword self), req_dest = Some rmt\<rparr>] \<and>
    rd_bytes data 8 12 = Inr (stun_transId (MakeResponse p)) \<and>
    w_pool w' = w_pool w \<and> w_streams w' = w_streams w \<and> w_server w' = w_server w \<and>
    w_pcs w' = (w_pcs w)(pc \<mapsto> self\<lparr>pc_lastRemote := Some rmt, pc_lastPacketRecvTimeMS := env_now_ms env\<rparr>)"
  using stun_reply_sent [OF assms] by blast

definition sample_request :: bytes where
  "sample_request = be_bytes 2 (1 :: u16) @ be_bytes 2 (0 :: u16) @ MagicCookie @ replicate 12 5"

lemma sample_request:
  "IsStun sample_request k = Inr True"
  "StunPacket_Parse sample_request 20 = Inr (Some \<lparr>stun_username = [], stun_method = 1, stun_type = 0, stun_transId = replicate 12 5\<rparr>)"
  using Parse_encoded [of MagicCookie "replicate 12 5" "[]" 20 1 0 "[]"]
  by (simp_all add: sample_request_def IsStun_def eq8_def be_bytes_unfold(2) last_username_def)

theorem stun_keepalive_answered_witness:
  "\<exists>w'. OnSocketData sample_env 1 0 sample_request 20 sample_addr sample_world = Inr w' \<and>
    map req_dest (w_sent w') = [Some sample_addr]"
proof -
  have "length (env_stun_mem sample_env) = MaxStunSize" "\<And>k m. length (env_hmac sample_env k m) = HMACSize"
    by (simp_all add: sample_env_def MaxStunSize_def HMACSize_def)
  from stun_keepalive_answered [OF sample_facts(1) sample_request this, of 0 sample_addr]
  show ?thesis by (auto simp: sample_facts(8))
qed

text \<open>
  C36. A STUN message with an attribute that is longer than the rest of the datagram is fatal:
  a header whose first two bytes are those of a binding request or response, any well-formed
  attributes, and then an attribute that announces more bytes than follow (at least one does).
  \<open>Parse\<close> returns a null pointer, and both receivers, the connection's socket and the server's
  \<open>OnData\<close>, use it without a check, in every state.
\<close>

theorem malformed_stun_is_fatal:
  assumes "w_pcs w pc \<noteq> None" and "mt = 0x0001 \<or> mt = (0x0101 :: u16)" and "length cookie = 4" and "length tid = 12"
    and "\<forall>(t, v) \<in> set attrs. length v < 65536" and "v \<noteq> []" and "length v < unat l"
    and "data = be_bytes 2 mt @ be_bytes 2 (len :: u16) @ cookie @ tid @ concat (map enc_attr attrs) @
      be_bytes 2 (t :: u16) @ be_bytes 2 (l :: u16) @ v"
  shows "OnSocketData env pc b data (int (length data)) rmt w = Inl NullDeref \<and>
    Server_OnData hmac mem pwd server data (int (length data)) = Inl NullDeref"
proof
  have "StunPacket_Parse data (int (24 + length (concat (map enc_attr attrs)) + length v)) = Inr None"
    unfolding assms(8) by (rule stun_parse_truncated_attribute [OF assms(3-7)])
  moreover have "length data = 24 + length (concat (map enc_attr attrs)) + length v" using assms(3,4) by (simp add: assms(8))
  ultimately have parse: "StunPacket_Parse data (int (length data)) = Inr None" by simp
  have stun: "IsStun data (int (length data)) = Inr True"
    using assms(2) by (auto simp: assms(8) IsStun_def eq8_def be_bytes_unfold(2))
  obtain self where "w_pcs w pc = Some self" using assms(1) by auto
  then show "OnSocketData env pc b data (int (length data)) rmt w = Inl NullDeref"
    using parse stun by (simp add: OnSocketData_def Let_def w_pcs_upd_pc)
  show "Server_OnData hmac mem pwd server data (int (length data)) = Inl NullDeref"
    using parse stun by (simp add: Server_OnData_def)
qed

theorem malformed_stun_is_fatal_witness:
  "OnSocketData sample_env 1 0 (sample_request @ [0, 6, 1, 0, 7]) 25 sample_addr sample_world = Inl NullDeref"
proof -
  have d: "sample_request @ [0, 6, 1, 0, 7] = be_bytes 2 (1 :: u16) @ be_bytes 2 (0 :: u16) @ MagicCookie @ replicate 12 5 @
      concat (map enc_attr []) @ be_bytes 2 (6 :: u16) @ be_bytes 2 (256 :: u16) @ [7]"
    by (simp add: sample_request_def be_bytes_unfold(2))
  have "length (sample_request @ [0, 6, 1, 0, 7]) = 25" by (simp add: sample_request_def)
  then show ?thesis
    using malformed_stun_is_fatal [OF _ _ _ _ _ _ _ d, of sample_world 1 sample_env 0 sample_addr] sample_facts(1) by simp
qed

text \<open>
  Media is fatal to a connection that is not ready for it: any RTP datagram, on a
  connection that has no session manager yet, or whose peer announced no media, so that
  there is no remote stream, dereferences a null pointer.
\<close>

theorem unexpected_media_is_fatal:
  assumes "w_pcs w pc = Some self" and "length data < 2 ^ 31"
    and "IsStun data (int (length data)) = Inr False" and "IsRTCP data (int (length data)) = Inr False"
    and "pc_sessionManager self = None \<or> pc_sessionManager self = Some sm \<and> GetExtensionId sm ExtTransportCC = None \<and> pc_remoteStream self = None"
  shows "OnSocketData env pc b data (int (length data)) rmt w = Inl NullDeref"
proof -
  let ?w = "note_remote env pc rmt w"
  let ?self = "self\<lparr>pc_lastRemote := Some rmt, pc_lastPacketRecvTimeMS := env_now_ms env\<rparr>"
  have n: "w_pcs ?w pc = Some ?self" using assms(1) by (simp add: note_remote_def w_pcs_upd_pc)
  obtain p ok where parse: "RTPPacket_Parse (RTPPacket_new (env_rtp0 env) (env_now_ms env)) data (int (length data)) = Inr (p, ok)"
    using RTPPacket_Parse_total [of "int (length data)" data] assms(2) by fastforce
  have "handleIncomingRTPData env pc b data (int (length data)) ?w = Inl NullDeref"
    using n parse assms(5) by (auto simp: handleIncomingRTPData_def OnRecvRTP_def IncomingSession_AddPacket_def)
  then show ?thesis using assms(1,3,4) OnSocketData_RTP [of w pc data] by simp
qed

theorem unexpected_media_is_fatal_witness:
  "OnSocketData sample_env 4 0 sample_rtp 14 sample_addr
     (PeerConnection_new 4 ''u'' ''v'' ''w'' sample_world) = Inl NullDeref"
proof -
  let ?w = "PeerConnection_new 4 ''u'' ''v'' ''w'' sample_world"
  obtain self where self: "w_pcs ?w 4 = Some self" "pc_sessionManager self = None"
    by (auto simp: PeerConnection_new_def Let_def case_prod_beta)
  have k: "length sample_rtp < 2 ^ 31" "IsStun sample_rtp (int (length sample_rtp)) = Inr False" "IsRTCP sample_rtp (int (length sample_rtp)) = Inr False"
    using sample_kind by simp_all
  from unexpected_media_is_fatal [OF self(1) k, of _ sample_env 0 sample_addr] self(2) show ?thesis
    unfolding sample_kind(3) by simp
qed

text \<open>
  The ICE timer: the first tick of a connection that has received nothing only records
  the time; later ticks change nothing and report a time-out exactly if more than ten
  seconds have passed since the last datagram or the first tick.
\<close>

theorem ice_timer_reports_silence:
  assumes "w_pcs w pc = Some self" and "pc_lastPacketRecvTimeMS self \<le> now"
  shows "\<exists>w' late. OnIceTimer now pc w = Inr (w', late) \<and>
    (if pc_lastPacketRecvTimeMS self = 0
     then \<not> late \<and> w_pcs w' = (w_pcs w)(pc \<mapsto> self\<lparr>pc_lastPacketRecvTimeMS := now\<rparr>)
     else w' = w \<and> (late \<longleftrightarrow> unat (pc_lastPacketRecvTimeMS self) + 10000 < unat now))"
proof -
  have "unat (now - pc_lastPacketRecvTimeMS self) = unat now - unat (pc_lastPacketRecvTimeMS self)"
    using assms(2) by (rule unat_sub)
  then show ?thesis
    using assms by (auto simp: OnIceTimer_def IceTimeout_def word_less_nat_alt upd_pc_def)
qed

theorem ice_timer_reports_silence_witness:
  "\<exists>w'. OnIceTimer 10008 1 sample_world = Inr (w', True) \<and> w' = sample_world"
  using ice_timer_reports_silence [OF sample_facts(1), of 10008] by (auto simp: sample_pc_def)

end
