(* ===== verification/Sdp_Answer.thy ===== *)
theory Sdp_Answer
  imports Peer_Connection
begin

text \<open>
  The answer to a session description (\<open>PeerConnection::CreateAnswer\<close> and its helpers in
  \<open>peerconnection.cpp\<close>). The JSON library and \<open>sdptransform\<close> are not part of the program:
  their operations on an arbitrary type of JSON values are the parameter \<open>lib\<close>. An exception
  that one of them raises is the fault \<open>Thrown\<close>. Looking up a missing key with \<open>operator[]\<close>
  adds a null member to the offer, which no later step can tell from its absence, so the
  lookups are functions of the offer. The function registered for remote streams is the argument
  \<open>callback\<close>; the identifiers of \<open>uuid()\<close>, the clock and the number of a new stream object
  are arguments too.
\<close>

unbundle bit_operations_syntax

section \<open>The JSON library\<close>

record 'j json_lib =
  js_parse :: "string \<Rightarrow> 'j res"
  js_write :: "'j \<Rightarrow> string res"
  js_null :: 'j
  js_str :: "string \<Rightarrow> 'j"
  js_num :: "int \<Rightarrow> 'j"
  js_obj :: "(string \<times> 'j) list \<Rightarrow> 'j"
  js_arr :: "'j list \<Rightarrow> 'j"
  js_at :: "'j \<Rightarrow> string \<Rightarrow> 'j res"
  js_set :: "'j \<Rightarrow> string \<Rightarrow> 'j \<Rightarrow> 'j res"
  js_idx :: "'j \<Rightarrow> nat \<Rightarrow> 'j res"
  js_push :: "'j \<Rightarrow> 'j \<Rightarrow> 'j res"
  js_elems :: "'j \<Rightarrow> 'j list"
  js_is :: "'j \<Rightarrow> string \<Rightarrow> bool"
  js_get_str :: "'j \<Rightarrow> string res"
  js_get_u8 :: "'j \<Rightarrow> byte res"
  js_get_u32 :: "'j \<Rightarrow> u32 res"

section \<open>Operations\<close>

definition createBaseSdp :: "'j json_lib \<Rightarrow> 'j res" where
  "createBaseSdp lib =
     (let str = js_str lib; num = js_num lib; obj = js_obj lib; set = js_set lib in
      bindr (set (js_null lib) ''groups'' (obj [(''mids'', str ''0 1''), (''type'', str ''BUNDLE'')])) (\<lambda>j.
      bindr (set j ''name'' (str ''-'')) (\<lambda>j.
      bindr (set j ''origin'' (obj [(''address'', str ''127.0.0.1''), (''ipVer'', num 4), (''netType'', str ''IN''),
        (''sessionId'', num 0), (''sessionVersion'', num 2), (''username'', str ''-'')])) (\<lambda>j.
      bindr (set j ''timing'' (obj [(''start'', num 0), (''stop'', num 0)])) (\<lambda>j.
      bindr (set j ''version'' (num 0)) (\<lambda>j.
      set j ''connection'' (obj [(''ip'', str ''0.0.0.0''), (''version'', num 4)])))))))"

definition getSSRCs :: "'j json_lib \<Rightarrow> u32 \<Rightarrow> string \<Rightarrow> string \<Rightarrow> string \<Rightarrow> 'j" where
  "getSSRCs lib ssrc msid cname label =
     (let str = js_str lib; num = js_num lib; obj = js_obj lib in
      js_arr lib
       [obj [(''attribute'', str ''cname''), (''id'', num (uint ssrc)), (''value'', str cname)],
        obj [(''attribute'', str ''msid''), (''id'', num (uint ssrc)), (''value'', str (msid @ '' '' @ label))],
        obj [(''attribute'', str ''mslabel''), (''id'', num (uint ssrc)), (''value'', str label)]])"

definition peer_sends :: "'j json_lib \<Rightarrow> 'j \<Rightarrow> bool" where
  "peer_sends lib dir \<longleftrightarrow> js_is lib dir ''sendonly'' \<or> js_is lib dir ''sendrecv''"

definition peer_receives :: "'j json_lib \<Rightarrow> 'j \<Rightarrow> bool" where
  "peer_receives lib dir \<longleftrightarrow> js_is lib dir ''recvonly'' \<or> js_is lib dir ''sendrecv''"

text \<open>The loop over the offered header extensions.\<close>

fun answer_exts :: "'j json_lib \<Rightarrow> 'j list \<Rightarrow> RTPSessionManager \<Rightarrow> 'j \<Rightarrow> (RTPSessionManager \<times> 'j) res" where
  "answer_exts lib [] sm aExt = Inr (sm, aExt)"
| "answer_exts lib (e # es) sm aExt =
     bindr (js_at lib e ''value'') (\<lambda>value.
     bindr (js_get_u8 lib value) (\<lambda>i.
     bindr (js_at lib e ''uri'') (\<lambda>uri.
     bindr (js_get_str lib uri) (\<lambda>u.
     let (sm, ok) = SetExtension sm i u in
     bindr (if ok then js_push lib aExt (js_obj lib [(''uri'', uri), (''value'', value)]) else Inr aExt) (\<lambda>aExt.
     answer_exts lib es sm aExt)))))"

text \<open>The loop over the offered RTCP feedback types.\<close>

fun answer_rtcpFb :: "'j json_lib \<Rightarrow> 'j list \<Rightarrow> 'j \<Rightarrow> 'j res" where
  "answer_rtcpFb lib [] aRtcpFb = Inr aRtcpFb"
| "answer_rtcpFb lib (rtcp # rs) aRtcpFb =
     bindr (js_at lib rtcp ''type'') (\<lambda>t.
     bindr (if js_is lib t ''transport-cc'' \<or> js_is lib t ''nack'' then js_push lib aRtcpFb rtcp else Inr aRtcpFb) (\<lambda>aRtcpFb.
     answer_rtcpFb lib rs aRtcpFb))"

definition local_stream :: "world \<Rightarrow> PeerConnection \<Rightarrow> MediaStream option" where
  "local_stream w self = (case pc_localStream self of None \<Rightarrow> None | Some sid \<Rightarrow> w_streams w sid)"

text \<open>The \<open>ssrcs\<close> member for media this connection sends.\<close>

definition answer_ssrcs :: "'j json_lib \<Rightarrow> MediaStream option \<Rightarrow> string \<Rightarrow> string \<Rightarrow> 'j \<Rightarrow> 'j \<Rightarrow> 'j \<Rightarrow> 'j res" where
  "answer_ssrcs lib localStream msid cname dir t answerMedia =
     (if peer_receives lib dir
      then case localStream of None \<Rightarrow> Inr answerMedia
        | Some s \<Rightarrow>
          if ms_audioSSRC s \<noteq> 0 \<and> js_is lib t ''audio''
          then js_set lib answerMedia ''ssrcs'' (getSSRCs lib (ms_audioSSRC s) msid cname ''audio0'')
          else if ms_videoSSRC s \<noteq> 0 \<and> js_is lib t ''video''
          then js_set lib answerMedia ''ssrcs'' (getSSRCs lib (ms_videoSSRC s) msid cname ''video0'')
          else Inr answerMedia
      else Inr answerMedia)"

text \<open>The remote stream for media this connection receives; \<open>sid\<close> is the number of a new one.\<close>

definition learn_stream :: "'j json_lib \<Rightarrow> nat \<Rightarrow> nat \<Rightarrow> 'j \<Rightarrow> 'j \<Rightarrow> 'j \<Rightarrow> world \<Rightarrow> world res" where
  "learn_stream lib pc sid media dir t w =
     (if peer_sends lib dir
      then bindr (js_at lib media ''ssrcs'') (\<lambda>ssrcs.
        bindr (js_idx lib ssrcs 0) (\<lambda>s0.
        bindr (js_at lib s0 ''id'') (\<lambda>i.
        bindr (js_get_u32 lib i) (\<lambda>ssrc.
        bindr (deref (w_pcs w) pc) (\<lambda>self.
        let (w, rs) = (case pc_remoteStream self of
              None \<Rightarrow> (upd_pc pc (\<lambda>self. self\<lparr>pc_remoteStream := Some sid\<rparr>) (w\<lparr>w_streams := (w_streams w)(sid \<mapsto> MediaStream_new)\<rparr>), sid)
            | Some rs \<Rightarrow> (w, rs)) in
        bindr (deref (w_streams w) rs) (\<lambda>s.
        let s = (if js_is lib t ''audio'' then s\<lparr>ms_audioSSRC := ssrc\<rparr>
                 else if js_is lib t ''video'' then s\<lparr>ms_videoSSRC := ssrc\<rparr> else s) in
        Inr (w\<lparr>w_streams := (w_streams w)(rs \<mapsto> s)\<rparr>)))))))
      else Inr w)"

text \<open>The members of one answered media section.\<close>

definition media_members ::
  "'j json_lib \<Rightarrow> PeerConnection \<Rightarrow> string \<Rightarrow> string \<Rightarrow> 'j \<Rightarrow> 'j \<Rightarrow> 'j \<Rightarrow> 'j \<Rightarrow> 'j \<Rightarrow> 'j \<Rightarrow> 'j \<Rightarrow> 'j \<Rightarrow> (string \<times> 'j) list" where
  "media_members lib self candidateIp direction aExt aRtcpFb t rtp fmtp payloads mid protocol =
     (let str = js_str lib; num = js_num lib; obj = js_obj lib in
      [(''connection'', obj [(''ip'', str ''0.0.0.0''), (''version'', num 4)]),
       (''direction'', str direction),
       (''ext'', aExt),
       (''rtcpMux'', str ''rtcp-mux''),
       (''rtcpRsize'', str ''rtcp-rsize''),
       (''type'', t),
       (''rtp'', rtp),
       (''rtcpFb'', aRtcpFb),
       (''fmtp'', fmtp),
       (''payloads'', payloads),
       (''port'', num 9),
       (''mid'', mid),
       (''icePwd'', str (pc_localPassword self)),
       (''iceUfrag'', str (pc_localUsername self)),
       (''protocol'', protocol),
       (''candidates'', js_arr lib [obj [(''component'', num 1), (''foundation'', str ''1''), (''ip'', str candidateIp),
          (''port'', num (uint (pc_port self))), (''priority'', num 33554431), (''transport'', str ''UDP''), (''type'', str ''host'')]])])"

text \<open>One iteration of the loop over the offered media sections.\<close>

definition answer_media ::
  "'j json_lib \<Rightarrow> nat \<Rightarrow> nat \<Rightarrow> string \<Rightarrow> string \<Rightarrow> 'j \<Rightarrow> world \<Rightarrow> (world \<times> 'j) res" where
  "answer_media lib pc sid msid cname media w =
     bindr (deref (w_pcs w) pc) (\<lambda>self.
     bindr (js_at lib media ''direction'') (\<lambda>dir.
     let direction = (if peer_sends lib dir then ''recvonly'' else ''sendonly'') in
     bindr (js_at lib media ''ext'') (\<lambda>ext.
     bindr (deref (\<lambda>_ :: unit. pc_sessionManager self) ()) (\<lambda>sm.
     bindr (answer_exts lib (js_elems lib ext) sm (js_null lib)) (\<lambda>(sm, aExt).
     let w = upd_pc pc (\<lambda>self. self\<lparr>pc_sessionManager := Some sm\<rparr>) w in
     bindr (js_at lib media ''rtcpFb'') (\<lambda>rtcpFb.
     bindr (answer_rtcpFb lib (js_elems lib rtcpFb) (js_null lib)) (\<lambda>aRtcpFb.
     bindr (js_at lib media ''type'') (\<lambda>t.
     bindr (js_at lib media ''rtp'') (\<lambda>rtp.
     bindr (js_at lib media ''fmtp'') (\<lambda>fmtp.
     bindr (js_at lib media ''payloads'') (\<lambda>payloads.
     bindr (js_at lib media ''mid'') (\<lambda>mid.
     bindr (js_at lib media ''protocol'') (\<lambda>protocol.
     let answerMedia = js_obj lib (media_members lib self (srv_candidateIp (w_server w)) direction aExt aRtcpFb t rtp fmtp payloads mid protocol) in
     bindr (answer_ssrcs lib (local_stream w self) msid cname dir t answerMedia) (\<lambda>answerMedia.
     bindr (learn_stream lib pc sid media dir t w) (\<lambda>w.
     bindr (bindr (js_at lib media ''iceUfrag'') (js_get_str lib)) (\<lambda>ufrag.
     bindr (bindr (js_at lib media ''icePwd'') (js_get_str lib)) (\<lambda>pwd.
     Inr (upd_pc pc (\<lambda>self. self\<lparr>pc_remoteUsername := ufrag, pc_remotePassword := pwd\<rparr>) w, answerMedia))))))))))))))))))"

fun answer_medias ::
  "'j json_lib \<Rightarrow> nat \<Rightarrow> nat \<Rightarrow> string \<Rightarrow> string \<Rightarrow> 'j list \<Rightarrow> world \<Rightarrow> (world \<times> 'j list) res" where
  "answer_medias lib pc sid msid cname [] w = Inr (w, [])"
| "answer_medias lib pc sid msid cname (media # ms) w =
     bindr (answer_media lib pc sid msid cname media w) (\<lambda>(w, a).
     bindr (answer_medias lib pc sid msid cname ms w) (\<lambda>(w, as). Inr (w, a # as)))"

definition CreateAnswer ::
  "'j json_lib \<Rightarrow> (nat \<Rightarrow> world \<Rightarrow> world res) \<Rightarrow> u64 \<Rightarrow> string \<Rightarrow> string \<Rightarrow> nat \<Rightarrow> nat \<Rightarrow> string \<Rightarrow> world \<Rightarrow> (world \<times> string) res" where
  "CreateAnswer lib callback now uuid1 uuid2 sid pc offer w =
     bindr (deref (w_pcs w) pc) (\<lambda>self.
     let w = upd_pc pc (\<lambda>self. self\<lparr>pc_sessionManager := Some (RTPSessionManager_new now)\<rparr>) w in
     bindr (js_parse lib offer) (\<lambda>offerJ.
     bindr (createBaseSdp lib) (\<lambda>answerJ.
     let msid = (if pc_localStream self \<noteq> None then uuid1 else ''*''); cname = uuid2 in
     bindr (js_set lib answerJ ''msidSemantic'' (js_obj lib [(''semantic'', js_str lib ''WMS''), (''token'', js_str lib msid)])) (\<lambda>answerJ.
     bindr (js_at lib offerJ ''media'') (\<lambda>offerMediaJ.
     bindr (answer_medias lib pc sid msid cname (js_elems lib offerMediaJ) w) (\<lambda>(w, answerMediaJ).
     bindr (deref (w_pcs w) pc) (\<lambda>self.
     bindr (case pc_remoteStream self of None \<Rightarrow> Inr w
            | Some rs \<Rightarrow> if pc_callback self then callback rs w else Inl Thrown) (\<lambda>w.
     bindr (js_set lib answerJ ''media'' (js_arr lib answerMediaJ)) (\<lambda>answerJ.
     bindr (js_write lib answerJ) (\<lambda>answer.
     bindr (deref (w_pcs w) pc) (\<lambda>self.
     Inr (w\<lparr>w_server := AddPC (w_server w) (pc_localUsername self) (pc_remoteUsername self) pc\<rparr>, answer))))))))))))"

section \<open>What an answer changes\<close>

text \<open>An entry of the offered extensions, and those of one media section.\<close>

definition ext_entry :: "'j json_lib \<Rightarrow> 'j \<Rightarrow> (byte \<times> string) res" where
  "ext_entry lib e = bindr (bindr (js_at lib e ''value'') (js_get_u8 lib)) (\<lambda>i.
     bindr (bindr (js_at lib e ''uri'') (js_get_str lib)) (\<lambda>u. Inr (i, u)))"

definition offered_exts :: "'j json_lib \<Rightarrow> 'j \<Rightarrow> (byte \<times> string) list" where
  "offered_exts lib media = (case js_at lib media ''ext'' of Inl _ \<Rightarrow> []
     | Inr ext \<Rightarrow> concat (map (\<lambda>e. case ext_entry lib e of Inl _ \<Rightarrow> [] | Inr iu \<Rightarrow> [iu]) (js_elems lib ext)))"

definition offered_direction :: "'j json_lib \<Rightarrow> 'j \<Rightarrow> 'j" where
  "offered_direction lib media = (case js_at lib media ''direction'' of Inl _ \<Rightarrow> js_null lib | Inr d \<Rightarrow> d)"

definition offered_string :: "'j json_lib \<Rightarrow> 'j \<Rightarrow> string \<Rightarrow> string" where
  "offered_string lib media k = (case bindr (js_at lib media k) (js_get_str lib) of Inl _ \<Rightarrow> [] | Inr u \<Rightarrow> u)"

lemma answer_exts_sm:
  "answer_exts lib es sm aExt = Inr (sm', aExt') \<Longrightarrow>
   sm' = fst (SetExtensions sm (concat (map (\<lambda>e. case ext_entry lib e of Inl _ \<Rightarrow> [] | Inr iu \<Rightarrow> [iu]) es)))"
proof (induction es arbitrary: sm aExt)
  case (Cons e es)
  then obtain v i uri u where e: "js_at lib e ''value'' = Inr v" "js_get_u8 lib v = Inr i" "js_at lib e ''uri'' = Inr uri"
      "js_get_str lib uri = Inr u"
    by (auto simp: bindr_eq_Inr)
  with Cons.prems obtain a where "answer_exts lib es (fst (SetExtension sm i u)) a = Inr (sm', aExt')"
    by (auto simp: bindr_eq_Inr Let_def case_prod_beta)
  from Cons.IH [OF this] show ?case using e by (simp add: ext_entry_def Let_def case_prod_beta)
qed simp

text \<open>
  The effect of a step of the answer on the shared state: only the connection itself and
  streams change, the connection keeps what it has from its construction, and the state
  stays well-formed.
\<close>

definition pc_kept :: "PeerConnection \<Rightarrow> PeerConnection \<Rightarrow> bool" where
  "pc_kept self self' \<longleftrightarrow> pc_id self' = pc_id self \<and> pc_loop self' = pc_loop self \<and> pc_callback self' = pc_callback self \<and>
     pc_localStream self' = pc_localStream self \<and> pc_localUsername self' = pc_localUsername self \<and>
     pc_localPassword self' = pc_localPassword self \<and> pc_port self' = pc_port self \<and> pc_lastRemote self' = pc_lastRemote self"

definition answer_frame :: "nat \<Rightarrow> world \<Rightarrow> world \<Rightarrow> bool" where
  "answer_frame pc w w' \<longleftrightarrow> w_pool w' = w_pool w \<and> w_server w' = w_server w \<and> w_blocks w' = w_blocks w \<and> w_next w' = w_next w \<and>
     w_sent w' = w_sent w \<and> w_inflight w' = w_inflight w \<and> w_timers w' = w_timers w \<and> (\<forall>x. x \<noteq> pc \<longrightarrow> w_pcs w' x = w_pcs w x) \<and>
     rel_option pc_kept (w_pcs w pc) (w_pcs w' pc) \<and> (world_ok w \<longrightarrow> world_ok w')"

lemma pc_kept_refl [simp]: "pc_kept self self"
  by (simp add: pc_kept_def)

lemma pc_kept_trans: "pc_kept a b \<Longrightarrow> pc_kept b c \<Longrightarrow> pc_kept a c"
  by (simp add: pc_kept_def)

lemma answer_frame_refl [simp]: "answer_frame pc w w"
  by (simp add: answer_frame_def option.rel_refl)

lemma answer_frame_trans:
  assumes "answer_frame pc w w1" "answer_frame pc w1 w2"
  shows "answer_frame pc w w2"
proof -
  have "rel_option pc_kept (w_pcs w pc) (w_pcs w2 pc)"
    using assms by (cases "w_pcs w pc"; cases "w_pcs w1 pc"; cases "w_pcs w2 pc") (auto simp: answer_frame_def intro: pc_kept_trans)
  then show ?thesis using assms by (simp add: answer_frame_def)
qed

lemma world_ok_upd:
  assumes "world_ok w" "\<And>self. w_pcs w pc = Some self \<Longrightarrow> pc_ok w (f self)"
  shows "world_ok (upd_pc pc f w)"
proof -
  have "pc_ok (upd_pc pc f w) s" if "w_pcs (upd_pc pc f w) x = Some s" for x s
    using that assms by (auto simp: world_ok_def pc_ok_def w_pcs_upd_pc split: if_splits)
  moreover have "w_pcs (upd_pc pc f w) x = None \<longleftrightarrow> w_pcs w x = None" for x by (simp add: w_pcs_upd_pc)
  ultimately show ?thesis using assms(1) by (simp add: world_ok_def)
qed

lemma answer_frame_upd:
  assumes "\<And>self. pc_kept self (f self) \<and> pc_remoteStream (f self) = pc_remoteStream self"
  shows "answer_frame pc w (upd_pc pc f w)"
proof -
  have "pc_ok w (f self)" if "world_ok w" "w_pcs w pc = Some self" for self
    using that assms [of self] by (auto simp: world_ok_def pc_ok_def pc_kept_def)
  then have "world_ok w \<longrightarrow> world_ok (upd_pc pc f w)" by (auto intro: world_ok_upd)
  moreover have "rel_option pc_kept (w_pcs w pc) (w_pcs (upd_pc pc f w) pc)"
    using assms by (cases "w_pcs w pc") (simp_all add: w_pcs_upd_pc)
  ultimately show ?thesis by (simp add: answer_frame_def w_pcs_upd_pc)
qed

lemma world_ok_stream:
  assumes "world_ok w" "stream_ok s"
  shows "world_ok (w\<lparr>w_streams := (w_streams w)(sid \<mapsto> s)\<rparr>)"
  using assms by (auto simp: world_ok_def pc_ok_def)

lemma answer_frame_stream:
  assumes "world_ok w \<Longrightarrow> stream_ok s"
  shows "answer_frame pc w (w\<lparr>w_streams := (w_streams w)(sid \<mapsto> s)\<rparr>)"
  using assms world_ok_stream by (auto simp: answer_frame_def option.rel_refl)

text \<open>The remote stream object of a connection, created if there is none.\<close>

definition ensure_stream :: "nat \<Rightarrow> nat \<Rightarrow> PeerConnection \<Rightarrow> world \<Rightarrow> world \<times> nat" where
  "ensure_stream pc sid self w = (case pc_remoteStream self of
      None \<Rightarrow> (upd_pc pc (\<lambda>self. self\<lparr>pc_remoteStream := Some sid\<rparr>) (w\<lparr>w_streams := (w_streams w)(sid \<mapsto> MediaStream_new)\<rparr>), sid)
    | Some rs \<Rightarrow> (w, rs))"

lemma ensure_stream_frame:
  assumes "w_pcs w pc = Some self" "ensure_stream pc sid self w = (w', rs)"
  shows "answer_frame pc w w'" "w_pcs w' pc = Some (self\<lparr>pc_remoteStream := Some rs\<rparr>)"
    "rs = (case pc_remoteStream self of None \<Rightarrow> sid | Some r \<Rightarrow> r)"
proof -
  let ?w = "w\<lparr>w_streams := (w_streams w)(sid \<mapsto> MediaStream_new)\<rparr>" let ?f = "\<lambda>self. self\<lparr>pc_remoteStream := Some sid\<rparr>"
  have "world_ok (upd_pc pc ?f ?w)" if "world_ok w"
  proof (rule world_ok_upd)
    show ok: "world_ok ?w" using that by (rule world_ok_stream) simp
    show "pc_ok ?w (?f s)" if "w_pcs ?w pc = Some s" for s
      using ok that by (auto simp: world_ok_def pc_ok_def)
  qed
  then have "answer_frame pc w (upd_pc pc ?f ?w)" using assms(1) by (simp add: answer_frame_def w_pcs_upd_pc pc_kept_def)
  then show "answer_frame pc w w'" using assms(2) by (cases "pc_remoteStream self") (auto simp: ensure_stream_def)
  show "w_pcs w' pc = Some (self\<lparr>pc_remoteStream := Some rs\<rparr>)" "rs = (case pc_remoteStream self of None \<Rightarrow> sid | Some r \<Rightarrow> r)"
    using assms by (cases "pc_remoteStream self"; auto simp: ensure_stream_def w_pcs_upd_pc)+
qed

definition learned :: "'j json_lib \<Rightarrow> nat \<Rightarrow> 'j \<Rightarrow> nat option \<Rightarrow> nat option" where
  "learned lib sid dir r = (if peer_sends lib dir \<and> r = None then Some sid else r)"

lemma learned_None [simp]: "learned lib sid dir r = None \<longleftrightarrow> r = None \<and> \<not> peer_sends lib dir"
  by (auto simp: learned_def)

lemma learn_stream_eq:
  assumes "learn_stream lib pc sid media dir t w = Inr w'" "w_pcs w pc = Some self"
  shows "answer_frame pc w w' \<and> w_pcs w' pc = Some (self\<lparr>pc_remoteStream := learned lib sid dir (pc_remoteStream self)\<rparr>)"
proof (cases "peer_sends lib dir")
  case True
  obtain w1 rs where e: "ensure_stream pc sid self w = (w1, rs)" by fastforce
  note f = ensure_stream_frame [OF assms(2) e]
  obtain s s' where s: "w_streams w1 rs = Some s" "ms_sinks s' = ms_sinks s" "w' = w1\<lparr>w_streams := (w_streams w1)(rs \<mapsto> s')\<rparr>"
  proof -
    from assms True e obtain ssrc s where "w_streams w1 rs = Some s"
      "w' = w1\<lparr>w_streams := (w_streams w1)(rs \<mapsto> (if js_is lib t ''audio'' then s\<lparr>ms_audioSSRC := ssrc\<rparr>
                 else if js_is lib t ''video'' then s\<lparr>ms_videoSSRC := ssrc\<rparr> else s))\<rparr>"
      by (auto simp: learn_stream_def ensure_stream_def [symmetric] bindr_eq_Inr Let_def)
    then show thesis by (intro that [of s "if js_is lib t ''audio'' then s\<lparr>ms_audioSSRC := ssrc\<rparr>
                 else if js_is lib t ''video'' then s\<lparr>ms_videoSSRC := ssrc\<rparr> else s"]) simp_all
  qed
  have "answer_frame pc w1 w'"
    unfolding s(3) by (rule answer_frame_stream) (use s(1,2) in \<open>auto simp: world_ok_def stream_ok_def\<close>)
  then have "answer_frame pc w w'" using f(1) answer_frame_trans by blast
  moreover have "w_pcs w' pc = Some (self\<lparr>pc_remoteStream := Some rs\<rparr>)" using f(2) by (simp add: s(3))
  ultimately show ?thesis using f(3) True by (auto simp: learned_def split: option.splits)
next
  case False
  then show ?thesis using assms by (simp add: learn_stream_def learned_def)
qed

lemma answer_media_eq:
  assumes "answer_media lib pc sid msid cname media w = Inr (w', a)" "w_pcs w pc = Some self" "pc_sessionManager self = Some sm"
  shows "answer_frame pc w w' \<and> w_pcs w' pc = Some (self\<lparr>pc_sessionManager := Some (fst (SetExtensions sm (offered_exts lib media))),
      pc_remoteStream := learned lib sid (offered_direction lib media) (pc_remoteStream self),
      pc_remoteUsername := offered_string lib media ''iceUfrag'', pc_remotePassword := offered_string lib media ''icePwd''\<rparr>)"
proof -
  from assms obtain dir ext sm' aExt t w2 u p where
    r: "js_at lib media ''direction'' = Inr dir" "js_at lib media ''ext'' = Inr ext"
      "answer_exts lib (js_elems lib ext) sm (js_null lib) = Inr (sm', aExt)"
      "learn_stream lib pc sid media dir t (upd_pc pc (\<lambda>self. self\<lparr>pc_sessionManager := Some sm'\<rparr>) w) = Inr w2"
      "bindr (js_at lib media ''iceUfrag'') (js_get_str lib) = Inr u" "bindr (js_at lib media ''icePwd'') (js_get_str lib) = Inr p"
      "w' = upd_pc pc (\<lambda>self. self\<lparr>pc_remoteUsername := u, pc_remotePassword := p\<rparr>) w2"
    unfolding answer_media_def Let_def bindr_eq_Inr by (auto simp: bindr_eq_Inr)
  let ?w1 = "upd_pc pc (\<lambda>self. self\<lparr>pc_sessionManager := Some sm'\<rparr>) w"
  have f1: "answer_frame pc w ?w1" and f3: "answer_frame pc w2 w'"
    unfolding r(7) by (rule answer_frame_upd, simp add: pc_kept_def)+
  have "w_pcs ?w1 pc = Some (self\<lparr>pc_sessionManager := Some sm'\<rparr>)" using assms(2) by (simp add: w_pcs_upd_pc)
  note f2 = learn_stream_eq [OF r(4) this]
  have "answer_frame pc w w'" using f1 f2 f3 answer_frame_trans by blast
  moreover have "sm' = fst (SetExtensions sm (offered_exts lib media))"
    using answer_exts_sm [OF r(3)] by (simp add: offered_exts_def r(2))
  ultimately show ?thesis
    using f2 by (simp add: r(1,5,6,7) offered_direction_def offered_string_def w_pcs_upd_pc)
qed

lemma answer_medias_eq:
  assumes "answer_medias lib pc sid msid cname ms w = Inr (w', as)" "w_pcs w pc = Some self" "pc_sessionManager self = Some sm"
  shows "answer_frame pc w w' \<and> length as = length ms \<and> (\<exists>self'. w_pcs w' pc = Some self' \<and>
    pc_sessionManager self' = Some (fst (SetExtensions sm (concat (map (offered_exts lib) ms)))) \<and>
    (pc_remoteStream self' \<noteq> None \<longleftrightarrow> pc_remoteStream self \<noteq> None \<or> (\<exists>m \<in> set ms. peer_sends lib (offered_direction lib m))) \<and>
    pc_remoteUsername self' = (if ms = [] then pc_remoteUsername self else offered_string lib (last ms) ''iceUfrag'') \<and>
    pc_remotePassword self' = (if ms = [] then pc_remotePassword self else offered_string lib (last ms) ''icePwd''))"
  using assms
proof (induction ms arbitrary: w self sm as)
  case (Cons m ms)
  obtain w1 a as' where 1: "answer_media lib pc sid msid cname m w = Inr (w1, a)" "answer_medias lib pc sid msid cname ms w1 = Inr (w', as')" "as = a # as'"
    using Cons.prems(1) by (auto simp: bindr_eq_Inr)
  note m = answer_media_eq [OF 1(1) Cons.prems(2,3)]
  from Cons.IH [OF 1(2) conjunct2 [OF m]] m answer_frame_trans [of pc w w1 w'] 1(3) show ?case
    by (auto simp: SetExtensions_append simp del: not_None_eq)
qed simp

lemma CreateAnswer_eq:
  assumes "CreateAnswer lib callback now uuid1 uuid2 sid pc offer w = Inr (w', answer)" and "w_pcs w pc = Some self"
    and "js_parse lib offer = Inr offerJ" and "js_at lib offerJ ''media'' = Inr mediaJ" and "js_elems lib mediaJ = ms" and "ms \<noteq> []"
    and "\<And>rs v v'. callback rs v = Inr v' \<Longrightarrow> w_pcs v' pc = w_pcs v pc"
  shows "\<exists>self' sm. w_pcs w' pc = Some self' \<and> pc_localPassword self' = pc_localPassword self \<and>
    srv_pcTable (w_server w') (pc_name (pc_localUsername self) (offered_string lib (last ms) ''iceUfrag'')) = Some pc \<and>
    pc_sessionManager self' = Some sm \<and>
    GetExtensionId sm ExtTransportCC = (let ids = {i. \<exists>m \<in> set ms. (i, transport_cc_uri) \<in> set (offered_exts lib m)} in
      if ids = {} then None else Some (Min ids)) \<and>
    (pc_remoteStream self' \<noteq> None \<longleftrightarrow> pc_remoteStream self \<noteq> None \<or> (\<exists>m \<in> set ms. peer_sends lib (offered_direction lib m)))"
proof -
  let ?w = "upd_pc pc (\<lambda>self. self\<lparr>pc_sessionManager := Some (RTPSessionManager_new now)\<rparr>) w"
  obtain msid w1 as self1 w2 self2 where
    r: "answer_medias lib pc sid msid uuid2 ms ?w = Inr (w1, as)" "w_pcs w1 pc = Some self1"
      "(case pc_remoteStream self1 of None \<Rightarrow> Inr w1 | Some rs \<Rightarrow> if pc_callback self1 then callback rs w1 else Inl Thrown) = Inr w2"
      "w_pcs w2 pc = Some self2" "w' = w2\<lparr>w_server := AddPC (w_server w2) (pc_localUsername self2) (pc_remoteUsername self2) pc\<rparr>"
    using assms(1-5) by (auto simp: CreateAnswer_def Let_def bindr_eq_Inr)
  have "w_pcs w2 pc = w_pcs w1 pc" using r(3) assms(7) by (auto split: option.splits if_splits)
  then have same: "self2 = self1" using r(2,4) by simp
  have "w_pcs ?w pc = Some (self\<lparr>pc_sessionManager := Some (RTPSessionManager_new now)\<rparr>)" using assms(2) by (simp add: w_pcs_upd_pc)
  from answer_medias_eq [OF r(1) this] r(2) this have m: "answer_frame pc ?w w1"
      "pc_sessionManager self1 = Some (fst (SetExtensions (RTPSessionManager_new now) (concat (map (offered_exts lib) ms))))"
      "pc_remoteStream self1 \<noteq> None \<longleftrightarrow> pc_remoteStream self \<noteq> None \<or> (\<exists>m \<in> set ms. peer_sends lib (offered_direction lib m))"
      "pc_remoteUsername self1 = offered_string lib (last ms) ''iceUfrag''"
    using assms(6) by auto
  have "pc_localUsername self1 = pc_localUsername self" "pc_localPassword self1 = pc_localPassword self"
    using m(1) r(2) assms(2) by (auto simp: answer_frame_def w_pcs_upd_pc pc_kept_def)
  moreover have "{i. (i, transport_cc_uri) \<in> set (concat (map (offered_exts lib) ms))} =
      {i. \<exists>m \<in> set ms. (i, transport_cc_uri) \<in> set (offered_exts lib m)}" by auto
  ultimately show ?thesis
    using m GetExtensionId_negotiated [of now "concat (map (offered_exts lib) ms)"] r(4)
    by (intro exI [of _ self1]) (simp add: r(5) same AddPC_def)
qed

text \<open>What the answer relies on in the JSON library: a member of an object literal is found, and setting one leaves the others.\<close>

definition json_laws :: "'j json_lib \<Rightarrow> bool" where
  "json_laws lib \<longleftrightarrow>
     (\<forall>kvs k v. distinct (map fst kvs) \<longrightarrow> (k, v) \<in> set kvs \<longrightarrow> js_at lib (js_obj lib kvs) k = Inr v) \<and>
     (\<forall>j k v j' k'. js_set lib j k v = Inr j' \<longrightarrow> k \<noteq> k' \<longrightarrow> js_at lib j' k' = js_at lib j k')"

lemma answer_media_at:
  assumes "json_laws lib" and "answer_media lib pc sid msid cname media w = Inr (w', a)" and "w_pcs w pc = Some self"
  shows "js_at lib a ''mid'' = js_at lib media ''mid'' \<and> js_at lib a ''type'' = js_at lib media ''type'' \<and>
    js_at lib a ''direction'' = Inr (js_str lib (if peer_sends lib (offered_direction lib media) then ''recvonly'' else ''sendonly'')) \<and>
    js_at lib a ''iceUfrag'' = Inr (js_str lib (pc_localUsername self)) \<and>
    js_at lib a ''icePwd'' = Inr (js_str lib (pc_localPassword self))"
proof -
  from assms(2,3) obtain dir aExt aRtcpFb t rtp fmtp payloads mid protocol v where
    r: "js_at lib media ''direction'' = Inr dir" "js_at lib media ''mid'' = Inr mid" "js_at lib media ''type'' = Inr t"
      "answer_ssrcs lib (local_stream v self) msid cname dir t (js_obj lib (media_members lib self (srv_candidateIp (w_server w))
         (if peer_sends lib dir then ''recvonly'' else ''sendonly'') aExt aRtcpFb t rtp fmtp payloads mid protocol)) = Inr a"
    unfolding answer_media_def Let_def bindr_eq_Inr by (auto simp: bindr_eq_Inr)
  let ?kvs = "media_members lib self (srv_candidateIp (w_server w))
         (if peer_sends lib dir then ''recvonly'' else ''sendonly'') aExt aRtcpFb t rtp fmtp payloads mid protocol"
  have d: "distinct (map fst ?kvs)" by (simp add: media_members_def Let_def)
  have at: "js_at lib a k = Inr x" if "(k, x) \<in> set ?kvs" "k \<noteq> ''ssrcs''" for k x
  proof -
    have "js_at lib (js_obj lib ?kvs) k = Inr x" using assms(1) d that(1) by (simp add: json_laws_def)
    moreover have "a = js_obj lib ?kvs \<or> (\<exists>x. js_set lib (js_obj lib ?kvs) ''ssrcs'' x = Inr a)"
      using r(4) by (auto simp: answer_ssrcs_def split: if_splits option.splits)
    ultimately show ?thesis using assms(1) that(2) by (auto simp: json_laws_def)
  qed
  show ?thesis
    unfolding r(2,3) offered_direction_def r(1) sum.case
    by (intro conjI at) (simp_all add: media_members_def Let_def)
qed

text \<open>The same holds in every iteration, so every section of the written answer carries the credentials.\<close>

lemma answer_medias_at:
  assumes "json_laws lib" and "answer_medias lib pc sid msid cname ms w = Inr (w', as)" and "w_pcs w pc = Some self"
    and "pc_sessionManager self = Some sm"
  shows "\<forall>a \<in> set as. js_at lib a ''iceUfrag'' = Inr (js_str lib (pc_localUsername self)) \<and>
    js_at lib a ''icePwd'' = Inr (js_str lib (pc_localPassword self))"
  using assms(2-4)
proof (induction ms arbitrary: w self sm as)
  case (Cons m ms)
  obtain w1 a as' where 1: "answer_media lib pc sid msid cname m w = Inr (w1, a)" "answer_medias lib pc sid msid cname ms w1 = Inr (w', as')" "as = a # as'"
    using Cons.prems(1) by (auto simp: bindr_eq_Inr)
  note m = answer_media_eq [OF 1(1) Cons.prems(2,3)]
  show ?case using Cons.IH [OF 1(2) conjunct2 [OF m]] answer_media_at [OF assms(1) 1(1) Cons.prems(2)] 1(3) by simp
qed simp

lemma CreateAnswer_writes:
  assumes "json_laws lib" and "\<And>j k v j'. js_set lib j k v = Inr j' \<Longrightarrow> js_at lib j' k = Inr v"
    and "CreateAnswer lib callback now uuid1 uuid2 sid pc offer w = Inr (w', answer)" and "w_pcs w pc = Some self"
    and "js_parse lib offer = Inr offerJ" and "js_at lib offerJ ''media'' = Inr mediaJ" and "js_elems lib mediaJ = ms"
  shows "\<exists>j as. js_write lib j = Inr answer \<and> js_at lib j ''media'' = Inr (js_arr lib as) \<and> length as = length ms \<and>
    (\<forall>a \<in> set as. js_at lib a ''iceUfrag'' = Inr (js_str lib (pc_localUsername self)) \<and>
      js_at lib a ''icePwd'' = Inr (js_str lib (pc_localPassword self)))"
proof -
  let ?w = "upd_pc pc (\<lambda>self. self\<lparr>pc_sessionManager := Some (RTPSessionManager_new now)\<rparr>) w"
  obtain msid w1 as j0 j where
    r: "answer_medias lib pc sid msid uuid2 ms ?w = Inr (w1, as)" "js_set lib j0 ''media'' (js_arr lib as) = Inr j" "js_write lib j = Inr answer"
    using assms(3-7) by (auto simp: CreateAnswer_def Let_def bindr_eq_Inr)
  have w: "w_pcs ?w pc = Some (self\<lparr>pc_sessionManager := Some (RTPSessionManager_new now)\<rparr>)" using assms(4) by (simp add: w_pcs_upd_pc)
  from answer_medias_at [OF assms(1) r(1) w] answer_medias_eq [OF r(1) w] assms(2) [OF r(2)] r(3) show ?thesis
    by (intro exI [of _ j] exI [of _ as]) simp
qed

section \<open>Properties\<close>

text \<open>
  C18. When an answer is returned, the connection is registered with the server under its
  own name and the user name of the last offered media section, so that the server finds
  it for binding requests with that pair; its session manager looks up transport-wide
  numbers under the least identifier that any media section offered for them; and it has a
  remote stream exactly if it had one before or some section is sent by the peer. This
  holds for every JSON library; the registered callback must leave the connection alone.
\<close>

theorem answer_registers_connection:
  assumes "CreateAnswer lib callback now uuid1 uuid2 sid pc offer w = Inr (w', answer)" and "w_pcs w pc = Some self"
    and "js_parse lib offer = Inr offerJ" and "js_at lib offerJ ''media'' = Inr mediaJ" and "js_elems lib mediaJ = ms" and "ms \<noteq> []"
    and "\<And>rs v v'. callback rs v = Inr v' \<Longrightarrow> w_pcs v' pc = w_pcs v pc"
  shows "\<exists>self' sm. w_pcs w' pc = Some self' \<and> pc_localPassword self' = pc_localPassword self \<and>
    srv_pcTable (w_server w') (pc_name (pc_localUsername self) (offered_string lib (last ms) ''iceUfrag'')) = Some pc \<and>
    pc_sessionManager self' = Some sm \<and>
    GetExtensionId sm ExtTransportCC = (let ids = {i. \<exists>m \<in> set ms. (i, transport_cc_uri) \<in> set (offered_exts lib m)} in
      if ids = {} then None else Some (Min ids)) \<and>
    (pc_remoteStream self' \<noteq> None \<longleftrightarrow> pc_remoteStream self \<noteq> None \<or> (\<exists>m \<in> set ms. peer_sends lib (offered_direction lib m)))"
  using assms by (rule CreateAnswer_eq)

text \<open>
  C37. Each answered media section mirrors the offered one: it keeps its identifier and type,
  turns a sending direction into \<open>recvonly\<close> and any other into \<open>sendonly\<close>, and carries the
  connection's own ICE credentials.
\<close>

theorem answer_mirrors_media:
  assumes "json_laws lib" and "answer_media lib pc sid msid cname media w = Inr (w', a)" and "w_pcs w pc = Some self"
  shows "js_at lib a ''mid'' = js_at lib media ''mid'' \<and> js_at lib a ''type'' = js_at lib media ''type'' \<and>
    js_at lib a ''direction'' = Inr (js_str lib (if peer_sends lib (offered_direction lib media) then ''recvonly'' else ''sendonly'')) \<and>
    js_at lib a ''iceUfrag'' = Inr (js_str lib (pc_localUsername self)) \<and>
    js_at lib a ''icePwd'' = Inr (js_str lib (pc_localPassword self))"
  using assms by (rule answer_media_at)

section \<open>A concrete library\<close>

text \<open>
  JSON values and the library operations on them, as the documentation of the C++ library
  describes them, to evaluate answers on.
\<close>

datatype json = JNull | JNum int | JStr string | JArr "json list" | JObj "(string \<times> json) list"

fun json_at :: "json \<Rightarrow> string \<Rightarrow> json res" where
  "json_at JNull k = Inr JNull"
| "json_at (JObj kvs) k = Inr (case map_of kvs k of None \<Rightarrow> JNull | Some v \<Rightarrow> v)"
| "json_at _ k = Inl Thrown"

fun json_set :: "json \<Rightarrow> string \<Rightarrow> json \<Rightarrow> json res" where
  "json_set JNull k v = Inr (JObj [(k, v)])"
| "json_set (JObj kvs) k v = Inr (JObj (AList.update k v kvs))"
| "json_set _ k v = Inl Thrown"

fun json_idx :: "json \<Rightarrow> nat \<Rightarrow> json res" where
  "json_idx JNull i = Inr JNull"
| "json_idx (JArr xs) i = Inr (if i < length xs then xs ! i else JNull)"
| "json_idx _ i = Inl Thrown"

fun json_push :: "json \<Rightarrow> json \<Rightarrow> json res" where
  "json_push JNull v = Inr (JArr [v])"
| "json_push (JArr xs) v = Inr (JArr (xs @ [v]))"
| "json_push _ v = Inl Thrown"

fun json_elems :: "json \<Rightarrow> json list" where
  "json_elems JNull = []"
| "json_elems (JArr xs) = xs"
| "json_elems (JObj kvs) = map snd kvs"
| "json_elems j = [j]"

definition json_sample :: "json \<Rightarrow> json json_lib" where
  "json_sample offer = \<lparr>js_parse = \<lambda>_. Inr offer, js_write = \<lambda>_. Inr ''answer'', js_null = JNull, js_str = JStr, js_num = JNum,
     js_obj = JObj, js_arr = JArr, js_at = json_at, js_set = json_set, js_idx = json_idx, js_push = json_push,
     js_elems = json_elems, js_is = \<lambda>j s. j = JStr s,
     js_get_str = \<lambda>j. case j of JStr s \<Rightarrow> Inr s | _ \<Rightarrow> Inl Thrown,
     js_get_u8 = \<lambda>j. case j of JNum i \<Rightarrow> Inr (word_of_int i) | _ \<Rightarrow> Inl Thrown,
     js_get_u32 = \<lambda>j. case j of JNum i \<Rightarrow> Inr (word_of_int i) | _ \<Rightarrow> Inl Thrown\<rparr>"

definition sample_media :: json where
  "sample_media = JObj [(''direction'', JStr ''sendonly''), (''type'', JStr ''video''), (''mid'', JStr ''0''),
     (''ssrcs'', JArr [JObj [(''id'', JNum 42)]]), (''iceUfrag'', JStr ''x''), (''icePwd'', JStr ''y''),
     (''ext'', JArr [JObj [(''value'', JNum 3), (''uri'', JStr transport_cc_uri)]])]"

definition sample_lib :: "json json_lib" where
  "sample_lib = json_sample (JObj [(''media'', JArr [sample_media])])"

lemma sample_lib_laws: "json_laws sample_lib"
proof -
  have "json_at j' k' = json_at j k'" if "json_set j k v = Inr j'" "k \<noteq> k'" for j k v j' k'
    using that by (cases j) (auto simp: update_conv')
  then show ?thesis by (auto simp: json_laws_def sample_lib_def json_sample_def)
qed

lemma sample_lib_fields [simp]:
  "js_parse sample_lib s = Inr (JObj [(''media'', JArr [sample_media])])" "js_write sample_lib = (\<lambda>_. Inr ''answer'')"
  "js_null sample_lib = JNull" "js_str sample_lib = JStr" "js_num sample_lib = JNum"
  "js_obj sample_lib = JObj" "js_arr sample_lib = JArr" "js_at sample_lib = json_at" "js_set sample_lib = json_set"
  "js_idx sample_lib = json_idx" "js_push sample_lib = json_push" "js_elems sample_lib = json_elems"
  "js_is sample_lib = (\<lambda>j s. j = JStr s)"
  "js_get_str sample_lib (JStr s) = Inr s" "js_get_u8 sample_lib (JNum i) = Inr (word_of_int i)"
  "js_get_u32 sample_lib (JNum i) = Inr (word_of_int i)"
  by (simp_all add: sample_lib_def json_sample_def)

lemma sample_answer_media:
  assumes "w_pcs w 1 = Some self" "pc_sessionManager self = Some sm" "pc_remoteStream self = Some rs" "w_streams w rs = Some s"
  shows "\<exists>w' a. answer_media sample_lib 1 6 m c sample_media w = Inr (w', a)"
  using assms
  by (simp add: answer_media_def sample_media_def Let_def peer_sends_def peer_receives_def answer_ssrcs_def learn_stream_def
      SetExtension_def w_pcs_upd_pc del: One_nat_def)

lemma sample_answer: "\<exists>w' a. CreateAnswer sample_lib (\<lambda>rs w. Inr w) 0 ''u'' ''v'' 6 1 ''o'' sample_world = Inr (w', a)"
proof -
  let ?w = "upd_pc 1 (\<lambda>self. self\<lparr>pc_sessionManager := Some (RTPSessionManager_new 0)\<rparr>) sample_world"
  let ?self = "(sample_pc ''p'')\<lparr>pc_sessionManager := Some (RTPSessionManager_new 0)\<rparr>"
  have pc: "w_pcs ?w 1 = Some ?self" by (simp add: w_pcs_upd_pc sample_facts(1) del: One_nat_def)
  obtain w1 a where m: "answer_media sample_lib 1 6 ''*'' ''v'' sample_media ?w = Inr (w1, a)"
  proof -
    have five: "pc_remoteStream ?self = Some 5" "w_streams ?w 5 = Some \<lparr>ms_sinks = [(''q'', 2), (''r'', 3)], ms_audioSSRC = 0, ms_videoSSRC = 42\<rparr>"
      by (simp_all add: sample_facts)
    show thesis using sample_answer_media [OF pc _ five, of "RTPSessionManager_new 0" "''*''" "''v''"] that by auto
  qed
  have "pc_sessionManager ?self = Some (RTPSessionManager_new 0)" by simp
  note f = answer_media_eq [OF m pc this]
  then obtain self1 where "w_pcs w1 1 = Some self1" "pc_callback self1" by (auto simp: sample_pc_def simp del: One_nat_def)
  moreover have "pc_localStream (sample_pc ''p'') = None" by (simp add: sample_pc_def)
  ultimately show ?thesis
    using m sample_facts(1)
    by (simp add: CreateAnswer_def createBaseSdp_def Let_def sample_facts(1) del: One_nat_def split: option.splits)
qed

theorem answer_registers_connection_witness:
  "\<exists>w' a. CreateAnswer sample_lib (\<lambda>rs w. Inr w) 0 ''u'' ''v'' 6 1 ''o'' sample_world = Inr (w', a) \<and>
    srv_pcTable (w_server w') ''ab:x'' = Some 1"
proof -
  obtain w' a where r: "CreateAnswer sample_lib (\<lambda>rs w. Inr w) 0 ''u'' ''v'' 6 1 ''o'' sample_world = Inr (w', a)"
    using sample_answer by blast
  have "offered_string sample_lib sample_media ''iceUfrag'' = ''x''" by (simp add: offered_string_def sample_media_def)
  moreover have "pc_localUsername (sample_pc ''p'') = ''ab''" by (simp add: sample_pc_def)
  ultimately show ?thesis
    using answer_registers_connection [OF r sample_facts(1), of "JObj [(''media'', JArr [sample_media])]" "JArr [sample_media]" "[sample_media]"] r
    by (auto simp: pc_name_def)
qed

theorem answer_mirrors_media_witness:
  "\<exists>w' a. answer_media sample_lib 1 6 ''*'' ''v'' sample_media sample_world = Inr (w', a) \<and>
    json_at a ''direction'' = Inr (JStr ''recvonly'') \<and> json_at a ''mid'' = Inr (JStr ''0'')"
proof -
  obtain w' a where r: "answer_media sample_lib 1 6 ''*'' ''v'' sample_media sample_world = Inr (w', a)"
    using sample_answer_media [OF sample_facts(1,2,3,5)] by blast
  have "peer_sends sample_lib (offered_direction sample_lib sample_media)"
    by (simp add: peer_sends_def offered_direction_def sample_media_def)
  moreover have "json_at sample_media ''mid'' = Inr (JStr ''0'')" by (simp add: sample_media_def)
  ultimately show ?thesis
    using answer_mirrors_media [OF sample_lib_laws r sample_facts(1)] r by auto
qed

end
