(* ===== verification/Lost_Session.thy ===== *)
theory Lost_Session
  imports Rtp_Packet
begin

text \<open>
  The loss detector (\<open>RTPLostSession\<close> in \<open>rtp_session_manager.h\<close> and \<open>.cpp\<close>): a ring of 256
  slots indexed by the extended sequence number, the number of slots that stand for a lost
  packet and the next expected number. A slot whose \<open>created_at_time\<close> is zero and whose
  number is set stands for a lost packet. The abstract machine at the end keeps the set of
  missing numbers; the ring implements it.
\<close>

unbundle bit_operations_syntax

section \<open>Data\<close>

record PacketInfo =
  loss_at_time :: u64
  created_at_time :: u64
  sent_at_time :: u64
  retry :: byte
  info_extSeq :: int

definition PacketInfo_default :: PacketInfo where
  "PacketInfo_default = \<lparr>loss_at_time = 0, created_at_time = 0, sent_at_time = 0, retry = 0, info_extSeq = -1\<rparr>"

definition PacketInfo_new :: "u32 \<Rightarrow> u64 \<Rightarrow> PacketInfo" where
  "PacketInfo_new extSeq create_time =
     PacketInfo_default\<lparr>info_extSeq := uint extSeq, created_at_time := create_time\<rparr>"

record RTPLostSession =
  ls_packets :: "PacketInfo list"
  ls_totalLost :: u16
  ls_nextSeq :: u32

definition Size :: nat where "Size = 256"

definition RTPLostSession_new :: RTPLostSession where
  "RTPLostSession_new = \<lparr>ls_packets = replicate Size PacketInfo_default, ls_totalLost = 0, ls_nextSeq = 0\<rparr>"

section \<open>Operations\<close>

definition nackWaitTime :: u64 where "nackWaitTime = 20"
definition jitterTime :: u64 where "jitterTime = 5"

definition isCountInTotalLost :: "PacketInfo \<Rightarrow> bool" where
  "isCountInTotalLost pkt \<longleftrightarrow> created_at_time pkt = 0 \<and> info_extSeq pkt \<noteq> -1"

text \<open>
  \<open>fmax\<close> compares in floating point; both of its arguments are below $2^{32}$, so the
  comparison with the 64-bit difference is that of the integers.
\<close>

definition isLost :: "PacketInfo \<Rightarrow> u64 \<Rightarrow> u32 \<Rightarrow> bool" where
  "isLost pkt now rtt \<longleftrightarrow>
     created_at_time pkt = 0 \<and>
     now - loss_at_time pkt > jitterTime \<and>
     now - sent_at_time pkt > max nackWaitTime (ucast rtt) \<and>
     retry pkt < 20 \<and>
     info_extSeq pkt \<noteq> -1"

definition Reset :: "RTPLostSession \<Rightarrow> RTPLostSession" where
  "Reset self = self\<lparr>ls_packets := replicate Size PacketInfo_default, ls_totalLost := 0, ls_nextSeq := 0\<rparr>"

text \<open>Access to the vector by an unchecked index.\<close>

definition slot :: "RTPLostSession \<Rightarrow> nat \<Rightarrow> PacketInfo res" where
  "slot self i = (if i < length (ls_packets self) then Inr (ls_packets self ! i) else Inl OutOfBounds)"

definition put :: "RTPLostSession \<Rightarrow> nat \<Rightarrow> PacketInfo \<Rightarrow> RTPLostSession res" where
  "put self i info = (if i < length (ls_packets self)
     then Inr (self\<lparr>ls_packets := (ls_packets self)[i := info]\<rparr>) else Inl OutOfBounds)"

text \<open>Covering a slot that counts as lost takes it off the total.\<close>

definition cover :: "RTPLostSession \<Rightarrow> nat \<Rightarrow> RTPLostSession res" where
  "cover self i = bindr (slot self i) (\<lambda>pkt.
     Inr (if isCountInTotalLost pkt then self\<lparr>ls_totalLost := ls_totalLost self - 1\<rparr> else self))"

definition mark_lost :: "RTPLostSession \<Rightarrow> u64 \<Rightarrow> RTPLostSession res" where
  "mark_lost self now =
     (let nx = unat (ls_nextSeq self mod 256) in
      bindr (cover self nx) (\<lambda>self.
      bindr (put self nx ((PacketInfo_new (ls_nextSeq self) 0)\<lparr>loss_at_time := now\<rparr>)) (\<lambda>self.
      Inr (self\<lparr>ls_nextSeq := ls_nextSeq self + 1, ls_totalLost := ls_totalLost self + 1\<rparr>))))"

lemma mark_lost_nextSeq: "mark_lost self now = Inr self' \<Longrightarrow> ls_nextSeq self' = ls_nextSeq self + 1"
  by (auto simp: mark_lost_def cover_def put_def Let_def bindr_eq_Inr split: if_splits)

text \<open>The gap loop: \<open>n\<close> iterations are left when \<open>nextSeq\<close> is \<open>n\<close> below \<open>extSeq\<close>.\<close>

function mark_gap :: "RTPLostSession \<Rightarrow> u32 \<Rightarrow> u64 \<Rightarrow> RTPLostSession res" where
  "mark_gap self extSeq now =
     (if ls_nextSeq self < extSeq
      then bindr (mark_lost self now) (\<lambda>self'. mark_gap self' extSeq now)
      else Inr self)"
  by pat_completeness auto

termination
proof (relation "measure (\<lambda>(self, extSeq, now). unat extSeq - unat (ls_nextSeq self))")
  fix self self' :: RTPLostSession and extSeq :: u32 and now :: u64
  assume lt: "ls_nextSeq self < extSeq" and "mark_lost self now = Inr self'"
  then have "ls_nextSeq self' = ls_nextSeq self + 1" by (simp add: mark_lost_nextSeq)
  moreover have "unat (ls_nextSeq self + 1) = unat (ls_nextSeq self) + 1"
    using lt by (rule unat_succ)
  moreover have "unat (ls_nextSeq self) < unat extSeq" using lt by (simp add: word_less_nat_alt)
  ultimately show "((self', extSeq, now), (self, extSeq, now)) \<in> measure (\<lambda>(self, extSeq, now). unat extSeq - unat (ls_nextSeq self))"
    by simp
qed simp

declare mark_gap.simps [simp del]

definition LostSession_AddPacket :: "RTPLostSession \<Rightarrow> RTPPacket \<Rightarrow> (RTPLostSession \<times> u16) res" where
  "LostSession_AddPacket self packet =
     (let extSeq = ExtSeqNum packet; now = rtp_recvTimeMS packet;
          self = (if extSeq > ls_nextSeq self \<and> extSeq - ls_nextSeq self \<ge> 255
            then self\<lparr>ls_packets := replicate Size PacketInfo_default, ls_totalLost := 0, ls_nextSeq := 0\<rparr> else self);
          pos = unat (extSeq mod 256) in
      if ls_nextSeq self = 0
      then bindr (put self pos (PacketInfo_new extSeq now)) (\<lambda>self.
           Inr (self\<lparr>ls_nextSeq := extSeq + 1\<rparr>, ls_totalLost self))
      else bindr (if ls_nextSeq self \<le> extSeq
             then bindr (mark_gap self extSeq now) (\<lambda>self.
                  if ls_nextSeq self \<noteq> extSeq then Inl AssertFailed
                  else bindr (cover self pos) (\<lambda>self.
                       bindr (put self pos (PacketInfo_new extSeq now)) (\<lambda>self.
                       Inr (self\<lparr>ls_nextSeq := ls_nextSeq self + 1\<rparr>))))
             else bindr (cover self pos) (\<lambda>self.
                  put self pos (PacketInfo_new extSeq now))) (\<lambda>self.
           if ls_totalLost self \<le> 256 then Inr (self, ls_totalLost self) else Inl AssertFailed))"

section \<open>The missing numbers\<close>

definition missing_of :: "PacketInfo list \<Rightarrow> nat set" where
  "missing_of ps = {nat (info_extSeq (ps ! i)) | i. i < length ps \<and> isCountInTotalLost (ps ! i)}"

text \<open>
  Every slot that counts as lost sits at its number modulo 256, and its number is among the
  256 before \<open>n\<close>.
\<close>

definition ring_ok :: "PacketInfo list \<Rightarrow> nat \<Rightarrow> bool" where
  "ring_ok ps n \<longleftrightarrow> length ps = 256 \<and> (\<forall>i < 256. isCountInTotalLost (ps ! i) \<longrightarrow>
     0 \<le> info_extSeq (ps ! i) \<and> nat (info_extSeq (ps ! i)) mod 256 = i \<and>
     nat (info_extSeq (ps ! i)) < n \<and> n \<le> nat (info_extSeq (ps ! i)) + 256)"

definition lost_inv :: "RTPLostSession \<Rightarrow> bool" where
  "lost_inv s \<longleftrightarrow> ring_ok (ls_packets s) (unat (ls_nextSeq s)) \<and>
     ls_totalLost s = word_of_nat (card (missing_of (ls_packets s)))"

lemma ring_window: "ring_ok ps n \<Longrightarrow> m \<in> missing_of ps \<Longrightarrow> m < n \<and> n \<le> m + 256"
  by (auto simp: ring_ok_def missing_of_def)

lemma ring_finite: "ring_ok ps n \<Longrightarrow> finite (missing_of ps)"
  by (rule finite_subset [of _ "{..<n}"]) (auto dest: ring_window)

lemma ring_card: "ring_ok ps n \<Longrightarrow> card (missing_of ps) \<le> 256"
proof -
  assume "ring_ok ps n"
  then have "missing_of ps \<subseteq> {n - 256..<n}" by (auto dest: ring_window)
  then have "card (missing_of ps) \<le> card {n - 256..<n}" by (intro card_mono) auto
  then show ?thesis by simp
qed

lemma counted_iff: "ring_ok ps n \<Longrightarrow> i < 256 \<Longrightarrow> isCountInTotalLost (ps ! i) \<longleftrightarrow> (\<exists>m \<in> missing_of ps. m mod 256 = i)"
  by (auto simp: ring_ok_def missing_of_def)

lemma same_class: "ring_ok ps n \<Longrightarrow> m \<in> missing_of ps \<Longrightarrow> k \<in> missing_of ps \<Longrightarrow> m mod 256 = k mod 256 \<Longrightarrow> m = k"
  by (auto simp: ring_ok_def missing_of_def)

lemma missing_put:
  assumes "ring_ok ps n" "i < 256"
  shows "missing_of (ps[i := q]) =
    {m \<in> missing_of ps. m mod 256 \<noteq> i} \<union> (if isCountInTotalLost q then {nat (info_extSeq q)} else {})"
  using assms by (auto simp: ring_ok_def missing_of_def nth_list_update)

lemma ring_put_received:
  assumes "ring_ok ps n" "i < 256" "\<not> isCountInTotalLost q"
  shows "ring_ok (ps[i := q]) n"
  using assms by (auto simp: ring_ok_def nth_list_update)

lemma card_class:
  assumes "ring_ok ps n" "i < 256"
  shows "word_of_nat (card {m \<in> missing_of ps. m mod 256 \<noteq> i}) =
    (word_of_nat (card (missing_of ps)) - (if isCountInTotalLost (ps ! i) then 1 else 0) :: u16)"
proof (cases "isCountInTotalLost (ps ! i)")
  case True
  then obtain m where m: "m \<in> missing_of ps" "m mod 256 = i" using counted_iff [OF assms] by blast
  then have "{k \<in> missing_of ps. k mod 256 \<noteq> i} = missing_of ps - {m}" using same_class [OF assms(1)] by auto
  moreover have "card (missing_of ps) = Suc (card (missing_of ps - {m}))"
    by (rule card_Suc_Diff1 [symmetric, OF ring_finite [OF assms(1)] m(1)])
  ultimately show ?thesis using True by simp
next
  case False
  then have "{k \<in> missing_of ps. k mod 256 \<noteq> i} = missing_of ps" using counted_iff [OF assms] by blast
  then show ?thesis using False by simp
qed

lemma cover_eq:
  assumes "ring_ok (ls_packets s) n" "i < 256" "ls_totalLost s = word_of_nat (card (missing_of (ls_packets s)))"
  shows "cover s i = Inr (s\<lparr>ls_totalLost := word_of_nat (card {m \<in> missing_of (ls_packets s). m mod 256 \<noteq> i})\<rparr>)"
proof -
  have "length (ls_packets s) = 256" using assms(1) by (simp add: ring_ok_def)
  then show ?thesis using card_class [OF assms(1,2)] assms(2,3) by (simp add: cover_def slot_def)
qed

lemma lost_info:
  "isCountInTotalLost ((PacketInfo_new n 0)\<lparr>loss_at_time := now\<rparr>)"
  "info_extSeq ((PacketInfo_new n 0)\<lparr>loss_at_time := now\<rparr>) = uint n"
  by (simp_all add: PacketInfo_new_def PacketInfo_default_def isCountInTotalLost_def neq_iff)

lemma received_info: "now \<noteq> 0 \<Longrightarrow> \<not> isCountInTotalLost (PacketInfo_new n now)"
  by (simp add: PacketInfo_new_def PacketInfo_default_def isCountInTotalLost_def)

lemma pos_of: "unat ((n :: u32) mod 256) = unat n mod 256"
  by (simp add: unat_mod)

lemma unat_uint_nat: "nat (uint (n :: u32)) = unat n"
  by simp

lemma window_class:
  fixes m n :: nat
  assumes "m < n" "n \<le> m + 256"
  shows "m mod 256 \<noteq> n mod 256 \<longleftrightarrow> n < m + 256"
proof (cases "n = m + 256")
  case False
  have "\<not> 256 dvd n - m" using assms False by (intro nat_dvd_not_less) auto
  then have "n mod 256 \<noteq> m mod 256" using assms by (simp add: mod_eq_dvd_iff_nat)
  then show ?thesis using assms False by auto
qed simp

text \<open>One lost packet: its number joins the missing ones, the number 256 before it leaves them.\<close>

text \<open>The slot of a number that is found missing keeps the ring in order, one number further on.\<close>

lemma ring_mark:
  assumes ring: "ring_ok ps (unat n)"
  shows "ring_ok (ps[unat n mod 256 := (PacketInfo_new n 0)\<lparr>loss_at_time := now\<rparr>]) (unat n + 1)" (is "ring_ok ?ps (?n + 1)")
  unfolding ring_ok_def
proof (intro conjI allI impI)
  have len: "length ps = 256" using ring by (simp add: ring_ok_def)
  then show "length ?ps = 256" by simp
  fix i assume "i < 256" and c: "isCountInTotalLost (?ps ! i)"
  have "0 \<le> info_extSeq (?ps ! i) \<and> nat (info_extSeq (?ps ! i)) mod 256 = i \<and>
      nat (info_extSeq (?ps ! i)) < ?n + 1 \<and> ?n + 1 \<le> nat (info_extSeq (?ps ! i)) + 256"
  proof (cases "i = ?n mod 256")
    case True
    then show ?thesis using lost_info(2) [of now n] len by simp
  next
    case False
    let ?x = "nat (info_extSeq (ps ! i))"
    have x: "0 \<le> info_extSeq (ps ! i)" "?x mod 256 = i" "?x < ?n" "?n \<le> ?x + 256"
      using c False ring \<open>i < 256\<close> by (auto simp: ring_ok_def)
    then have "?n < ?x + 256" using window_class [OF x(3,4)] False by auto
    then show ?thesis using x False by simp
  qed
  then show "0 \<le> info_extSeq (?ps ! i)" "nat (info_extSeq (?ps ! i)) mod 256 = i"
      "nat (info_extSeq (?ps ! i)) < ?n + 1" "?n + 1 \<le> nat (info_extSeq (?ps ! i)) + 256"
    by blast+
qed

lemma mark_lost_eq:
  assumes inv: "lost_inv s" and lt: "ls_nextSeq s < e"
  shows "\<exists>s'. mark_lost s now = Inr s' \<and> lost_inv s' \<and> unat (ls_nextSeq s') = unat (ls_nextSeq s) + 1 \<and>
    missing_of (ls_packets s') = {m \<in> insert (unat (ls_nextSeq s)) (missing_of (ls_packets s)). unat (ls_nextSeq s) < m + 256}"
proof -
  let ?n = "unat (ls_nextSeq s)" and ?M = "missing_of (ls_packets s)"
  let ?i = "?n mod 256" and ?q = "(PacketInfo_new (ls_nextSeq s) 0)\<lparr>loss_at_time := now\<rparr>"
  have ring: "ring_ok (ls_packets s) ?n" and tot: "ls_totalLost s = word_of_nat (card ?M)"
    using inv by (auto simp: lost_inv_def)
  have len: "length (ls_packets s) = 256" using ring by (simp add: ring_ok_def)
  let ?ps = "(ls_packets s)[?i := ?q]" and ?K = "{m \<in> ?M. m mod 256 \<noteq> ?i}"
  let ?s' = "s\<lparr>ls_packets := ?ps, ls_nextSeq := ls_nextSeq s + 1, ls_totalLost := word_of_nat (card ?K) + 1\<rparr>"
  have M': "missing_of ?ps = insert ?n ?K"
    using missing_put [OF ring, of ?i ?q] lost_info by auto
  have K: "?K = {m \<in> ?M. ?n < m + 256}"
  proof -
    have "m mod 256 \<noteq> ?i \<longleftrightarrow> ?n < m + 256" if "m \<in> ?M" for m
      using ring_window [OF ring that] by (intro window_class) auto
    then show ?thesis by blast
  qed
  have run: "mark_lost s now = Inr ?s'"
    unfolding mark_lost_def Let_def pos_of using cover_eq [OF ring _ tot, of ?i] len by (simp add: put_def)
  have n': "unat (ls_nextSeq s + 1) = ?n + 1" using lt by (rule unat_succ)
  have "ring_ok ?ps (?n + 1)" using ring by (rule ring_mark)
  moreover have "?n \<notin> ?K" using ring_window [OF ring] by blast
  then have "word_of_nat (card ?K) + 1 = (word_of_nat (card (missing_of ?ps)) :: u16)"
    unfolding M' using ring_finite [OF ring] by (simp add: card_insert_disjoint)
  ultimately have "lost_inv ?s'" by (simp add: lost_inv_def n')
  then show ?thesis using run n' M' K by auto
qed

lemma mark_gap_eq:
  assumes "lost_inv s" "ls_nextSeq s \<le> e"
  shows "\<exists>s'. mark_gap s e now = Inr s' \<and> lost_inv s' \<and> ls_nextSeq s' = e \<and>
    missing_of (ls_packets s') = {m \<in> missing_of (ls_packets s) \<union> {unat (ls_nextSeq s)..<unat e}. unat e \<le> m + 256}"
  using assms
proof (induction s e now rule: mark_gap.induct)
  case (1 s e now)
  let ?n = "unat (ls_nextSeq s)" and ?M = "missing_of (ls_packets s)"
  show ?case
  proof (cases "ls_nextSeq s < e")
    case True
    obtain s1 where s1: "mark_lost s now = Inr s1" "lost_inv s1" "unat (ls_nextSeq s1) = ?n + 1"
        "missing_of (ls_packets s1) = {m \<in> insert ?n ?M. ?n < m + 256}"
      using mark_lost_eq [OF "1.prems"(1) True] by blast
    have lt: "?n < unat e" using True by (simp add: word_less_nat_alt)
    then have "ls_nextSeq s1 \<le> e" using s1(3) by (simp add: word_le_nat_alt)
    from "1.IH" [OF True s1(1,2) this] obtain s2 where s2: "mark_gap s1 e now = Inr s2" "lost_inv s2" "ls_nextSeq s2 = e"
        "missing_of (ls_packets s2) = {m \<in> missing_of (ls_packets s1) \<union> {?n + 1..<unat e}. unat e \<le> m + 256}"
      using s1(3) by auto
    have "missing_of (ls_packets s2) = {m \<in> ?M \<union> {?n..<unat e}. unat e \<le> m + 256}"
      unfolding s2(4) s1(4) using lt by auto
    then show ?thesis using s1(1) s2 True by (subst mark_gap.simps) simp
  next
    case False
    then have e: "ls_nextSeq s = e" using "1.prems"(2) by simp
    have "?M = {m \<in> ?M. unat e \<le> m + 256}"
      using ring_window [of "ls_packets s" "unat e"] "1.prems"(1) e by (auto simp: lost_inv_def)
    then show ?thesis using False "1.prems"(1) e by (subst mark_gap.simps) auto
  qed
qed

lemma receive_eq:
  assumes ring: "ring_ok (ls_packets s) n" and tot: "ls_totalLost s = word_of_nat (card (missing_of (ls_packets s)))"
    and now: "now \<noteq> 0"
  shows "\<exists>s'. bindr (cover s (unat (e mod 256))) (\<lambda>s. put s (unat (e mod 256)) (PacketInfo_new e now)) = Inr s' \<and>
    ls_nextSeq s' = ls_nextSeq s \<and> ring_ok (ls_packets s') n \<and>
    ls_totalLost s' = word_of_nat (card (missing_of (ls_packets s'))) \<and>
    missing_of (ls_packets s') = {m \<in> missing_of (ls_packets s). m mod 256 \<noteq> unat e mod 256}"
proof -
  let ?i = "unat e mod 256" and ?q = "PacketInfo_new e now"
  have i: "?i < 256" by simp
  have len: "length (ls_packets s) = 256" using ring by (simp add: ring_ok_def)
  note q = received_info [OF now, of e]
  have "missing_of ((ls_packets s)[?i := ?q]) = {m \<in> missing_of (ls_packets s). m mod 256 \<noteq> ?i}"
    using missing_put [OF ring i, of ?q] q by simp
  then show ?thesis
    unfolding pos_of using cover_eq [OF ring i tot] ring_put_received [OF ring i q] len by (simp add: put_def)
qed

section \<open>The abstract machine\<close>

text \<open>
  The specification keeps the next expected number and the set of missing ones. A jump of
  255 or more starts afresh; a smaller jump makes the skipped numbers missing and forgets
  those 256 or more behind; a late packet is no longer missing. A packet that is more than
  256 behind takes the place of a newer number of the same residue.
\<close>

definition spec_add :: "nat \<Rightarrow> nat \<times> nat set \<Rightarrow> nat \<times> nat set" where
  "spec_add e st = (case st of (n, M) \<Rightarrow>
     if n = 0 \<or> n < e \<and> 255 \<le> e - n then (e + 1, {})
     else if n \<le> e then (e + 1, {m \<in> M \<union> {n..<e}. e < m + 256})
     else if n \<le> e + 256 then (n, M - {e})
     else (n, {m \<in> M. m mod 256 \<noteq> e mod 256}))"

definition lost_abs :: "RTPLostSession \<Rightarrow> nat \<times> nat set" where
  "lost_abs s = (unat (ls_nextSeq s), missing_of (ls_packets s))"

lemma fresh_ring: "missing_of (replicate 256 PacketInfo_default) = {}" "ring_ok (replicate 256 PacketInfo_default) n"
  by (auto simp: missing_of_def ring_ok_def PacketInfo_default_def isCountInTotalLost_def)

lemma ring_no_missing: "length ps = 256 \<Longrightarrow> missing_of ps = {} \<Longrightarrow> ring_ok ps n"
  by (auto simp: missing_of_def ring_ok_def)

lemma first_packet:
  assumes "length (ls_packets s) = 256" "missing_of (ls_packets s) = {}" "ls_totalLost s = 0" "now \<noteq> 0" "e < - 1"
  shows "\<exists>s'. bindr (put s (unat (e mod 256)) (PacketInfo_new e now)) (\<lambda>s. Inr (s\<lparr>ls_nextSeq := e + 1\<rparr>, ls_totalLost s)) =
    Inr (s', ls_totalLost s') \<and> lost_inv s' \<and> lost_abs s' = (unat e + 1, {})"
proof -
  let ?i = "unat e mod 256" let ?ps = "(ls_packets s)[?i := PacketInfo_new e now]"
  have "missing_of ?ps = {}"
    using missing_put [OF ring_no_missing [OF assms(1,2)], of ?i "PacketInfo_new e now"] received_info [OF assms(4)] assms(2) by simp
  moreover have "unat (e + 1) = unat e + 1" using assms(5) by (rule unat_succ)
  moreover have "ring_ok ?ps k" for k using ring_no_missing [of ?ps] calculation(1) assms(1) by simp
  ultimately show ?thesis unfolding pos_of using assms(1,3) by (simp add: put_def lost_inv_def lost_abs_def)
qed

lemma future_packet:
  assumes inv: "lost_inv s" and le: "ls_nextSeq s \<le> e" and now: "now \<noteq> 0" and e: "e < - 1"
  shows "\<exists>s'. bindr (mark_gap s e now) (\<lambda>s. if ls_nextSeq s \<noteq> e then Inl AssertFailed
      else bindr (cover s (unat (e mod 256))) (\<lambda>s. bindr (put s (unat (e mod 256)) (PacketInfo_new e now)) (\<lambda>s.
        Inr (s\<lparr>ls_nextSeq := ls_nextSeq s + 1\<rparr>)))) = Inr s' \<and> lost_inv s' \<and>
    lost_abs s' = (unat e + 1, {m \<in> missing_of (ls_packets s) \<union> {unat (ls_nextSeq s)..<unat e}. unat e < m + 256})"
proof -
  let ?e = "unat e"
  obtain s1 where s1: "mark_gap s e now = Inr s1" "lost_inv s1" "ls_nextSeq s1 = e"
      "missing_of (ls_packets s1) = {m \<in> missing_of (ls_packets s) \<union> {unat (ls_nextSeq s)..<?e}. ?e \<le> m + 256}"
    using mark_gap_eq [OF inv le] by blast
  have ring: "ring_ok (ls_packets s1) ?e" and tot: "ls_totalLost s1 = word_of_nat (card (missing_of (ls_packets s1)))"
    using s1(2,3) by (auto simp: lost_inv_def)
  obtain s2 where s2: "bindr (cover s1 (unat (e mod 256))) (\<lambda>s. put s (unat (e mod 256)) (PacketInfo_new e now)) = Inr s2"
      "ls_nextSeq s2 = e" "ring_ok (ls_packets s2) ?e" "ls_totalLost s2 = word_of_nat (card (missing_of (ls_packets s2)))"
      "missing_of (ls_packets s2) = {m \<in> missing_of (ls_packets s1). m mod 256 \<noteq> ?e mod 256}"
    using receive_eq [OF ring tot now, of e] s1(3) by auto
  have n: "unat (e + 1) = ?e + 1" using e by (rule unat_succ)
  have cls: "m mod 256 \<noteq> ?e mod 256 \<longleftrightarrow> ?e < m + 256" if "m \<in> missing_of (ls_packets s1)" for m
    using ring_window [OF ring that] by (intro window_class) auto
  have M: "missing_of (ls_packets s2) = {m \<in> missing_of (ls_packets s) \<union> {unat (ls_nextSeq s)..<?e}. ?e < m + 256}"
  proof -
    have "missing_of (ls_packets s2) = {m \<in> missing_of (ls_packets s1). ?e < m + 256}" unfolding s2(5) using cls by blast
    moreover have "{m \<in> {m \<in> A. ?e \<le> m + 256}. ?e < m + 256} = {m \<in> A. ?e < m + 256}" for A :: "nat set"
      by (rule set_eqI) auto
    ultimately show ?thesis unfolding s1(4) by (simp only:)
  qed
  have "ring_ok (ls_packets s2) (?e + 1)"
    unfolding ring_ok_def
  proof (intro conjI allI impI)
    fix i assume "i < 256" and c: "isCountInTotalLost (ls_packets s2 ! i)"
    let ?x = "nat (info_extSeq (ls_packets s2 ! i))"
    have x: "0 \<le> info_extSeq (ls_packets s2 ! i)" "?x mod 256 = i" "?x < ?e" using c s2(3) \<open>i < 256\<close> by (auto simp: ring_ok_def)
    have "?x \<in> missing_of (ls_packets s2)" using c \<open>i < 256\<close> s2(3) by (auto simp: missing_of_def ring_ok_def)
    then have "?e < ?x + 256" using M by auto
    then show "0 \<le> info_extSeq (ls_packets s2 ! i)" "?x mod 256 = i" "?x < ?e + 1" "?e + 1 \<le> ?x + 256" using x by auto
  qed (use s2(3) in \<open>simp add: ring_ok_def\<close>)
  then have "lost_inv (s2\<lparr>ls_nextSeq := e + 1\<rparr>)" using s2(4) n by (simp add: lost_inv_def)
  then show ?thesis
    using s1(1,3) s2(1,2) M n
    by (intro exI [of _ "s2\<lparr>ls_nextSeq := e + 1\<rparr>"]) (simp add: lost_abs_def bindr_assoc [symmetric])
qed

lemma old_packet:
  assumes inv: "lost_inv s" and lt: "e < ls_nextSeq s" and now: "now \<noteq> 0"
  shows "\<exists>s'. bindr (cover s (unat (e mod 256))) (\<lambda>s. put s (unat (e mod 256)) (PacketInfo_new e now)) = Inr s' \<and> lost_inv s' \<and>
    lost_abs s' = (unat (ls_nextSeq s), if unat (ls_nextSeq s) \<le> unat e + 256 then missing_of (ls_packets s) - {unat e}
      else {m \<in> missing_of (ls_packets s). m mod 256 \<noteq> unat e mod 256})"
proof -
  let ?e = "unat e" and ?n = "unat (ls_nextSeq s)" and ?M = "missing_of (ls_packets s)"
  have ring: "ring_ok (ls_packets s) ?n" and tot: "ls_totalLost s = word_of_nat (card ?M)"
    using inv by (auto simp: lost_inv_def)
  have lt': "?e < ?n" using lt by (simp add: word_less_nat_alt)
  have "{m \<in> ?M. m mod 256 \<noteq> ?e mod 256} = ?M - {?e}" if "?n \<le> ?e + 256"
  proof -
    have "m = ?e" if "m \<in> ?M" "m mod 256 = ?e mod 256" for m
    proof (rule ccontr)
      assume ne: "m \<noteq> ?e"
      have w: "m < ?n" "?n \<le> m + 256" using ring_window [OF ring that(1)] by auto
      consider "m < ?e" | "?e < m" using ne by linarith
      then show False
      proof cases
        case 1
        then have "m mod 256 \<noteq> ?e mod 256" using w lt' window_class [of m ?e] by auto
        then show False using that(2) by simp
      next
        case 2
        then have "?e mod 256 \<noteq> m mod 256" using w \<open>?n \<le> ?e + 256\<close> window_class [of ?e m] by auto
        then show False using that(2) by simp
      qed
    qed
    then show ?thesis by auto
  qed
  with receive_eq [OF ring tot now, of e] show ?thesis by (auto simp: lost_inv_def lost_abs_def)
qed

lemma gap_words: "(n :: u32) < e \<and> 255 \<le> e - n \<longleftrightarrow> unat n < unat e \<and> 255 \<le> unat e - unat n"
proof (cases "n < e")
  case True
  then have "unat (e - n) = unat e - unat n" by (intro unat_sub) simp
  then show ?thesis using True by (simp add: word_less_nat_alt word_le_nat_alt)
qed (simp add: word_less_nat_alt)

text \<open>The branches of \<open>AddPacket\<close>: a jump that resets the ring, the first packet, the next packets, an old one.\<close>

lemma AddPacket_jump:
  assumes now: "rtp_recvTimeMS pkt \<noteq> 0" and e: "ExtSeqNum pkt < - 1"
    and jump: "ls_nextSeq s < ExtSeqNum pkt \<and> 255 \<le> ExtSeqNum pkt - ls_nextSeq s"
  shows "\<exists>s'. LostSession_AddPacket s pkt = Inr (s', ls_totalLost s') \<and> lost_inv s' \<and>
    lost_abs s' = spec_add (unat (ExtSeqNum pkt)) (lost_abs s)"
proof -
  let ?e = "ExtSeqNum pkt" and ?now = "rtp_recvTimeMS pkt"
  let ?s = "s\<lparr>ls_packets := replicate Size PacketInfo_default, ls_totalLost := 0, ls_nextSeq := 0\<rparr>"
  obtain s' where "bindr (put ?s (unat (?e mod 256)) (PacketInfo_new ?e ?now))
      (\<lambda>s. Inr (s\<lparr>ls_nextSeq := ?e + 1\<rparr>, ls_totalLost s)) = Inr (s', ls_totalLost s')"
      "lost_inv s'" "lost_abs s' = (unat ?e + 1, {})"
    using first_packet [of ?s ?now ?e] fresh_ring now e by (auto simp: Size_def)
  then show ?thesis
    using jump gap_words [of "ls_nextSeq s" ?e] by (auto simp: LostSession_AddPacket_def Let_def spec_add_def lost_abs_def)
qed

lemma total_le_256:
  assumes "lost_inv s"
  shows "ls_totalLost s \<le> 256"
proof -
  have "card (missing_of (ls_packets s)) \<le> 256" using assms ring_card by (auto simp: lost_inv_def)
  then show ?thesis using assms by (simp add: lost_inv_def word_le_nat_alt unat_of_nat)
qed

lemma AddPacket_next:
  assumes inv: "lost_inv s" and now: "rtp_recvTimeMS pkt \<noteq> 0" and e: "ExtSeqNum pkt < - 1"
    and small: "\<not> (ls_nextSeq s < ExtSeqNum pkt \<and> 255 \<le> ExtSeqNum pkt - ls_nextSeq s)"
    and nz: "ls_nextSeq s \<noteq> 0" and le: "ls_nextSeq s \<le> ExtSeqNum pkt"
  shows "\<exists>s'. LostSession_AddPacket s pkt = Inr (s', ls_totalLost s') \<and> lost_inv s' \<and>
    lost_abs s' = spec_add (unat (ExtSeqNum pkt)) (lost_abs s)"
proof -
  let ?e = "ExtSeqNum pkt" and ?now = "rtp_recvTimeMS pkt"
  from future_packet [OF inv le now e] obtain s' where s': "bindr (mark_gap s ?e ?now) (\<lambda>s. if ls_nextSeq s \<noteq> ?e then Inl AssertFailed
      else bindr (cover s (unat (?e mod 256))) (\<lambda>s. bindr (put s (unat (?e mod 256)) (PacketInfo_new ?e ?now)) (\<lambda>s.
        Inr (s\<lparr>ls_nextSeq := ls_nextSeq s + 1\<rparr>)))) = Inr s'" "lost_inv s'"
      "lost_abs s' = (unat ?e + 1, {m \<in> missing_of (ls_packets s) \<union> {unat (ls_nextSeq s)..<unat ?e}. unat ?e < m + 256})"
    by blast
  have "lost_abs s' = spec_add (unat ?e) (lost_abs s)"
    unfolding s'(3) using le small nz gap_words [of "ls_nextSeq s" ?e]
    by (auto simp: spec_add_def lost_abs_def word_le_nat_alt unat_eq_zero)
  then show ?thesis
    using s'(1,2) total_le_256 [OF s'(2)] le small nz by (intro exI [of _ s']) (auto simp: LostSession_AddPacket_def Let_def)
qed

lemma AddPacket_old:
  assumes inv: "lost_inv s" and now: "rtp_recvTimeMS pkt \<noteq> 0"
    and nz: "ls_nextSeq s \<noteq> 0" and lt: "ExtSeqNum pkt < ls_nextSeq s"
  shows "\<exists>s'. LostSession_AddPacket s pkt = Inr (s', ls_totalLost s') \<and> lost_inv s' \<and>
    lost_abs s' = spec_add (unat (ExtSeqNum pkt)) (lost_abs s)"
proof -
  let ?e = "ExtSeqNum pkt" and ?now = "rtp_recvTimeMS pkt"
  from old_packet [OF inv lt now] obtain s' where
      s': "bindr (cover s (unat (?e mod 256))) (\<lambda>s. put s (unat (?e mod 256)) (PacketInfo_new ?e ?now)) = Inr s'" "lost_inv s'"
      "lost_abs s' = (unat (ls_nextSeq s), if unat (ls_nextSeq s) \<le> unat ?e + 256 then missing_of (ls_packets s) - {unat ?e}
        else {m \<in> missing_of (ls_packets s). m mod 256 \<noteq> unat ?e mod 256})"
    by blast
  have "\<not> ls_nextSeq s \<le> ?e" "\<not> ls_nextSeq s < ?e" using lt by auto
  then have "lost_abs s' = spec_add (unat ?e) (lost_abs s)"
    unfolding s'(3) using nz by (auto simp: spec_add_def lost_abs_def word_le_nat_alt unat_eq_zero)
  then show ?thesis
    using s'(1,2) total_le_256 [OF s'(2)] \<open>\<not> ls_nextSeq s \<le> ?e\<close> \<open>\<not> ls_nextSeq s < ?e\<close> nz
    by (intro exI [of _ s']) (auto simp: LostSession_AddPacket_def Let_def)
qed

lemma AddPacket_refines:
  assumes inv: "lost_inv s" and now: "rtp_recvTimeMS pkt \<noteq> 0" and e: "ExtSeqNum pkt < - 1"
  shows "\<exists>s'. LostSession_AddPacket s pkt = Inr (s', ls_totalLost s') \<and> lost_inv s' \<and>
    lost_abs s' = spec_add (unat (ExtSeqNum pkt)) (lost_abs s)"
proof (cases "ls_nextSeq s < ExtSeqNum pkt \<and> 255 \<le> ExtSeqNum pkt - ls_nextSeq s")
  case True
  then show ?thesis by (rule AddPacket_jump [OF now e])
next
  case small: False
  show ?thesis
  proof (cases "ls_nextSeq s = 0")
    case True
    have ring: "ring_ok (ls_packets s) (unat (ls_nextSeq s))" using inv by (simp add: lost_inv_def)
    have M: "missing_of (ls_packets s) = {}" using ring_window [OF ring] True by auto
    then have "ls_totalLost s = 0" using inv by (simp add: lost_inv_def)
    with first_packet [OF _ M this now e] ring show ?thesis
      using True small by (auto simp: LostSession_AddPacket_def Let_def spec_add_def lost_abs_def ring_ok_def)
  next
    case nz: False
    show ?thesis
      by (cases "ls_nextSeq s \<le> ExtSeqNum pkt") (use AddPacket_next [OF inv now e small nz] AddPacket_old [OF inv now nz] in auto)
  qed
qed

section \<open>Sequences of packets\<close>

fun AddPackets :: "RTPLostSession \<Rightarrow> RTPPacket list \<Rightarrow> (RTPLostSession \<times> u16 list) res" where
  "AddPackets s [] = Inr (s, [])"
| "AddPackets s (p # ps) = bindr (LostSession_AddPacket s p) (\<lambda>(s, n).
     bindr (AddPackets s ps) (\<lambda>(s, ns). Inr (s, n # ns)))"

fun spec_run :: "nat \<times> nat set \<Rightarrow> nat list \<Rightarrow> (nat \<times> nat set) \<times> nat list" where
  "spec_run st [] = (st, [])"
| "spec_run st (e # es) = (let st = spec_add e st; (st', ns) = spec_run st es in (st', card (snd st) # ns))"

text \<open>What the detector asks of a packet: the time is set and the number is not the last one.\<close>

definition countable_packet :: "RTPPacket \<Rightarrow> bool" where
  "countable_packet p \<longleftrightarrow> rtp_recvTimeMS p \<noteq> 0 \<and> ExtSeqNum p < - 1"

lemma new_inv: "lost_inv RTPLostSession_new" "lost_abs RTPLostSession_new = (0, {})"
  using fresh_ring by (simp_all add: lost_inv_def lost_abs_def RTPLostSession_new_def Size_def)

lemma inv_total: "lost_inv s \<Longrightarrow> unat (ls_totalLost s) = card (snd (lost_abs s)) \<and> card (snd (lost_abs s)) \<le> 256"
  using ring_card [of "ls_packets s"]
  by (auto simp: lost_inv_def lost_abs_def unat_of_nat dest!: ring_card)

lemma AddPackets_refines:
  assumes "lost_inv s" "list_all countable_packet ps"
  shows "\<exists>s' ns. AddPackets s ps = Inr (s', ns) \<and> lost_inv s' \<and>
    (lost_abs s', map unat ns) = spec_run (lost_abs s) (map (\<lambda>p. unat (ExtSeqNum p)) ps)"
  using assms
proof (induction ps arbitrary: s)
  case (Cons p ps)
  then obtain s1 where s1: "LostSession_AddPacket s p = Inr (s1, ls_totalLost s1)" "lost_inv s1"
      "lost_abs s1 = spec_add (unat (ExtSeqNum p)) (lost_abs s)"
    using AddPacket_refines [of s p] by (auto simp: countable_packet_def)
  obtain s' ns where "AddPackets s1 ps = Inr (s', ns)" "lost_inv s'"
      "(lost_abs s', map unat ns) = spec_run (lost_abs s1) (map (\<lambda>p. unat (ExtSeqNum p)) ps)"
    using Cons.IH [OF s1(2)] Cons.prems by auto
  then show ?case using s1 inv_total [OF s1(2)] by (auto simp: Let_def split: prod.splits)
qed simp

inductive lost_step :: "RTPLostSession \<Rightarrow> RTPLostSession \<Rightarrow> bool" where
  step_packet: "countable_packet p \<Longrightarrow> LostSession_AddPacket s p = Inr (s', n) \<Longrightarrow> lost_step s s'"
| step_reset: "lost_step s (Reset s)"

inductive_cases lost_stepE: "lost_step s t"

interpretation lost: invariant_system "\<lambda>s. s = RTPLostSession_new" lost_step lost_inv
proof unfold_locales
  fix s t assume "lost_inv s" "lost_step s t"
  then show "lost_inv t"
  proof (elim lost_stepE)
    fix p n assume "countable_packet p" "LostSession_AddPacket s p = Inr (t, n)"
    then show "lost_inv t" using AddPacket_refines [OF \<open>lost_inv s\<close>, of p] by (auto simp: countable_packet_def)
  next
    assume "t = Reset s"
    then show "lost_inv t" using fresh_ring by (simp add: Reset_def lost_inv_def Size_def)
  qed
qed (simp add: new_inv)

lemma ring_count:
  assumes "ring_ok ps n"
  shows "length (filter isCountInTotalLost ps) = card (missing_of ps)"
proof -
  let ?I = "{i. i < length ps \<and> isCountInTotalLost (ps ! i)}"
  have "missing_of ps = (\<lambda>i. nat (info_extSeq (ps ! i))) ` ?I" by (auto simp: missing_of_def)
  moreover have "inj_on (\<lambda>i. nat (info_extSeq (ps ! i))) ?I"
    using assms unfolding ring_ok_def by (intro inj_onI) (simp, metis)
  ultimately show ?thesis by (simp add: card_image length_filter_conv_card)
qed

section \<open>The count within a window\<close>

lemma spec_window:
  assumes "S \<noteq> {}" "finite S" "S \<subseteq> {lo..lo + 254}" "a \<in> S" "e \<in> {lo..lo + 254}"
  shows "spec_add e (Suc (Max S), {a..Max S} - S) = (Suc (Max (insert e S)), {a..Max (insert e S)} - insert e S)"
proof -
  have "Max S \<in> S" using assms(1,2) by simp
  then have mx: "lo \<le> a" "a \<le> Max S" "Max S \<le> lo + 254" using assms(2-4) by auto
  have up: "s \<le> Max S" if "s \<in> S" for s using assms(2) that by simp
  have M: "Max (insert e S) = max e (Max S)" using assms(1,2) by simp
  show ?thesis
  proof (cases "Max S < e")
    case True
    then have "max e (Max S) = e" by simp
    then show ?thesis unfolding M using True mx assms(5) up by (fastforce simp: spec_add_def)
  next
    case False
    then have "max e (Max S) = Max S" by simp
    then show ?thesis unfolding M using False mx assms(5) by (auto simp: spec_add_def)
  qed
qed

lemma spec_window_run:
  assumes "S \<noteq> {}" "finite S" "S \<subseteq> {lo..lo + 254}" "a \<in> S" "set es \<subseteq> {lo..lo + 254}"
  shows "fst (spec_run (Suc (Max S), {a..Max S} - S) es) = (Suc (Max (S \<union> set es)), {a..Max (S \<union> set es)} - (S \<union> set es))"
  using assms
proof (induction es arbitrary: S)
  case (Cons e es)
  have "fst (spec_run (Suc (Max S), {a..Max S} - S) (e # es)) =
      fst (spec_run (Suc (Max (insert e S)), {a..Max (insert e S)} - insert e S) es)"
    using spec_window [of S lo a e] Cons.prems by (simp add: Let_def split: prod.splits)
  also have "\<dots> = (Suc (Max (insert e S \<union> set es)), {a..Max (insert e S \<union> set es)} - (insert e S \<union> set es))"
    using Cons.prems by (intro Cons.IH) auto
  finally show ?case by simp
qed simp

text \<open>A packet with a given number, received at time one.\<close>

definition numbered :: "u16 \<Rightarrow> RTPPacket" where
  "numbered n = zero_rtp\<lparr>rtp_seqNum := n, rtp_recvTimeMS := 1\<rparr>"

lemma numbered [simp]: "unat (ExtSeqNum (numbered n)) = unat n" "countable_packet (numbered n)"
proof -
  show u: "unat (ExtSeqNum (numbered n)) = unat n" by (simp add: unat_ExtSeqNum numbered_def zero_rtp_def)
  have "unat n < 65536" using unsigned_less [of n] by simp
  moreover have "unat (- 1 :: u32) = 4294967295" by (simp add: unsigned_minus_1_eq_mask mask_eq_exp_minus_1)
  ultimately show "countable_packet (numbered n)"
    using u by (simp add: countable_packet_def word_less_nat_alt numbered_def)
qed

section \<open>Properties\<close>

text \<open>
  C4. The ring implements the abstract detector: on every sequence of packets with a time
  and a number below $2^{32}-1$, no access is out of the ring and no assertion fails, each
  call returns the number of elements of the abstract set of missing numbers, and the final
  ring stands for the final abstract state.
\<close>

theorem lost_session_refines:
  assumes "list_all countable_packet ps"
  shows "\<exists>s ns. AddPackets RTPLostSession_new ps = Inr (s, ns) \<and>
    spec_run (0, {}) (map (\<lambda>p. unat (ExtSeqNum p)) ps) = (lost_abs s, map unat ns)"
  using AddPackets_refines [OF new_inv(1) assms] by (auto simp: new_inv(2))

theorem lost_session_refines_witness:
  "\<exists>s ns. AddPackets RTPLostSession_new [numbered 5, numbered 9, numbered 7] = Inr (s, ns) \<and>
    lost_abs s = (10, {6, 8}) \<and> map unat ns = [0, 3, 2]"
proof -
  have "spec_run (0, {}) [5, 9, 7] = ((10, {6, 8}), [0, 3, 2])"
  proof -
    have "{m. 6 \<le> m \<and> m < 9} = {6, 7, 8 :: nat}" "{6, 7, 8} - {7} = {6, 8 :: nat}" by auto
    then have "spec_add 5 (0, {}) = (6, {})" "spec_add 9 (6, {}) = (10, {6, 7, 8})" "spec_add 7 (10, {6, 7, 8}) = (10, {6, 8})"
      by (simp_all add: spec_add_def)
    then show ?thesis by simp
  qed
  then show ?thesis
    using lost_session_refines [of "[numbered 5, numbered 9, numbered 7]"]
    by (auto simp del: AddPackets.simps spec_run.simps)
qed

text \<open>
  C14. If all numbers lie within a window of 255, then whatever the order and the repetitions
  the total is the number of gaps from the packet that was received first to the highest one.
  Numbers below the packet that was received first are never counted as lost, even if a
  still lower one arrives later.
\<close>

theorem lost_total_counts_gaps:
  assumes "list_all countable_packet (p # ps)"
    and "\<forall>q \<in> set (p # ps). unat (ExtSeqNum q) \<in> {lo..lo + 254}"
  shows "\<exists>s ns. AddPackets RTPLostSession_new (p # ps) = Inr (s, ns) \<and>
    unat (ls_totalLost s) = card ({unat (ExtSeqNum p)..Max ((\<lambda>q. unat (ExtSeqNum q)) ` set (p # ps))} -
      (\<lambda>q. unat (ExtSeqNum q)) ` set (p # ps))"
proof -
  let ?f = "\<lambda>q. unat (ExtSeqNum q)"
  obtain s ns where s: "AddPackets RTPLostSession_new (p # ps) = Inr (s, ns)" "lost_inv s"
      "(lost_abs s, map unat ns) = spec_run (0, {}) (map ?f (p # ps))"
    using AddPackets_refines [OF new_inv(1) assms(1)] by (auto simp: new_inv(2))
  have "lost_abs s = fst (spec_run (Suc (Max {?f p}), {?f p..Max {?f p}} - {?f p}) (map ?f ps))"
    using arg_cong [OF s(3), of fst] by (simp add: spec_add_def Let_def split: prod.splits)
  also have "\<dots> = (Suc (Max ({?f p} \<union> set (map ?f ps))), {?f p..Max ({?f p} \<union> set (map ?f ps))} - ({?f p} \<union> set (map ?f ps)))"
    using assms(2) by (intro spec_window_run [where lo = lo]) auto
  finally show ?thesis using s(1) inv_total [OF s(2)] by auto
qed

theorem lost_total_counts_gaps_witness:
  "\<exists>s ns. AddPackets RTPLostSession_new [numbered 9, numbered 5, numbered 12, numbered 10] = Inr (s, ns) \<and>
    unat (ls_totalLost s) = card ({9..12} - {9, 5, 12, 10 :: nat})"
  using lost_total_counts_gaps [of "numbered 9" "[numbered 5, numbered 12, numbered 10]" 5] by (simp del: AddPackets.simps)

text \<open>
  C15. In every state that packets and resets can reach, the ring has 256 slots, each slot
  that counts as lost holds a number of its residue among the 256 before \<open>nextSeq\<close>, and
  \<open>totalLost\<close> is exactly the number of such slots, at most 256.
\<close>

theorem lost_session_invariant:
  assumes "reachable (\<lambda>s. s = RTPLostSession_new) lost_step s"
  shows "length (ls_packets s) = Size \<and>
    (\<forall>i < Size. isCountInTotalLost (ls_packets s ! i) \<longrightarrow>
      (let e = nat (info_extSeq (ls_packets s ! i)) in
       e mod Size = i \<and> e < unat (ls_nextSeq s) \<and> unat (ls_nextSeq s) \<le> e + Size)) \<and>
    unat (ls_totalLost s) = length (filter isCountInTotalLost (ls_packets s)) \<and> ls_totalLost s \<le> 256"
proof -
  have inv: "lost_inv s" using assms by (rule lost.reachable_inv)
  then have ring: "ring_ok (ls_packets s) (unat (ls_nextSeq s))" by (simp add: lost_inv_def)
  have "length (filter isCountInTotalLost (ls_packets s)) = card (missing_of (ls_packets s))"
    using ring by (rule ring_count)
  moreover note inv_total [OF inv]
  ultimately show ?thesis
    using ring by (auto simp: ring_ok_def Size_def Let_def lost_abs_def word_le_nat_alt)
qed

theorem lost_session_invariant_witness:
  "\<exists>s. lost_step RTPLostSession_new s \<and> length (ls_packets s) = Size \<and> ls_totalLost s \<le> 256"
proof -
  obtain s where "LostSession_AddPacket RTPLostSession_new (numbered 5) = Inr (s, ls_totalLost s)"
    using AddPacket_refines [OF new_inv(1), of "numbered 5"] numbered(2) [of 5] by (auto simp: countable_packet_def)
  then have step: "lost_step RTPLostSession_new s" by (rule step_packet [OF numbered(2)])
  moreover have "reachable (\<lambda>s. s = RTPLostSession_new) lost_step s"
    proof (rule reach_step)
    show "reachable (\<lambda>s. s = RTPLostSession_new) lost_step RTPLostSession_new" by (rule reach_init) simp
  qed (rule step)
  ultimately show ?thesis using lost_session_invariant [of s] by blast
qed

end
