(* ===== verification/Spadia_System.thy ===== *)
theory Spadia_System
  imports Sdp_Answer Lost_Session
begin

text \<open>
  The system as a step relation: any interleaving of the operations that the application
  and libuv call, on the state that connections, streams, pool and server share. Every
  operation keeps that state well-formed, so it is well-formed in every reachable state. The
  function registered for remote streams only takes note of the stream here; what it calls
  on the program is a further step.
\<close>

unbundle bit_operations_syntax

section \<open>Steps\<close>

text \<open>
  One step of the system: the application or libuv calls an operation and it returns. A step
  that creates a connection uses a number no sink and no armed timer refers to (a \<open>weak_ptr\<close> never
  revives); a connection is destroyed when no posted function and no table entry holds it. To
  receive, libuv calls \<open>buf_alloc\<close> and then \<open>read_u\<close> with that block, and delivers at most as
  many bytes as it has. The ICE timer expires only while it is armed.
  What libuv accepts may change at any time (\<open>s_net\<close>).
\<close>

definition fresh_pc :: "world \<Rightarrow> nat \<Rightarrow> bool" where
  "fresh_pc w pc \<longleftrightarrow> w_pcs w pc = None \<and> pc \<notin> w_timers w \<and>
     (\<forall>sid s. w_streams w sid = Some s \<longrightarrow> pc \<notin> snd ` set (ms_sinks s))"

definition unreferenced :: "world \<Rightarrow> nat \<Rightarrow> bool" where
  "unreferenced w pc \<longleftrightarrow> (\<forall>t \<in># pending (w_pool w). task_pc t \<noteq> pc) \<and> (\<forall>n. srv_pcTable (w_server w) n \<noteq> Some pc)"

inductive sys_step :: "'j json_lib \<Rightarrow> world \<Rightarrow> world \<Rightarrow> bool" for lib :: "'j json_lib" where
  s_new: "fresh_pc w pc \<Longrightarrow> sys_step lib w (PeerConnection_new pc u1 u2 u3 w)"
| s_stream: "w_streams w sid = None \<Longrightarrow> sys_step lib w (w\<lparr>w_streams := (w_streams w)(sid \<mapsto> MediaStream_new)\<rparr>)"
| s_add_stream: "AddStream pc sid w = Inr w' \<Longrightarrow> sys_step lib w w'"
| s_listener: "sys_step lib w (AddRemoteStreamListener pc w)"
| s_start: "Start pc w = Inr w' \<Longrightarrow> sys_step lib w w'"
| s_offer: "CreateOffer now pc w = Inr (w', offer) \<Longrightarrow> sys_step lib w w'"
| s_answer: "CreateAnswer lib (\<lambda>rs w. Inr w) now u1 u2 sid pc offer w = Inr (w', answer) \<Longrightarrow> sys_step lib w w'"
| s_remote: "SetRemoteSdp pc w = Inr w' \<Longrightarrow> sys_step lib w w'"
| s_destroy: "Destroy pc w = Inr w' \<Longrightarrow> sys_step lib w w'"
| s_delete: "unreferenced w pc \<Longrightarrow> PeerConnection_delete pc w = Inr w' \<Longrightarrow> sys_step lib w w'"
| s_recv: "malloc w = (w0, b) \<Longrightarrow> nread \<le> int (length buf) \<Longrightarrow> nread < 2 ^ 31 \<Longrightarrow>
    read_u env pc nread b buf addr w0 = Inr w' \<Longrightarrow> sys_step lib w w'"
| s_timer: "pc \<in> w_timers w \<Longrightarrow> ontimer now pc w = Inr (w', late) \<Longrightarrow> sys_step lib w w'"
| s_run: "loop_run l k w = Inr w' \<Longrightarrow> sys_step lib w w'"
| s_complete: "send_u k w = Inr w' \<Longrightarrow> sys_step lib w w'"
| s_net: "sys_step lib w (w\<lparr>w_accepts := accepts\<rparr>)"

inductive_cases sys_stepE: "sys_step lib w w'"

definition world_new :: "u32 \<Rightarrow> world" where
  "world_new port = \<lparr>w_pcs = Map.empty, w_streams = Map.empty, w_pool = Pool_new, w_server = Server_new port,
     w_blocks = {}, w_next = 0, w_inflight = [], w_sent = [], w_timers = {}, w_accepts = \<lambda>_. True\<rparr>"

section \<open>Every operation keeps the state well-formed\<close>

named_theorems keeps \<open>preservation of the invariant of the shared state\<close>

lemma ok_new: "world_ok (world_new port)"
  by (simp add: world_ok_def world_new_def Server_new_def)

lemma ok_upd_same [keeps]:
  assumes "world_ok w" "\<And>self. pc_loop (f self) = pc_loop self \<and> pc_localStream (f self) = pc_localStream self \<and>
    pc_remoteStream (f self) = pc_remoteStream self"
  shows "world_ok (upd_pc pc f w)"
  using assms(1) by (rule world_ok_upd) (use assms in \<open>auto simp: world_ok_def pc_ok_def\<close>)

lemma ok_PeerConnection_new [keeps]:
  assumes "world_ok w"
  shows "world_ok (PeerConnection_new pc u1 u2 u3 w)"
proof -
  have "snd (GetLoop (w_pool w)) < LOOP_NUM" by simp
  moreover have "srv_pcTable (fst (GetPort (w_server w))) = srv_pcTable (w_server w)" by (simp add: GetPort_def)
  ultimately show ?thesis
    using assms by (auto simp: PeerConnection_new_def Let_def case_prod_beta world_ok_def pc_ok_def simp del: not_None_eq)
qed

lemma ok_stream_new [keeps]: "world_ok w \<Longrightarrow> world_ok (w\<lparr>w_streams := (w_streams w)(sid \<mapsto> MediaStream_new)\<rparr>)"
  by (rule world_ok_stream) simp_all

lemma ok_AddStream [keeps]:
  assumes "world_ok w" "AddStream pc sid w = Inr w'"
  shows "world_ok w'"
proof -
  obtain self s where s: "w_pcs w pc = Some self" "w_streams w sid = Some s"
      "w' = (upd_pc pc (\<lambda>self. self\<lparr>pc_localStream := Some sid\<rparr>) w)\<lparr>w_streams := (w_streams w)(sid \<mapsto> AddSink s (pc_id self) pc)\<rparr>"
    using assms(2) by (auto simp: AddStream_def bindr_eq_Inr Let_def)
  have "world_ok (upd_pc pc (\<lambda>self. self\<lparr>pc_localStream := Some sid\<rparr>) w)"
    using assms(1) by (rule world_ok_upd) (use assms(1) s(2) in \<open>auto simp: world_ok_def pc_ok_def\<close>)
  moreover have "stream_ok (AddSink s (pc_id self) pc)" using assms(1) s(2) by (auto simp: world_ok_def)
  ultimately show ?thesis
    using world_ok_stream [of "upd_pc pc (\<lambda>self. self\<lparr>pc_localStream := Some sid\<rparr>) w"] by (simp add: s(3))
qed

lemma ok_Async:
  assumes "world_ok w" "w_pcs w pc = Some self" "task_pc t = pc" "task_ok t"
  shows "world_ok (w\<lparr>w_pool := Async (w_pool w) (pc_loop self) t\<rparr>)"
proof -
  have "pool_ok (w_pool w)" "pc_loop self < LOOP_NUM" using assms(1,2) by (auto simp: world_ok_def pc_ok_def)
  then show ?thesis using assms by (auto simp: world_ok_def pc_ok_def pending_Async)
qed

lemma ok_Start [keeps]: "world_ok w \<Longrightarrow> Start pc w = Inr w' \<Longrightarrow> world_ok w'"
  by (auto simp: Start_def bindr_eq_Inr intro!: ok_Async)

lemma ok_CreateOffer [keeps]: "world_ok w \<Longrightarrow> CreateOffer now pc w = Inr (w', offer) \<Longrightarrow> world_ok w'"
  by (auto simp: CreateOffer_def bindr_eq_Inr intro!: ok_upd_same)

lemma ok_server:
  assumes "world_ok w" "\<And>n pc. srv_pcTable s n = Some pc \<Longrightarrow> w_pcs w pc \<noteq> None"
  shows "world_ok (w\<lparr>w_server := s\<rparr>)"
  using assms by (auto simp: world_ok_def pc_ok_def)

lemma ok_AddPC:
  assumes "world_ok w" "w_pcs w pc = Some self"
  shows "world_ok (w\<lparr>w_server := AddPC (w_server w) l r pc\<rparr>)"
  using assms(1) by (rule ok_server) (use assms in \<open>auto simp: AddPC_def world_ok_def split: if_splits\<close>)

lemma ok_SetRemoteSdp [keeps]: "world_ok w \<Longrightarrow> SetRemoteSdp pc w = Inr w' \<Longrightarrow> world_ok w'"
  by (auto simp: SetRemoteSdp_def bindr_eq_Inr intro: ok_AddPC)

lemma ok_Destroy [keeps]: "world_ok w \<Longrightarrow> Destroy pc w = Inr w' \<Longrightarrow> world_ok w'"
  by (auto simp: Destroy_def bindr_eq_Inr intro!: ok_server) (auto simp: RemovePC_def world_ok_def split: if_splits)

lemma ok_CreateAnswer [keeps]:
  assumes "world_ok w" "CreateAnswer lib (\<lambda>rs w. Inr w) now u1 u2 sid pc offer w = Inr (w', answer)"
  shows "world_ok w'"
proof -
  let ?w = "upd_pc pc (\<lambda>self. self\<lparr>pc_sessionManager := Some (RTPSessionManager_new now)\<rparr>) w"
  obtain self msid ms w1 as self1 where
    r: "w_pcs w pc = Some self" "answer_medias lib pc sid msid u2 ms ?w = Inr (w1, as)" "w_pcs w1 pc = Some self1"
      "w' = w1\<lparr>w_server := AddPC (w_server w1) (pc_localUsername self1) (pc_remoteUsername self1) pc\<rparr>"
    using assms(2) by (auto simp: CreateAnswer_def Let_def bindr_eq_Inr split: option.splits if_splits)
  have "w_pcs ?w pc = Some (self\<lparr>pc_sessionManager := Some (RTPSessionManager_new now)\<rparr>)" using r(1) by (simp add: w_pcs_upd_pc)
  from answer_medias_eq [OF r(2) this] have "world_ok ?w \<longrightarrow> world_ok w1" by (simp add: answer_frame_def)
  moreover have "world_ok ?w" using assms(1) by (rule ok_upd_same) simp
  ultimately show ?thesis using r(3,4) ok_AddPC by blast
qed

lemma ok_delete [keeps]:
  assumes "world_ok w" "unreferenced w pc" "PeerConnection_delete pc w = Inr w'"
  shows "world_ok w'"
proof -
  have del: "world_ok (v\<lparr>w_pcs := (w_pcs v)(pc := None)\<rparr>)" if "world_ok v" "unreferenced v pc" for v
    using that by (auto simp: world_ok_def pc_ok_def unreferenced_def)
  obtain self where self: "w_pcs w pc = Some self" using assms(3) by (auto simp: PeerConnection_delete_def bindr_eq_Inr)
  show ?thesis
  proof (cases "pc_localStream self")
    case None
    then show ?thesis using assms del self by (auto simp: PeerConnection_delete_def)
  next
    case (Some sid)
    then obtain s where s: "w_streams w sid = Some s"
        "w' = (w\<lparr>w_streams := (w_streams w)(sid \<mapsto> RemoveSink s (pc_id self))\<rparr>)\<lparr>w_pcs := (w_pcs w)(pc := None)\<rparr>"
      using assms(3) self by (auto simp: PeerConnection_delete_def bindr_eq_Inr)
    have "stream_ok (RemoveSink s (pc_id self))" using assms(1) s(1) by (auto simp: world_ok_def)
    from del [OF world_ok_stream [OF assms(1) this]] assms(2) show ?thesis by (simp add: s(2) unreferenced_def)
  qed
qed

lemma ok_net [keeps]: "world_ok w \<Longrightarrow> world_ok (w\<lparr>w_accepts := accepts\<rparr>)"
  by (auto simp: world_ok_def pc_ok_def)

lemma ok_malloc [keeps]: "world_ok w \<Longrightarrow> malloc w = (w', b) \<Longrightarrow> world_ok w'"
  by (auto simp: malloc_def world_ok_def pc_ok_def less_Suc_eq)

lemma ok_free [keeps]: "world_ok w \<Longrightarrow> free b w = Inr w' \<Longrightarrow> world_ok w'"
  by (auto simp: free_def world_ok_def pc_ok_def split: if_splits)

lemma ok_send_u [keeps]: "world_ok w \<Longrightarrow> send_u k w = Inr w' \<Longrightarrow> world_ok w'"
  by (auto simp: send_u_def free_def Let_def world_ok_def pc_ok_def split: if_splits)

lemma ok_ontimer [keeps]: "world_ok w \<Longrightarrow> ontimer now pc w = Inr (w', late) \<Longrightarrow> world_ok w'"
  by (auto simp: ontimer_def OnIceTimer_def bindr_eq_Inr split: if_splits option.splits intro!: ok_upd_same)

lemma ok_loop_run [keeps]: "world_ok w \<Longrightarrow> loop_run l k w = Inr w' \<Longrightarrow> world_ok w'"
  using loop_run_cases [of w l k] by auto

lemma ok_uv_udp_send: "world_ok w \<Longrightarrow> world_ok (uv_udp_send pc b bs dest w)"
  by (auto simp: uv_udp_send_def Let_def world_ok_def pc_ok_def)

lemma ok_sendData: "world_ok w \<Longrightarrow> sendData pc b data sz w = Inr w' \<Longrightarrow> world_ok w'"
  by (auto simp: sendData_def bindr_eq_Inr intro: ok_uv_udp_send)

lemma ok_OnRTP:
  assumes "world_ok w" "nat (rtp_size p) \<le> length (rtp_data p)" "MediaStream_OnRTP sink_alive OnMediaData s (b, p) w = Inr w'"
  shows "world_ok w'"
proof -
  have "pool_ok (w_pool w)" "\<forall>pc self. w_pcs w pc = Some self \<longrightarrow> pc_loop self < LOOP_NUM"
    using assms(1) by (auto simp: world_ok_def pc_ok_def)
  from OnRTP_loop_eq [OF this, of b p "ms_sinks s"] assms(3) obtain pool where
    "w' = w\<lparr>w_pool := pool\<rparr>" "pool_ok pool" "pending pool = pending (w_pool w) +
      mset (map (\<lambda>s. TaskSend s b (rtp_data p) (rtp_size p)) (filter (sink_alive w) (map snd (ms_sinks s))))"
    by (auto simp: MediaStream_OnRTP_def)
  then show ?thesis using assms(1,2) by (auto simp: world_ok_def pc_ok_def sink_alive_def)
qed

lemma ok_handle_RTP:
  assumes w: "world_ok w" and sz: "0 \<le> sz" "sz < 2 ^ 31" "sz \<le> int (length data)"
    and h: "handleIncomingRTPData env pc b data sz w = Inr w'"
  shows "world_ok w'"
proof -
  obtain self where self: "w_pcs w pc = Some self" using h by (auto simp: handleIncomingRTPData_def bindr_eq_Inr)
  obtain p ok where r1: "RTPPacket_Parse (RTPPacket_new (env_rtp0 env) (env_now_ms env)) data sz = Inr (p, ok)"
    and data: "rtp_data p = data" "rtp_size p = sz"
    using RTPPacket_Parse_total [OF sz, of "RTPPacket_new (env_rtp0 env) (env_now_ms env)"] by blast
  obtain sm where sm: "pc_sessionManager self = Some sm"
    using h self r1 by (cases "pc_sessionManager self") (simp_all add: handleIncomingRTPData_def)
  obtain rs where rs: "pc_remoteStream self = Some rs"
    using h self r1 sm by (cases "pc_remoteStream self") (auto simp: handleIncomingRTPData_def bindr_eq_Inr)
  from h self r1 sm rs obtain feedback w1 s where
    r: "(case feedback of None \<Rightarrow> Inr w | Some (fb, n) \<Rightarrow> let (w, fb_block) = malloc w in sendData pc fb_block fb n w) = Inr w1"
      "MediaStream_OnRTP sink_alive OnMediaData s (b, p) w1 = Inr w'"
    unfolding handleIncomingRTPData_def by (simp add: bindr_eq_Inr) blast
  have "world_ok w1"
    using r(1) w ok_malloc [of w "fst (malloc w)" "snd (malloc w)"] by (auto simp: Let_def case_prod_beta split: option.splits dest: ok_sendData)
  then show ?thesis using ok_OnRTP [OF _ _ r(2)] sz data by simp
qed

lemma ok_handle_RTCP: "world_ok w \<Longrightarrow> handleIncomingRTCPData env pc data sz w = Inr w' \<Longrightarrow> world_ok w'"
  by (auto simp: handleIncomingRTCPData_def bindr_eq_Inr split: if_splits option.splits intro!: ok_upd_same)

lemma ok_OnSocketData:
  assumes w: "world_ok w" and sz: "0 \<le> sz" "sz < 2 ^ 31" "sz \<le> int (length data)"
    and h: "OnSocketData env pc b data sz rmt w = Inr w'"
  shows "world_ok w'"
proof -
  let ?w = "note_remote env pc rmt w"
  have n: "world_ok ?w" using w by (rule world_ok_note)
  obtain self where self: "w_pcs w pc = Some self" using h by (auto simp: OnSocketData_def bindr_eq_Inr)
  obtain stun where stun: "IsStun data sz = Inr stun" using h by (auto simp: OnSocketData_def bindr_eq_Inr Let_def)
  show ?thesis
  proof (cases stun)
    case True
    then obtain bs dest where "w' = uv_udp_send pc (snd (malloc ?w)) bs dest (fst (malloc ?w))"
      using h stun by (auto simp: OnSocketData_def bindr_eq_Inr Let_def note_remote_def case_prod_beta split: option.splits)
    then show ?thesis using n ok_malloc [of ?w "fst (malloc ?w)" "snd (malloc ?w)"] by (simp add: ok_uv_udp_send)
  next
    case False
    then have "handleIncomingRTCPData env pc data sz ?w = Inr w' \<or> handleIncomingRTPData env pc b data sz ?w = Inr w'"
      using h stun by (auto simp: OnSocketData_def bindr_eq_Inr Let_def note_remote_def split: if_splits)
    then show ?thesis using ok_handle_RTCP [OF n] ok_handle_RTP [OF n sz] by blast
  qed
qed

lemma ok_read_u [keeps]:
  assumes "world_ok w" "nread \<le> int (length buf)" "nread < 2 ^ 31" "read_u env pc nread b buf addr w = Inr w'"
  shows "world_ok w'"
proof -
  obtain w1 where w1: "(if 0 < nread \<and> w_pcs w pc \<noteq> None
      then case addr of None \<Rightarrow> Inl NullDeref | Some rmt \<Rightarrow> OnSocketData env pc b buf nread rmt w else Inr w) = Inr w1"
      "(if nread = 0 \<and> addr = None then free b w1 else Inr w1) = Inr w'"
    using assms(4) by (auto simp: read_u_def bindr_eq_Inr)
  have "world_ok w1"
  proof (cases "0 < nread \<and> w_pcs w pc \<noteq> None")
    case True
    then obtain rmt where "OnSocketData env pc b buf nread rmt w = Inr w1" using w1(1) by (cases addr) auto
    with True assms(2,3) ok_OnSocketData [OF assms(1), of nread buf] show ?thesis by simp
  next
    case False
    then show ?thesis using w1(1) assms(1) by (simp split: if_splits)
  qed
  then show ?thesis using w1(2) by (auto split: if_splits intro: ok_free)
qed

interpretation sys: invariant_system "\<lambda>w. \<exists>port. w = world_new port" "sys_step lib" world_ok for lib :: "'j json_lib"
proof
  fix w w' assume ok: "world_ok w" and "sys_step lib w w'"
  from this(2) show "world_ok w'"
  proof (cases rule: sys_step.cases)
    case (s_listener pc)
    then show ?thesis using ok by (simp add: AddRemoteStreamListener_def ok_upd_same)
  next
    case (s_recv w0 b nread buf env pc addr)
    then show ?thesis using ok_read_u [OF ok_malloc [OF ok]] by blast
  qed (use ok in \<open>auto intro: keeps\<close>)
qed (auto intro: ok_new)

section \<open>Properties\<close>

text \<open>
  C2. In every state the system can reach: a posted function and an entry of the server's
  table refer to a connection that has not been destroyed, every connection belongs to one
  of the loops and refers to existing streams, the sinks of a stream have distinct names,
  and running any posted function, on any loop and in any order, returns, unless it sends from
  a block that the completion of another send has freed.
\<close>

theorem system_invariant:
  assumes "reachable (\<lambda>w. \<exists>port. w = world_new port) (sys_step lib) w"
  shows "(\<forall>t \<in># pending (w_pool w). w_pcs w (task_pc t) \<noteq> None) \<and>
    (\<forall>n pc. srv_pcTable (w_server w) n = Some pc \<longrightarrow> w_pcs w pc \<noteq> None) \<and>
    (\<forall>pc self. w_pcs w pc = Some self \<longrightarrow> pc_loop self < LOOP_NUM \<and>
      (\<forall>sid. pc_localStream self = Some sid \<or> pc_remoteStream self = Some sid \<longrightarrow> w_streams w sid \<noteq> None)) \<and>
    (\<forall>sid s. w_streams w sid = Some s \<longrightarrow> distinct (map fst (ms_sinks s))) \<and>
    (\<forall>l k. (\<exists>w'. loop_run l k w = Inr w') \<or> loop_run l k w = Inl UseAfterFree)"
proof -
  have ok: "world_ok w" using assms by (rule sys.reachable_inv)
  then have "(\<exists>w'. loop_run l k w = Inr w') \<or> loop_run l k w = Inl UseAfterFree" for l k
    using loop_run_cases [of w l k] by blast
  then show ?thesis using ok by (auto simp: world_ok_def pc_ok_def stream_ok_def)
qed

theorem system_invariant_witness:
  "pc_loop (the (w_pcs (PeerConnection_new 4 ''u'' ''v'' ''w'' (world_new 8080)) 4)) < LOOP_NUM"
proof -
  let ?w = "world_new 8080"
  have "fresh_pc ?w 4" by (simp add: fresh_pc_def world_new_def)
  then have "sys_step sample_lib ?w (PeerConnection_new 4 ''u'' ''v'' ''w'' ?w)" by (rule s_new)
  moreover have "reachable (\<lambda>w. \<exists>port. w = world_new port) (sys_step sample_lib) ?w" by (rule reach_init) blast
  ultimately have "reachable (\<lambda>w. \<exists>port. w = world_new port) (sys_step sample_lib) (PeerConnection_new 4 ''u'' ''v'' ''w'' ?w)"
    by (rule reach_step [rotated])
  moreover obtain self where "w_pcs (PeerConnection_new 4 ''u'' ''v'' ''w'' ?w) 4 = Some self"
    by (simp add: PeerConnection_new_def Let_def case_prod_beta)
  ultimately show ?thesis using system_invariant [of sample_lib "PeerConnection_new 4 ''u'' ''v'' ''w'' ?w"] by auto
qed

end
