(* ===== verification/Spadia_Memory.thy ===== *)
theory Spadia_Memory
  imports Spadia_System
begin

text \<open>
  Who owns the memory blocks of datagrams. A block belongs to the request in flight whose
  completion \<open>send_u\<close> frees it, or to the posted function that will make such a request. The
  program is safe as long as no block has two owners; the handler of a received datagram gives
  the same block to every live sink. With at most one live sink per stream every block has at
  most one owner in every reachable state, and then no posted function sends from freed memory
  and no completion frees a block twice. A block whose request libuv refuses has no owner left
  and is never freed.
\<close>

unbundle bit_operations_syntax

section \<open>Ownership\<close>

fun task_blocks :: "task \<Rightarrow> nat multiset" where
  "task_blocks (TaskSend pc b data sz) = {#b#}"
| "task_blocks (TaskStart pc) = {#}"

definition owned :: "world \<Rightarrow> nat multiset" where
  "owned w = image_mset req_block (mset (w_inflight w)) + (\<Sum>t \<in># pending (w_pool w). task_blocks t)"

definition owners_ok :: "world \<Rightarrow> bool" where
  "owners_ok w \<longleftrightarrow> (\<forall>b. count (owned w) b \<le> 1) \<and> set_mset (owned w) \<subseteq> w_blocks w"

definition mem_ok :: "world \<Rightarrow> bool" where
  "mem_ok w \<longleftrightarrow> world_ok w \<and> owners_ok w"

definition single_viewer :: "world \<Rightarrow> bool" where
  "single_viewer w \<longleftrightarrow> (\<forall>sid s. w_streams w sid = Some s \<longrightarrow> length (live_sinks w s) \<le> 1)"

definition same_mem :: "world \<Rightarrow> world \<Rightarrow> bool" where
  "same_mem w w' \<longleftrightarrow> w_blocks w' = w_blocks w \<and> owned w' = owned w"

lemma owned_cong: "w_inflight w' = w_inflight w \<Longrightarrow> pending (w_pool w') = pending (w_pool w) \<Longrightarrow> owned w' = owned w"
  by (simp add: owned_def)

lemma same_memI:
  "w_blocks w' = w_blocks w \<Longrightarrow> w_inflight w' = w_inflight w \<Longrightarrow> pending (w_pool w') = pending (w_pool w) \<Longrightarrow> same_mem w w'"
  unfolding same_mem_def by (intro conjI owned_cong)

lemma same_mem_refl: "same_mem w w"
  by (simp add: same_mem_def)

lemma same_mem_trans: "same_mem w w1 \<Longrightarrow> same_mem w1 w2 \<Longrightarrow> same_mem w w2"
  by (simp add: same_mem_def)

lemma owners_same: "same_mem w w' \<Longrightarrow> owners_ok w \<Longrightarrow> owners_ok w'"
  by (simp add: same_mem_def owners_ok_def)

text \<open>New owners of fresh blocks.\<close>

lemma owners_grow:
  assumes "owners_ok w" "w_blocks w \<subseteq> w_blocks w'" "owned w' = owned w + X" "set_mset X \<subseteq> w_blocks w'"
    "\<And>b. b \<in># X \<Longrightarrow> b \<notin># owned w \<and> count X b \<le> 1"
  shows "owners_ok w'"
proof -
  have "count (owned w') b \<le> 1" for b
  proof (cases "b \<in># X")
    case True
    then have "count (owned w) b = 0" using assms(5) by (simp add: count_eq_zero_iff)
    then show ?thesis using assms(3,5) True by simp
  next
    case False
    then have "count X b = 0" by (simp add: count_eq_zero_iff)
    then show ?thesis using assms(1,3) by (simp add: owners_ok_def)
  qed
  then show ?thesis using assms(1-4) by (auto simp: owners_ok_def)
qed

text \<open>A block that loses its owner.\<close>

lemma owners_drop:
  assumes "owners_ok w" "w_blocks w' = w_blocks w" "owned w' \<subseteq># owned w"
  shows "owners_ok w'"
proof -
  have "count (owned w') b \<le> 1" for b
    using mset_subset_eq_count [OF assms(3), of b] assms(1) by (meson le_trans owners_ok_def)
  then show ?thesis using assms set_mset_mono [OF assms(3)] by (auto simp: owners_ok_def)
qed

lemma mem_ok_live:
  assumes "mem_ok w"
  shows "live_ok w"
proof -
  have "task_live w t" if "t \<in># pending (w_pool w)" for t
  proof (cases t)
    case (TaskSend pc b data sz)
    then have "b \<in># owned w" using that by (auto simp: owned_def intro!: bexI [of _ t])
    then show ?thesis using assms TaskSend by (auto simp: mem_ok_def owners_ok_def)
  qed simp
  then show ?thesis using assms by (simp add: live_ok_def mem_ok_def)
qed

section \<open>Operations that move no block\<close>

lemma mem_PeerConnection_new: "same_mem w (PeerConnection_new pc u1 u2 u3 w)"
  by (rule same_memI) (simp_all add: PeerConnection_new_def Let_def case_prod_beta)

lemma mem_AddStream: "AddStream pc sid w = Inr w' \<Longrightarrow> same_mem w w'"
  by (auto simp: AddStream_def bindr_eq_Inr Let_def intro!: same_memI)

lemma mem_Start:
  assumes "world_ok w" "Start pc w = Inr w'"
  shows "same_mem w w'"
proof -
  obtain self where s: "w_pcs w pc = Some self" "w' = w\<lparr>w_pool := Async (w_pool w) (pc_loop self) (TaskStart pc)\<rparr>"
    using assms(2) by (auto simp: Start_def bindr_eq_Inr)
  have "pool_ok (w_pool w)" "pc_loop self < LOOP_NUM" using assms(1) s(1) by (auto simp: world_ok_def pc_ok_def)
  then show ?thesis by (simp add: same_mem_def owned_def s(2) pending_Async)
qed

lemma mem_CreateAnswer:
  assumes "CreateAnswer lib (\<lambda>rs w. Inr w) now u1 u2 sid pc offer w = Inr (w', answer)"
  shows "same_mem w w'"
proof -
  let ?w = "upd_pc pc (\<lambda>self. self\<lparr>pc_sessionManager := Some (RTPSessionManager_new now)\<rparr>) w"
  obtain self msid ms w1 as l r where
    r: "w_pcs w pc = Some self" "answer_medias lib pc sid msid u2 ms ?w = Inr (w1, as)" "w' = w1\<lparr>w_server := AddPC (w_server w1) l r pc\<rparr>"
    using assms by (auto simp: CreateAnswer_def Let_def bindr_eq_Inr split: option.splits if_splits)
  have "w_pcs ?w pc = Some (self\<lparr>pc_sessionManager := Some (RTPSessionManager_new now)\<rparr>)" using r(1) by (simp add: w_pcs_upd_pc)
  from answer_medias_eq [OF r(2) this] have "answer_frame pc ?w w1" by simp
  then show ?thesis by (intro same_memI) (simp_all add: answer_frame_def r(3))
qed

lemma mem_delete: "PeerConnection_delete pc w = Inr w' \<Longrightarrow> same_mem w w'"
  by (auto simp: PeerConnection_delete_def bindr_eq_Inr split: option.splits intro!: same_memI)

lemma mem_upd_pc: "same_mem w (upd_pc pc f w)"
  by (rule same_memI) simp_all

lemma mem_ontimer: "ontimer now pc w = Inr (w', late) \<Longrightarrow> same_mem w w'"
  by (auto simp: ontimer_def OnIceTimer_def bindr_eq_Inr split: if_splits option.splits intro: mem_upd_pc same_mem_refl)

lemma mem_stream: "same_mem w (w\<lparr>w_streams := s\<rparr>)"
  by (rule same_memI) simp_all

lemma mem_server: "same_mem w (w\<lparr>w_server := s\<rparr>)"
  by (rule same_memI) simp_all

lemma mem_net: "same_mem w (w\<lparr>w_accepts := accepts\<rparr>)"
  by (rule same_memI) simp_all

section \<open>Operations that move blocks\<close>

text \<open>A posted send hands its block on to the request; when libuv refuses the request the block has no owner left.\<close>

lemma mem_loop_run:
  assumes "loop_run l k w = Inr w'" "owners_ok w"
  shows "owners_ok w'"
proof (cases "async_cb (w_pool w) l k")
  case (Some tp)
  obtain t pool where tp: "async_cb (w_pool w) l k = Some (t, pool)" using Some by (cases tp) auto
  note pend = async_cb_pending(1) [OF tp]
  have run: "run_task t (w\<lparr>w_pool := pool\<rparr>) = Inr w'" using assms(1) tp by (simp add: loop_run_def)
  have "w_blocks w' = w_blocks w \<and> owned w' \<subseteq># owned w"
  proof (cases t)
    case (TaskSend pc b data sz)
    then obtain bs dest where "w' = uv_udp_send pc b bs dest (w\<lparr>w_pool := pool\<rparr>)"
      using run by (auto simp: sendData_def bindr_eq_Inr)
    then show ?thesis using pend TaskSend by (simp add: owned_def uv_udp_send_def Let_def)
  next
    case (TaskStart pc)
    then have "w' = (upd_pc pc (\<lambda>self. self\<lparr>pc_started := True\<rparr>) (w\<lparr>w_pool := pool\<rparr>))\<lparr>w_timers := insert pc (w_timers w)\<rparr>"
      using run by (auto simp: bindr_eq_Inr)
    then show ?thesis using pend TaskStart by (simp add: owned_def)
  qed
  then show ?thesis using owners_drop [OF assms(2)] by blast
qed (use assms in \<open>simp add: loop_run_def\<close>)

lemma inflight_split:
  assumes "k < length rs"
  shows "mset rs = add_mset (rs ! k) (mset (take k rs @ drop (k + 1) rs))"
  using id_take_nth_drop [OF assms] by (metis Suc_eq_plus1 mset.simps(2) mset_append union_mset_add_mset_right)

lemma mem_send_u:
  assumes "owners_ok w"
  shows "\<exists>w'. send_u k w = Inr w' \<and> owners_ok w'"
proof (cases "k < length (w_inflight w)")
  case True
  let ?r = "w_inflight w ! k" and ?rest = "take k (w_inflight w) @ drop (k + 1) (w_inflight w)"
  let ?w = "w\<lparr>w_inflight := ?rest, w_blocks := w_blocks w - {req_block ?r}\<rparr>"
  have o: "owned w = add_mset (req_block ?r) (owned ?w)"
    unfolding owned_def inflight_split [OF True] by simp
  then have "req_block ?r \<in> w_blocks w" using assms by (simp add: owners_ok_def)
  then have "send_u k w = Inr ?w" using True by (simp add: send_u_def free_def Let_def)
  moreover have c: "count (add_mset (req_block ?r) (owned ?w)) b \<le> 1" for b
    using assms unfolding owners_ok_def o [symmetric] by blast
  have "count (owned ?w) b \<le> 1" for b using c [of b] by (simp split: if_splits)
  moreover have "req_block ?r \<notin># owned ?w" using c [of "req_block ?r"] by (simp add: count_eq_zero_iff)
  then have "set_mset (owned ?w) \<subseteq> w_blocks ?w" using assms o by (auto simp: owners_ok_def)
  ultimately have "send_u k w = Inr ?w" "owners_ok ?w" unfolding owners_ok_def by blast+
  then show ?thesis by blast
qed (use assms in \<open>simp add: send_u_def\<close>)

lemma mem_malloc:
  assumes "world_ok w" "owners_ok w" "malloc w = (w0, b)"
  shows "owners_ok w0" "b \<in> w_blocks w0" "b \<notin># owned w0" "owned w0 = owned w" "w_blocks w \<subseteq> w_blocks w0"
    "w_pcs w0 = w_pcs w" "w_streams w0 = w_streams w"
proof -
  have w0: "w0 = w\<lparr>w_blocks := insert b (w_blocks w), w_next := b + 1\<rparr>" "b = w_next w"
    using assms(3) by (auto simp: malloc_def)
  then show o: "owned w0 = owned w" by (simp add: owned_def)
  have "b \<notin> w_blocks w" using assms(1) w0(2) by (auto simp: world_ok_def)
  then show "b \<notin># owned w0" using assms(2) by (auto simp: o owners_ok_def)
  show "owners_ok w0" using assms(2) unfolding owners_ok_def o by (auto simp: w0(1))
qed (use assms(3) in \<open>auto simp: malloc_def\<close>)

text \<open>A request made on a fresh block.\<close>

lemma mem_send_fresh:
  assumes "owners_ok w" "b \<in> w_blocks w" "b \<notin># owned w"
  shows "owners_ok (uv_udp_send pc b bs dest w)" "owned (uv_udp_send pc b bs dest w) \<subseteq># add_mset b (owned w)"
    "w_blocks (uv_udp_send pc b bs dest w) = w_blocks w"
proof -
  let ?w = "uv_udp_send pc b bs dest w"
  obtain X where X: "X = {#b#} \<or> X = {#}" "owned ?w = owned w + X"
    by (cases "w_accepts w \<lparr>req_pc = pc, req_block = b, req_bytes = bs, req_dest = dest\<rparr>")
      (simp_all add: owned_def uv_udp_send_def Let_def)
  show bl: "w_blocks ?w = w_blocks w" by (simp add: uv_udp_send_def Let_def)
  show "owned ?w \<subseteq># add_mset b (owned w)" using X by auto
  show "owners_ok ?w" using assms X(1) by (intro owners_grow [OF assms(1) _ X(2)]) (auto simp: bl)
qed

lemma mem_OnRTP:
  assumes "world_ok w" "owners_ok w" "b \<in> w_blocks w" "b \<notin># owned w" "length (live_sinks w s) \<le> 1"
    "MediaStream_OnRTP sink_alive OnMediaData s (b, p) w = Inr w'"
  shows "owners_ok w'"
proof -
  have "pool_ok (w_pool w)" "\<forall>pc self. w_pcs w pc = Some self \<longrightarrow> pc_loop self < LOOP_NUM"
    using assms(1) by (auto simp: world_ok_def pc_ok_def)
  from OnRTP_loop_eq [OF this, of b p "ms_sinks s"] assms(6) obtain pool where
    w': "w' = w\<lparr>w_pool := pool\<rparr>" "pending pool = pending (w_pool w) +
      mset (map (\<lambda>s. TaskSend s b (rtp_data p) (rtp_size p)) (live_sinks w s))"
    by (auto simp: MediaStream_OnRTP_def live_sinks_def)
  have "(\<Sum>t \<in># mset (map (\<lambda>s. TaskSend s b (rtp_data p) (rtp_size p)) ss). task_blocks t) = replicate_mset (length ss) b" for ss
    by (induction ss) auto
  then have o: "owned w' = owned w + replicate_mset (length (live_sinks w s)) b"
    by (simp add: owned_def w')
  show ?thesis
    by (rule owners_grow [OF assms(2) _ o]) (use assms(3-5) w'(1) in \<open>auto split: if_splits\<close>)
qed

lemma mem_feedback:
  assumes "world_ok w" "owners_ok w" "b \<in> w_blocks w" "b \<notin># owned w"
    "(case feedback of None \<Rightarrow> Inr w | Some (fb, n) \<Rightarrow> let (w, fb_block) = malloc w in sendData pc fb_block fb n w) = Inr w1"
  shows "world_ok w1 \<and> owners_ok w1 \<and> b \<in> w_blocks w1 \<and> b \<notin># owned w1 \<and> w_pcs w1 = w_pcs w \<and> w_streams w1 = w_streams w"
proof (cases feedback)
  case (Some x)
  obtain fb n where x: "x = (fb, n)" by (cases x)
  obtain w0 c where m: "malloc w = (w0, c)" by (cases "malloc w")
  note M = mem_malloc [OF assms(1,2) m]
  have send: "sendData pc c fb n w0 = Inr w1" using assms(5) by (simp add: Some x m)
  then obtain bs dest where w1: "w1 = uv_udp_send pc c bs dest w0" by (auto simp: sendData_def bindr_eq_Inr)
  have "c \<noteq> b" using assms(1,3) m by (auto simp: malloc_def world_ok_def)
  moreover note sent = mem_send_fresh [OF M(1-3), of pc bs dest, folded w1]
  moreover have "b \<notin># owned w1" using \<open>c \<noteq> b\<close> assms(4) M(4) mset_subset_eqD [OF sent(2), of b] by auto
  moreover have "world_ok w1" using ok_sendData [OF ok_malloc [OF assms(1) m] send] .
  moreover have "w_pcs w1 = w_pcs w0" "w_streams w1 = w_streams w0" by (simp_all add: w1 uv_udp_send_def Let_def)
  ultimately show ?thesis using M(4-7) assms(3,4) by auto
qed (use assms in simp)

lemma mem_handle_RTP:
  assumes w: "world_ok w" "owners_ok w" "single_viewer w" and b: "b \<in> w_blocks w" "b \<notin># owned w"
    and sz: "0 \<le> sz" "sz < 2 ^ 31" "sz \<le> int (length data)"
    and h: "handleIncomingRTPData env pc b data sz w = Inr w'"
  shows "owners_ok w'"
proof -
  obtain self where self: "w_pcs w pc = Some self" using h by (auto simp: handleIncomingRTPData_def bindr_eq_Inr)
  obtain p ok where r1: "RTPPacket_Parse (RTPPacket_new (env_rtp0 env) (env_now_ms env)) data sz = Inr (p, ok)"
    using RTPPacket_Parse_total [OF sz, of "RTPPacket_new (env_rtp0 env) (env_now_ms env)"] by blast
  obtain sm where sm: "pc_sessionManager self = Some sm"
    using h self r1 by (cases "pc_sessionManager self") (simp_all add: handleIncomingRTPData_def)
  obtain rs where rs: "pc_remoteStream self = Some rs"
    using h self r1 sm by (cases "pc_remoteStream self") (auto simp: handleIncomingRTPData_def bindr_eq_Inr)
  from h self r1 sm rs obtain feedback w1 s where
    r: "(case feedback of None \<Rightarrow> Inr w | Some (fb, n) \<Rightarrow> let (w, fb_block) = malloc w in sendData pc fb_block fb n w) = Inr w1"
      "w_streams w1 rs = Some s" "MediaStream_OnRTP sink_alive OnMediaData s (b, p) w1 = Inr w'"
    unfolding handleIncomingRTPData_def by (simp add: bindr_eq_Inr) blast
  have w1: "world_ok w1" "owners_ok w1" "b \<in> w_blocks w1" "b \<notin># owned w1" "w_pcs w1 = w_pcs w" "w_streams w1 = w_streams w"
    using mem_feedback [OF w(1,2) b r(1)] by simp_all
  have "sink_alive w1 = sink_alive w" by (rule ext) (simp add: sink_alive_def w1(5))
  then have "live_sinks w1 s = live_sinks w s" by (simp add: live_sinks_def)
  then have "length (live_sinks w1 s) \<le> 1" using w(3) r(2) w1(6) by (simp add: single_viewer_def)
  then show ?thesis by (rule mem_OnRTP [OF w1(1-4) _ r(3)])
qed

lemma mem_handle_RTCP: "handleIncomingRTCPData env pc data sz w = Inr w' \<Longrightarrow> same_mem w w'"
  by (auto simp: handleIncomingRTCPData_def bindr_eq_Inr split: if_splits option.splits intro!: same_memI)

lemma mem_OnSocketData:
  assumes w: "world_ok w" "owners_ok w" "single_viewer w" and b: "b \<in> w_blocks w" "b \<notin># owned w"
    and sz: "0 \<le> sz" "sz < 2 ^ 31" "sz \<le> int (length data)"
    and h: "OnSocketData env pc b data sz rmt w = Inr w'"
  shows "owners_ok w'"
proof -
  let ?w = "note_remote env pc rmt w"
  have n: "world_ok ?w" using w(1) by (rule world_ok_note)
  have same: "same_mem w ?w" by (simp add: note_remote_def mem_upd_pc)
  then have o: "owners_ok ?w" "b \<in> w_blocks ?w" "b \<notin># owned ?w" using owners_same [OF same w(2)] b by (simp_all add: same_mem_def)
  have single: "single_viewer ?w" using w(3) by (simp add: single_viewer_def) (simp add: note_remote_def)
  obtain stun where stun: "IsStun data sz = Inr stun" using h by (auto simp: OnSocketData_def bindr_eq_Inr Let_def)
  show ?thesis
  proof (cases stun)
    case True
    then obtain bs dest where w': "w' = uv_udp_send pc (snd (malloc ?w)) bs dest (fst (malloc ?w))"
      using h stun by (auto simp: OnSocketData_def bindr_eq_Inr Let_def note_remote_def case_prod_beta split: option.splits)
    note M = mem_malloc [OF n o(1) surjective_pairing]
    show ?thesis unfolding w' by (rule mem_send_fresh(1) [OF M(1-3)])
  next
    case False
    then have "handleIncomingRTCPData env pc data sz ?w = Inr w' \<or> handleIncomingRTPData env pc b data sz ?w = Inr w'"
      using h stun by (auto simp: OnSocketData_def bindr_eq_Inr Let_def note_remote_def split: if_splits)
    then show ?thesis using owners_same [OF mem_handle_RTCP o(1)] mem_handle_RTP [OF n o(1) single o(2,3) sz] by blast
  qed
qed

lemma mem_recv:
  assumes w: "world_ok w" "owners_ok w" "single_viewer w" and m: "malloc w = (w0, b)"
    and sz: "nread \<le> int (length buf)" "nread < 2 ^ 31" and h: "read_u env pc nread b buf addr w0 = Inr w'"
  shows "owners_ok w'"
proof -
  note M = mem_malloc [OF w(1,2) m]
  have w0: "world_ok w0" using w(1) m by (rule ok_malloc)
  have "sink_alive w0 = sink_alive w" by (rule ext) (simp add: sink_alive_def M(6))
  then have single: "single_viewer w0" using w(3) by (simp add: single_viewer_def live_sinks_def M(7))
  obtain w1 where w1: "(if 0 < nread \<and> w_pcs w0 pc \<noteq> None
      then case addr of None \<Rightarrow> Inl NullDeref | Some rmt \<Rightarrow> OnSocketData env pc b buf nread rmt w0 else Inr w0) = Inr w1"
      "(if nread = 0 \<and> addr = None then free b w1 else Inr w1) = Inr w'"
    using h by (auto simp: read_u_def bindr_eq_Inr)
  show ?thesis
  proof (cases "0 < nread \<and> w_pcs w0 pc \<noteq> None")
    case True
    then obtain rmt where "OnSocketData env pc b buf nread rmt w0 = Inr w1" using w1(1) by (cases addr) auto
    with True sz have "owners_ok w1" using mem_OnSocketData [OF w0 M(1) single M(2,3), of nread buf] by simp
    then show ?thesis using w1(2) True by simp
  next
    case False
    then have "w1 = w0" using w1(1) by (simp split: if_splits)
    moreover have "owners_ok (w0\<lparr>w_blocks := w_blocks w0 - {b}\<rparr>)"
      using M(1,3) by (auto simp: owners_ok_def owned_def)
    ultimately show ?thesis using w1(2) M(1) by (auto simp: free_def split: if_splits)
  qed
qed

section \<open>Every reachable state\<close>

lemma owners_new: "owners_ok (world_new port)"
  by (simp add: owners_ok_def owned_def world_new_def)

interpretation mem: invariant_system "\<lambda>w. \<exists>port. w = world_new port" "\<lambda>w w'. single_viewer w \<and> sys_step lib w w'" mem_ok
  for lib :: "'j json_lib"
proof
  fix w w' assume "mem_ok w" and step: "single_viewer w \<and> sys_step lib w w'"
  then have ok: "world_ok w" "owners_ok w" by (simp_all add: mem_ok_def)
  note keep = owners_same [OF _ ok(2)]
  from step have "sys_step lib w w'" by simp
  then have "owners_ok w'"
  proof (cases rule: sys_step.cases)
    case (s_recv w0 b nread buf env pc addr)
    then show ?thesis using mem_recv [OF ok] step by blast
  next
    case (s_complete k)
    then show ?thesis using mem_send_u [OF ok(2), of k] by auto
  next
    case (s_run l k)
    then show ?thesis using mem_loop_run ok(2) by blast
  qed (auto simp: AddRemoteStreamListener_def CreateOffer_def SetRemoteSdp_def Destroy_def bindr_eq_Inr
      intro!: keep intro: mem_PeerConnection_new mem_stream mem_AddStream mem_upd_pc mem_Start [OF ok(1)] mem_CreateAnswer
        mem_server mem_delete mem_ontimer mem_net)
  moreover have "world_ok w'" using step by (intro sys.step_inv [OF ok(1), of lib]) simp
  ultimately show "mem_ok w'" by (simp add: mem_ok_def)
qed (auto simp: mem_ok_def ok_new owners_new)

text \<open>
  C3. Memory safety with one viewer: as long as every stream has at most one live sink, in
  every interleaving of the operations, no block of memory is used by two requests in flight,
  every posted function that runs returns, so none sends from freed memory, and every
  completion returns, so none frees a block twice. This is about the blocks that \<open>malloc\<close>
  returned: the request's pointer to the socket inside the connection is not considered.
\<close>

theorem single_viewer_memory_safe:
  assumes "reachable (\<lambda>w. \<exists>port. w = world_new port) (\<lambda>w w'. single_viewer w \<and> sys_step lib w w') w"
  shows "distinct (map req_block (w_inflight w)) \<and> (\<forall>l k. \<exists>w'. loop_run l k w = Inr w') \<and> (\<forall>k. \<exists>w'. send_u k w = Inr w')"
proof -
  have ok: "mem_ok w" using assms by (rule mem.reachable_inv)
  have "count (mset (map req_block (w_inflight w))) b \<le> 1" for b
    using ok by (auto simp: mem_ok_def owners_ok_def owned_def dest!: spec [of _ b])
  then have "count (mset (map req_block (w_inflight w))) b = (if b \<in> set (map req_block (w_inflight w)) then 1 else 0)" for b
    using count_greater_zero_iff [of "mset (map req_block (w_inflight w))" b] by (simp add: le_Suc_eq del: mset_map)
  then have "distinct (map req_block (w_inflight w))" unfolding distinct_count_atmost_1 by blast
  moreover have "\<exists>w'. loop_run l k w = Inr w'" for l k using loop_run_eq [OF mem_ok_live [OF ok]] by blast
  moreover have "\<exists>w'. send_u k w = Inr w'" for k using mem_send_u [of w k] ok by (auto simp: mem_ok_def)
  ultimately show ?thesis by blast
qed

text \<open>A connection that has just received a binding request; its reply is in flight.\<close>

definition asked :: "world res" where
  "asked = read_u sample_env 4 20 0 sample_request (Some sample_addr)
     (fst (malloc (PeerConnection_new 4 ''u'' ''v'' ''w'' (world_new 8080))))"

lemma asked_returns: "\<exists>w. asked = Inr w \<and> length (w_inflight w) = 1"
proof -
  let ?w = "fst (malloc (PeerConnection_new 4 ''u'' ''v'' ''w'' (world_new 8080)))"
  obtain self where self: "w_pcs ?w 4 = Some self" and i: "w_inflight ?w = []" "w_sent ?w = []" "w_accepts ?w = (\<lambda>_. True)"
    by (simp add: malloc_def PeerConnection_new_def world_new_def Let_def case_prod_beta)
  have e: "length (env_stun_mem sample_env) = MaxStunSize" "\<And>k m. length (env_hmac sample_env k m) = HMACSize"
    by (simp_all add: sample_env_def MaxStunSize_def HMACSize_def)
  obtain w where "OnSocketData sample_env 4 0 sample_request 20 sample_addr ?w = Inr w" "length (w_inflight w) = 1"
    using stun_reply_sent [OF self sample_request e, of 0 sample_addr] unfolding sends_def i by auto
  then show ?thesis using self unfolding asked_def read_u_def by simp
qed

theorem single_viewer_memory_safe_witness:
  "\<exists>w w'. asked = Inr w \<and> length (w_inflight w) = 1 \<and> send_u 0 w = Inr w'"
proof -
  let ?r = "reachable (\<lambda>w. \<exists>port. w = world_new port) (\<lambda>w w'. single_viewer w \<and> sys_step sample_lib w w')"
  let ?w0 = "world_new 8080" and ?w1 = "PeerConnection_new 4 ''u'' ''v'' ''w'' (world_new 8080)"
  obtain w where w: "asked = Inr w" "length (w_inflight w) = 1" using asked_returns by blast
  have none: "w_streams ?w0 = Map.empty" "w_streams ?w1 = Map.empty"
    by (simp_all add: world_new_def PeerConnection_new_def Let_def case_prod_beta)
  then have single: "single_viewer ?w0" "single_viewer ?w1" by (simp_all add: single_viewer_def)
  have "sys_step sample_lib ?w0 ?w1" by (rule s_new) (simp add: fresh_pc_def world_new_def)
  then have r1: "?r ?w1" using single(1) by (intro reach_step [OF reach_init]) auto
  have "malloc ?w1 = (fst (malloc ?w1), 0)" by (simp add: malloc_def PeerConnection_new_def world_new_def Let_def case_prod_beta)
  then have "sys_step sample_lib ?w1 w"
    by (rule s_recv) (use w(1) in \<open>simp_all add: asked_def sample_request_def\<close>)
  then have "?r w" using single(2) by (intro reach_step [OF r1]) simp
  from single_viewer_memory_safe [OF this] w show ?thesis by blast
qed

end
