(* ===== verification/Http_Front.thy ===== *)
theory Http_Front
  imports Spadia_Memory
begin

text \<open>
  The example program (\<open>example/main.cpp\<close>): two HTTP handlers over one shared stream variable.
  \<open>/post\<close> creates a connection for a publisher and stores the stream it announces; \<open>/play\<close>
  creates a connection that is a sink of the stored stream; \<open>OPTIONS /post\<close> only replies. The HTTP library calls the
  handlers with the request's body; \<open>pc\<close> is the number of the new connection object, \<open>u1\<close> \dots
  \<open>u5\<close> are fresh identifiers, \<open>sid\<close> is the number for a new stream object. The listener of
  \<open>/post\<close> swaps the announced stream into the variable; it runs when the answer calls it, and
  nothing reads the variable before the handler returns.
\<close>

unbundle bit_operations_syntax

record app =
  app_world :: world
  app_stream :: "nat option"

record Response =
  res_headers :: "(string \<times> string) list"
  res_body :: string
  res_content_type :: string

definition reply :: "string \<Rightarrow> Response" where
  "reply content = \<lparr>res_headers = [(''Access-Control-Allow-Origin'', ''*'')], res_body = content, res_content_type = ''text/plain''\<rparr>"

definition options_handler :: Response where
  "options_handler = reply ''ok''"


definition play_handler ::
  "'j json_lib \<Rightarrow> u64 \<Rightarrow> nat \<Rightarrow> string \<times> string \<times> string \<times> string \<times> string \<Rightarrow> nat \<Rightarrow> string \<Rightarrow> app \<Rightarrow> (app \<times> Response) res" where
  "play_handler lib now pc us sid offer a =
     (case us of (u1, u2, u3, u4, u5) \<Rightarrow>
      let w = PeerConnection_new pc u1 u2 u3 (app_world a) in
      case app_stream a of None \<Rightarrow> Inl NullDeref
      | Some stream \<Rightarrow>
        bindr (AddStream pc stream w) (\<lambda>w.
        bindr (CreateAnswer lib (\<lambda>rs w. Inr w) now u4 u5 sid pc offer w) (\<lambda>(w, answer).
        bindr (Start pc w) (\<lambda>w. Inr (\<lparr>app_world = w, app_stream = app_stream a\<rparr>, reply answer)))))"

section \<open>What the handlers leave behind\<close>










section \<open>Properties\<close>



text \<open>Playing before anything is published dereferences the null stream.\<close>

lemma play_before_post: "app_stream a = None \<Longrightarrow> play_handler lib now pc us sid offer a = Inl NullDeref"
  by (cases us) (simp add: play_handler_def Let_def)












end
