(* ===== verification/Double_Arith.thy ===== *)
theory Double_Arith
  imports Spadia_Prelude "HOL-Library.Log_Nat"
begin

text \<open>
  The arithmetic of \<open>double\<close> that the clocks and the RTCP reports use. A \<open>double\<close> is the rational
  number it denotes; \<open>rnd\<close> rounds an exact result to the nearest number with a 53-bit
  significand, ties to even, as each operation of IEEE 754 does. The exponents that occur are far
  from the limits of the format, so there is no overflow and no subnormal number. Each operation
  rounds once: no wider intermediate format and no fused multiply-add. The lemmas bound the
  rounding error, give the numbers that are represented exactly, and show that integer division
  through \<open>double\<close> is exact below \<open>2 ^ 53\<close>.
\<close>

section \<open>Double precision\<close>

definition expo :: "rat \<Rightarrow> int" where
  "expo x = (if 1 \<le> x then int (floorlog 2 (nat \<lfloor>x\<rfloor>)) - 1 else - int (floorlog 2 (nat (\<lceil>1 / x\<rceil> - 1))))"

definition round_even :: "rat \<Rightarrow> int" where
  "round_even y = (let n = \<lfloor>y\<rfloor>; f = y - of_int n in
     if f < 1 / 2 then n else if 1 / 2 < f then n + 1 else if even n then n else n + 1)"

definition rnd_pos :: "rat \<Rightarrow> rat" where
  "rnd_pos x = (if x = 0 then 0 else let k = 52 - expo x in of_int (round_even (x * 2 powi k)) / 2 powi k)"

definition rnd :: "rat \<Rightarrow> rat" where
  "rnd x = (if x < 0 then - rnd_pos (- x) else rnd_pos x)"

text \<open>
  A conversion from an unsigned integer rounds; a conversion to one drops the fraction, and is
  undefined when the result does not fit.
\<close>

definition to_double :: "'a::len word \<Rightarrow> rat" where
  "to_double w = rnd (of_int (uint w))"

definition to_unsigned :: "rat \<Rightarrow> 'a::len word res" where
  "to_unsigned x = (let n = (if x < 0 then - \<lfloor>- x\<rfloor> else \<lfloor>x\<rfloor>) in
     if 0 \<le> n \<and> n < 2 ^ LENGTH('a) then Inr (word_of_int n) else Inl BadConversion)"

section \<open>Rounding\<close>

lemma floorlog_rat:
  assumes "0 < n"
  obtains j where "floorlog 2 n = Suc j" "2 ^ j \<le> (of_nat n :: rat)" "of_nat n + 1 \<le> (2 :: rat) ^ Suc j"
proof -
  obtain j where j: "floorlog 2 n = Suc j" using assms by (cases "floorlog 2 n") (auto simp: floorlog_eq_zero_iff)
  have "2 ^ j \<le> n" "n + 1 \<le> 2 ^ Suc j" using floorlog_bounds [of n 2] assms j by simp_all
  then have "of_nat (2 ^ j) \<le> (of_nat n :: rat)" "of_nat (n + 1) \<le> (of_nat (2 ^ Suc j) :: rat)"
    by (simp_all only: of_nat_le_iff)
  then show ?thesis using that [of j] j by simp
qed

lemma expo_ge1:
  assumes "1 \<le> x"
  shows "2 powi expo x \<le> x \<and> x < 2 powi (expo x + 1)"
proof -
  have n: "0 < nat \<lfloor>x\<rfloor>" "of_nat (nat \<lfloor>x\<rfloor>) \<le> x" "x < of_nat (nat \<lfloor>x\<rfloor>) + 1"
    using assms floor_correct [of x] by simp_all
  obtain j where j: "floorlog 2 (nat \<lfloor>x\<rfloor>) = Suc j" "2 ^ j \<le> (of_nat (nat \<lfloor>x\<rfloor>) :: rat)"
    "of_nat (nat \<lfloor>x\<rfloor>) + 1 \<le> (2 :: rat) ^ Suc j" using floorlog_rat [OF n(1)] .
  have e: "expo x = int j" "expo x + 1 = int (Suc j)" using assms j(1) by (simp_all add: expo_def)
  show ?thesis unfolding e(2) unfolding e(1) power_int_of_nat by (rule conjI [OF order_trans [OF j(2) n(2)] less_le_trans [OF n(3) j(3)]])
qed

lemma expo_lt1:
  assumes "0 < x" "x < 1"
  shows "2 powi expo x \<le> x \<and> x < 2 powi (expo x + 1)"
proof -
  define c where "c = nat (\<lceil>1 / x\<rceil> - 1)"
  have "1 < 1 / x" using assms by (simp add: field_simps)
  then have i: "2 \<le> \<lceil>1 / x\<rceil>" by linarith
  have "of_nat c = (of_int (\<lceil>1 / x\<rceil> - 1) :: rat)" unfolding c_def by (rule of_nat_nat) (use i in linarith)
  then have "of_nat c = of_int \<lceil>1 / x\<rceil> - (1 :: rat)" by simp
  then have c: "0 < c" "of_nat c < 1 / x" "1 / x \<le> of_nat c + 1" using i by (simp add: c_def, linarith, linarith)
  obtain j where j: "floorlog 2 c = Suc j" "2 ^ j \<le> (of_nat c :: rat)" "of_nat c + 1 \<le> (2 :: rat) ^ Suc j"
    using floorlog_rat [OF c(1)] .
  have "2 ^ j < 1 / x" "1 / x \<le> 2 ^ Suc j" using j c by linarith+
  then have b: "1 / 2 ^ Suc j \<le> x" "x < 1 / 2 ^ j" using assms by (simp_all add: field_simps)
  have e: "expo x = - int (Suc j)" "expo x + 1 = - int j" using assms j(1) by (simp_all add: expo_def c_def [symmetric])
  show ?thesis unfolding e(2) unfolding e(1) power_int_minus power_int_of_nat using b by (simp only: inverse_eq_divide)
qed

lemma expo_bounds:
  assumes "0 < x"
  shows "2 powi expo x \<le> x" "x < 2 powi (expo x + 1)"
  using expo_ge1 [of x] expo_lt1 [of x] assms by linarith+

lemma round_even_cases: "round_even y = \<lfloor>y\<rfloor> \<or> round_even y = \<lfloor>y\<rfloor> + 1"
  by (simp add: round_even_def Let_def)

lemma round_even_err: "\<bar>of_int (round_even y) - y\<bar> \<le> 1 / 2"
  using floor_correct [of y] by (auto simp: round_even_def Let_def)

lemma round_even_near:
  assumes "\<bar>y - of_int n\<bar> < 1 / 2"
  shows "round_even y = n"
proof -
  have "\<bar>of_int (round_even y) - of_int n\<bar> < (1 :: rat)" using assms round_even_err [of y] by linarith
  then show ?thesis by linarith
qed

lemma round_even_ge:
  assumes "of_int n \<le> y"
  shows "n \<le> round_even y"
proof -
  have "n \<le> \<lfloor>y\<rfloor>" using assms by (simp add: le_floor_iff)
  then show ?thesis using round_even_cases [of y] by linarith
qed

lemma rnd_pos_eq:
  assumes "0 < x"
  shows "rnd x = of_int (round_even (x * 2 powi (52 - expo x))) / 2 powi (52 - expo x)"
  using assms by (simp add: rnd_def rnd_pos_def Let_def)

lemma rnd_0 [simp]: "rnd 0 = 0"
  by (simp add: rnd_def rnd_pos_def)

lemma rnd_err:
  assumes "0 \<le> x"
  shows "\<bar>rnd x - x\<bar> \<le> x / 2 ^ 53"
proof (cases "x = 0")
  case False
  then have x: "0 < x" using assms by simp
  define s where "s = (2 :: rat) powi (52 - expo x)"
  have s: "0 < s" "s * 2 powi expo x = 2 ^ 52"
    by (simp add: s_def) (simp add: s_def power_int_diff)
  have "rnd x - x = (of_int (round_even (x * s)) - x * s) / s"
    using s(1) by (simp add: rnd_pos_eq [OF x] s_def [symmetric] field_simps)
  then have "\<bar>rnd x - x\<bar> = \<bar>of_int (round_even (x * s)) - x * s\<bar> / s" using s(1) by simp
  also have "\<dots> \<le> (1 / 2) / s" using round_even_err s(1) by (intro divide_right_mono) auto
  also have "\<dots> = 2 powi expo x / 2 ^ 53" using s by (simp add: field_simps)
  also have "\<dots> \<le> x / 2 ^ 53" using expo_bounds(1) [OF x] by (simp add: divide_right_mono)
  finally show ?thesis .
qed simp

lemma rnd_bounds:
  assumes "0 \<le> x"
  shows "x - x / 2 ^ 53 \<le> rnd x" "rnd x \<le> x + x / 2 ^ 53"
  using rnd_err [OF assms] unfolding abs_le_iff by linarith+

lemma scale_nat:
  assumes "0 < x" "x < 2 ^ 53"
  obtains j where "2 powi (52 - expo x) = (2 :: rat) ^ j" "2 ^ j * x < 2 ^ 53" "2 ^ 52 \<le> 2 ^ j * x"
proof -
  have "expo x \<le> 52"
  proof (rule ccontr)
    assume "\<not> expo x \<le> 52"
    then have "(2 :: rat) powi 53 \<le> 2 powi expo x" by (intro power_int_increasing) auto
    then show False using expo_bounds(1) [OF assms(1)] assms(2) by simp
  qed
  then obtain j where j: "52 - expo x = int j" by (metis diff_ge_0_iff_ge nonneg_int_cases)
  then have e: "expo x = 52 - int j" by simp
  have "2 ^ 52 / 2 ^ j \<le> x" "x < 2 ^ 53 / 2 ^ j"
    using expo_bounds [OF assms(1)] by (simp_all add: e power_int_diff power_int_add)
  then show ?thesis using that [of j] by (simp add: j field_simps)
qed

text \<open>A number below \<open>2 ^ 53\<close> that is within half a unit of the last place of an integer rounds to it.\<close>

lemma rnd_near:
  assumes "2 ^ 41 \<le> x" "x < 2 ^ 53" "\<bar>x - of_int n\<bar> < 1 / 2 ^ 12"
  shows "rnd x = of_int n"
proof -
  have x: "0 < x" using assms(1) by (rule less_le_trans [rotated]) simp
  obtain j where j: "2 powi (52 - expo x) = (2 :: rat) ^ j" "2 ^ j * x < 2 ^ 53" using scale_nat [OF x assms(2)] .
  have "(2 :: rat) ^ j * 2 ^ 41 \<le> 2 ^ j * x" using assms(1) by (intro mult_left_mono) auto
  then have "(2 :: rat) ^ j * 2 ^ 41 < 2 ^ 53" using j(2) by (rule le_less_trans)
  then have "(2 :: rat) ^ (j + 41) < 2 ^ 53" unfolding power_add .
  then have "j + 41 < 53" by (rule power_less_imp_less_exp [rotated]) simp
  then have "(2 :: rat) ^ j \<le> 2 ^ 11" by (intro power_increasing) auto
  then have "2 ^ j * \<bar>x - of_int n\<bar> \<le> 2 ^ 11 * \<bar>x - of_int n\<bar>" by (intro mult_right_mono) auto
  also have "\<dots> < 1 / 2" using assms(3) by simp
  finally have "2 ^ j * \<bar>x - of_int n\<bar> < 1 / 2" .
  moreover have "x * 2 ^ j - of_int (n * 2 ^ j) = 2 ^ j * (x - of_int n)" by (simp add: algebra_simps)
  ultimately have "\<bar>x * 2 ^ j - of_int (n * 2 ^ j)\<bar> < 1 / 2" by (simp add: abs_mult)
  then have "round_even (x * 2 ^ j) = n * 2 ^ j" by (rule round_even_near)
  then show ?thesis by (simp add: rnd_pos_eq [OF x] j(1))
qed

lemma rnd_of_int:
  assumes "0 \<le> n" "n < 2 ^ 53"
  shows "rnd (of_int n) = of_int n"
proof (cases "n = 0")
  case False
  then have x: "0 < (of_int n :: rat)" using assms by simp
  have "(of_int n :: rat) < of_int (2 ^ 53)" using assms(2) by (simp only: of_int_less_iff)
  then have "(of_int n :: rat) < 2 ^ 53" by simp
  then obtain j where j: "2 powi (52 - expo (of_int n)) = (2 :: rat) ^ j" using scale_nat [OF x] by blast
  have "round_even (of_int n * 2 ^ j) = n * 2 ^ j" by (rule round_even_near) simp
  then show ?thesis by (simp add: rnd_pos_eq [OF x] j)
qed simp

lemma rnd_ge_int:
  assumes "of_int n \<le> x" "0 < x" "x < 2 ^ 53"
  shows "of_int n \<le> rnd x"
proof -
  obtain j where j: "2 powi (52 - expo x) = (2 :: rat) ^ j" using scale_nat [OF assms(2,3)] by blast
  have "of_int (n * 2 ^ j) \<le> x * 2 ^ j" using assms(1) by (simp add: mult_right_mono)
  then have "n * 2 ^ j \<le> round_even (x * 2 ^ j)" by (rule round_even_ge)
  then have "(of_int (n * 2 ^ j) :: rat) \<le> of_int (round_even (x * 2 ^ j))" by (simp only: of_int_le_iff)
  then show ?thesis by (simp add: rnd_pos_eq [OF assms(2)] j field_simps)
qed

section \<open>Conversions\<close>

lemma to_unsigned_floor:
  assumes "of_int n \<le> x" "x < of_int n + 1" "0 \<le> n" "n < 2 ^ LENGTH('a)"
  shows "to_unsigned x = (Inr (word_of_int n) :: 'a::len word res)"
proof -
  have "\<lfloor>x\<rfloor> = n" using assms(1,2) by (rule floor_unique)
  moreover have "0 \<le> x" using assms(1,3) by (metis of_int_0_le_iff order_trans)
  ultimately show ?thesis using assms(3,4) by (simp add: to_unsigned_def)
qed

lemma to_unsigned_of_int:
  assumes "0 \<le> n" "n < 2 ^ LENGTH('a)"
  shows "to_unsigned (of_int n) = (Inr (word_of_int n) :: 'a::len word res)"
  using assms by (intro to_unsigned_floor) auto

lemma uint_word_of_int_id:
  assumes "0 \<le> n" "n < 2 ^ LENGTH('a)"
  shows "uint (word_of_int n :: 'a::len word) = n"
  using assms by (simp add: uint_word_of_int)

lemma to_double_of_int:
  assumes "0 \<le> n" "n < 2 ^ LENGTH('a)" "n < 2 ^ 53"
  shows "to_double (word_of_int n :: 'a::len word) = of_int n"
  unfolding to_double_def uint_word_of_int_id [OF assms(1,2)] using assms(1,3) by (rule rnd_of_int)

text \<open>Scaling by a constant, dropping the fraction and scaling back loses less than one step of the scale.\<close>

lemma scale_back:
  assumes "0 < c" "0 \<le> r" "f \<le> rnd (r * c)" "rnd (r * c) < f + 1"
  shows "f / c \<le> r + r / 2 ^ 53" "r - r / 2 ^ 53 - 1 / c < f / c"
proof -
  have "0 \<le> r * c" using assms by simp
  then have "f \<le> r * c + r * c / 2 ^ 53" "r * c - r * c / 2 ^ 53 - 1 < f"
    using rnd_bounds [of "r * c"] assms(3,4) by linarith+
  moreover have "(r + r / 2 ^ 53) * c = r * c + r * c / 2 ^ 53" "(r - r / 2 ^ 53 - 1 / c) * c = r * c - r * c / 2 ^ 53 - 1"
    using assms(1) by (simp_all add: field_simps)
  ultimately show "f / c \<le> r + r / 2 ^ 53" "r - r / 2 ^ 53 - 1 / c < f / c"
    unfolding pos_divide_le_eq [OF assms(1)] pos_less_divide_eq [OF assms(1)] by (simp_all only:)
qed

text \<open>Dividing integers below \<open>2 ^ 53\<close> as doubles and dropping the fraction is integer division.\<close>

lemma quotient_floor:
  assumes "0 \<le> t" "t < 2 ^ 53" "0 < k"
  shows "of_int (t div k) \<le> rnd (of_int t / of_int k)" "rnd (of_int t / of_int k) < of_int (t div k) + 1"
proof -
  define x where "x = (of_int t :: rat) / of_int k"
  have k: "0 < (of_int k :: rat)" "(of_int k :: rat) \<noteq> 0" using assms(3) by simp_all
  have r: "(of_int (t mod k) :: rat) \<le> of_int (k - 1)" "(of_int 0 :: rat) \<le> of_int (t mod k)"
    using assms(3) pos_mod_bound [of k t] by (simp_all only: of_int_le_iff) simp_all
  have "(of_int t :: rat) = of_int (t div k) * of_int k + of_int (t mod k)"
    by (simp only: of_int_mult [symmetric] of_int_add [symmetric] div_mult_mod_eq)
  then have x: "x = of_int (t div k) + of_int (t mod k) / of_int k" using k by (simp add: x_def field_simps)
  moreover have "of_int (t mod k) / of_int k \<le> (of_int (k - 1) / of_int k :: rat)" using r(1) k by (intro divide_right_mono) simp_all
  moreover have "(of_int (k - 1) / of_int k :: rat) = 1 - 1 / of_int k" using k by (simp add: field_simps)
  ultimately have hi: "x \<le> of_int (t div k) + 1 - 1 / of_int k" by linarith
  have lo: "of_int (t div k) \<le> x" unfolding x using r(2) k by simp
  have nn: "0 \<le> x" using assms(1) k by (simp add: x_def)
  have "(of_int t :: rat) < of_int (2 ^ 53)" using assms(2) by (simp only: of_int_less_iff)
  then have "of_int t / 2 ^ 53 / of_int k < 1 / (of_int k :: rat)" using k by (intro divide_strict_right_mono) simp_all
  then have e: "x / 2 ^ 53 < 1 / of_int k" by (simp add: x_def)
  show "rnd (of_int t / of_int k) < of_int (t div k) + 1"
    using rnd_bounds(2) [OF nn] hi e unfolding x_def [symmetric] by linarith
  have "1 \<le> (of_int k :: rat)" using assms(3) by simp
  then have "x \<le> of_int t" using assms(1) k mult_left_mono [of 1 "of_int k" "of_int t :: rat"] by (simp add: x_def field_simps)
  then have "x < 2 ^ 53" using \<open>(of_int t :: rat) < of_int (2 ^ 53)\<close> by simp
  then show "of_int (t div k) \<le> rnd (of_int t / of_int k)"
    using rnd_ge_int [OF lo] lo nn unfolding x_def [symmetric] by (cases "x = 0") simp_all
qed

lemma to_unsigned_quotient:
  assumes "0 \<le> t" "t < 2 ^ 53" "0 < k" "t div k < 2 ^ LENGTH('a)"
  shows "to_unsigned (rnd (of_int t / of_int k)) = (Inr (word_of_int (t div k)) :: 'a::len word res)"
  using quotient_floor [OF assms(1-3)] assms by (intro to_unsigned_floor) (simp_all add: div_int_pos_iff)

end
