(* ===== verification/Clock.thy ===== *)
theory Clock
  imports Double_Arith
begin

text \<open>
  The clock readers of \<open>tools.h\<close>. What the operating system returns is an argument: the
  nanoseconds of \<open>uv_hrtime\<close>, and the seconds and microseconds of \<open>gettimeofday\<close>. Every reader
  converts through \<open>double\<close>.
\<close>

definition get_time_ms :: "u64 \<Rightarrow> u64 res" where
  "get_time_ms hrtime = to_unsigned (rnd (to_double hrtime / 1000000))"

definition get_time_utc_us :: "int \<Rightarrow> int \<Rightarrow> u64 res" where
  "get_time_utc_us tv_sec tv_usec =
     to_unsigned (rnd (rnd (to_double (word_of_int tv_sec :: u64) * 1000000) + rnd (of_int tv_usec)))"

definition get_time_utc_ms :: "int \<Rightarrow> int \<Rightarrow> u64 res" where
  "get_time_utc_ms tv_sec tv_usec =
     bindr (get_time_utc_us tv_sec tv_usec) (\<lambda>us. to_unsigned (rnd (to_double us / 1000)))"

lemma get_time_utc_us_eq:
  assumes "0 \<le> sec" "sec < 9007199254" "0 \<le> usec" "usec < 1000000"
  shows "get_time_utc_us sec usec = Inr (word_of_int (sec * 1000000 + usec))"
proof -
  have d: "to_double (word_of_int sec :: u64) = of_int sec" using assms by (intro to_double_of_int) simp_all
  have m: "rnd (of_int sec * 1000000) = of_int (sec * 1000000)" using rnd_of_int [of "sec * 1000000"] assms by simp
  have u: "rnd (of_int usec) = of_int usec" using assms by (intro rnd_of_int) simp_all
  have "rnd (of_int (sec * 1000000 + usec)) = of_int (sec * 1000000 + usec)" using assms by (intro rnd_of_int) simp_all
  moreover have "to_unsigned (of_int (sec * 1000000 + usec)) = (Inr (word_of_int (sec * 1000000 + usec)) :: u64 res)"
    using assms by (intro to_unsigned_of_int) simp_all
  ultimately show ?thesis unfolding get_time_utc_us_def d m u of_int_add [symmetric] by (simp only:)
qed

text \<open>
  C40. The clocks are exact although they are computed in \<open>double\<close>: the wall clock in
  microseconds and in milliseconds up to the year 2255, and the monotonic clock in milliseconds
  for the first \<open>2 ^ 53\<close> nanoseconds (104 days) of uptime; no conversion is undefined.
\<close>

theorem clocks_exact:
  assumes "0 \<le> sec" "sec < 9007199254" "0 \<le> usec" "usec < 1000000" "unat hrtime < 2 ^ 53"
  shows "get_time_utc_us sec usec = Inr (word_of_int (sec * 1000000 + usec)) \<and>
    get_time_utc_ms sec usec = Inr (word_of_int (sec * 1000 + usec div 1000)) \<and>
    get_time_ms hrtime = Inr (hrtime div 1000000)"
proof (intro conjI)
  show us: "get_time_utc_us sec usec = Inr (word_of_int (sec * 1000000 + usec))"
    using assms(1-4) by (rule get_time_utc_us_eq)
  define t where "t = sec * 1000000 + usec"
  have t: "0 \<le> t" "t < 9007199254740992" using assms by (simp_all add: t_def)
  have "to_double (word_of_int t :: u64) = of_int t" using t by (intro to_double_of_int) simp_all
  moreover have "t div 1000 = sec * 1000 + usec div 1000" by (simp add: t_def)
  moreover have "to_unsigned (rnd (of_int t / 1000)) = (Inr (word_of_int (t div 1000)) :: u64 res)"
    using to_unsigned_quotient [of t 1000, where 'a = 64] t by simp
  ultimately show "get_time_utc_ms sec usec = Inr (word_of_int (sec * 1000 + usec div 1000))"
    unfolding get_time_utc_ms_def us t_def [symmetric] by simp
  define h where "h = uint hrtime"
  have "int (unat hrtime) < int (2 ^ 53)" using assms(5) by (simp only: of_nat_less_iff)
  then have h: "0 \<le> h" "h < 9007199254740992" by (simp_all add: h_def)
  have "to_double hrtime = of_int h" unfolding to_double_def h_def [symmetric] using h by (intro rnd_of_int) simp_all
  moreover have "hrtime div 1000000 = word_of_int (h div 1000000)" by (simp add: word_div_def h_def)
  moreover have "to_unsigned (rnd (of_int h / 1000000)) = (Inr (word_of_int (h div 1000000)) :: u64 res)"
    using to_unsigned_quotient [of h 1000000, where 'a = 64] h by simp
  ultimately show "get_time_ms hrtime = Inr (hrtime div 1000000)" unfolding get_time_ms_def by (simp only:)
qed

theorem clocks_exact_witness:
  "get_time_utc_ms 1700000000 123456 = Inr 1700000000123 \<and> get_time_ms 86400000000001 = Inr 86400000"
  using clocks_exact [of 1700000000 123456 86400000000001] by simp

end
