(* ===== verification/Rtcp_Time.thy ===== *)
theory Rtcp_Time
  imports Rtcp_Packet Clock
begin

text \<open>
  The conversions of \<open>rtcp_packet.h\<close> that go through \<open>double\<close>: the NTP timestamp of a sender
  report from and to microseconds, and the delay of a report block from and to milliseconds. The
  timestamp is shown to survive its round trip and the delay not to.
\<close>

unbundle bit_operations_syntax

section \<open>The NTP timestamp of a sender report\<close>

definition ntp_scale :: rat where "ntp_scale = rnd (4294967296 / 1000000)"

definition SetTimestamp :: "SendReportPacket \<Rightarrow> u64 \<Rightarrow> SendReportPacket res" where
  "SetTimestamp p time =
     bindr (to_unsigned (rnd (to_double time / 1000000))) (\<lambda>sec :: u32.
     let p = p\<lparr>sr_ntpSec := ucast (ucast sec + (2208988800 :: u64))\<rparr> in
     bindr (to_unsigned (rnd (rnd (to_double time - rnd (to_double sec * 1000000)) * ntp_scale))) (\<lambda>frac.
     Inr (p\<lparr>sr_ntpFrac := frac\<rparr>)))"

definition GetTimestamp :: "SendReportPacket \<Rightarrow> u64 res" where
  "GetTimestamp p =
     (let ts = ucast (sr_ntpSec p) - (2208988800 :: u64) in
      bindr (to_unsigned (rnd (to_double ts * 1000000))) (\<lambda>ts :: u64.
      to_unsigned (rnd (to_double ts + rnd (to_double (sr_ntpFrac p) / ntp_scale)))))"

section \<open>The delay of a report block\<close>

definition dlsr_mul :: rat where "dlsr_mul = rnd (65535 / 1000)"
definition dlsr_div :: rat where "dlsr_div = rnd (65635 / 1000)"

definition SetDelaySinceLastSRMS :: "RTCPReceiverReportBlock \<Rightarrow> u32 \<Rightarrow> RTCPReceiverReportBlock res" where
  "SetDelaySinceLastSRMS b ms =
     bindr (to_unsigned (rnd (to_double (ms mod 1000) * dlsr_mul))) (\<lambda>frac.
     SetDelaySinceLastSR b (push_bit 16 (ms div 1000) OR frac))"

definition GetDelaySinceLastSRMS :: "RTCPReceiverReportBlock \<Rightarrow> u32 res" where
  "GetDelaySinceLastSRMS b =
     bindr (GetDelaySinceLastSR b) (\<lambda>dslr.
     to_unsigned (rnd (to_double (drop_bit 16 dslr * 1000) +
                       rnd (to_double (dslr AND 0xFFFF) / dlsr_div))))"

section \<open>The timestamp survives a round trip\<close>

lemma ntp_scale_bounds: "4294 < ntp_scale" "ntp_scale < 4295"
  using rnd_bounds [of "4294967296 / 1000000"] by (simp_all add: ntp_scale_def)

lemma ntp_epoch:
  assumes "0 \<le> s" "s + 2208988800 < 2 ^ 32"
  shows "ucast (ucast (ucast (word_of_int s :: u32) + (2208988800 :: u64)) :: u32) - 2208988800 = (word_of_int s :: u64)"
proof -
  have "ucast (word_of_int s :: u32) = (word_of_int s :: u64)"
    using assms by (simp add: unsigned_of_int take_bit_int_eq_self)
  moreover have "ucast (word_of_int k :: u64) = (word_of_int k :: u32)" for k by transfer simp
  from this [of "s + 2208988800"] have "ucast (word_of_int s + (2208988800 :: u64)) = (word_of_int (s + 2208988800) :: u32)"
    by simp
  moreover have "ucast (word_of_int (s + 2208988800) :: u32) = (word_of_int (s + 2208988800) :: u64)"
    using assms by (simp add: unsigned_of_int take_bit_int_eq_self del: of_int_add)
  ultimately show ?thesis by simp
qed

lemma ntp_fraction:
  assumes "0 \<le> r" "r < 1000000"
  obtains f where "0 \<le> f" "f < 2 ^ 32" "to_unsigned (rnd (of_int r * ntp_scale)) = (Inr (word_of_int f) :: u32 res)"
    "\<bar>rnd (of_int f / ntp_scale) - of_int r\<bar> < 1 / 2 ^ 12"
proof -
  define q where "q = (of_int r :: rat)"
  define f where "f = \<lfloor>rnd (q * ntp_scale)\<rfloor>"
  have "(of_int r :: rat) \<le> of_int 999999" "(of_int 0 :: rat) \<le> of_int r" using assms by (simp_all only: of_int_le_iff)
  then have q: "0 \<le> q" "q \<le> 999999" by (simp_all add: q_def)
  have c: "0 < ntp_scale" using ntp_scale_bounds by simp
  have "q * ntp_scale \<le> 999999 * ntp_scale" using q c by (intro mult_right_mono) auto
  also have "\<dots> \<le> 999999 * (4294967297 / 1000000)"
    using rnd_bounds [of "4294967296 / 1000000"] by (intro mult_left_mono) (simp_all add: ntp_scale_def)
  finally obtain u where "q * ntp_scale = u" "0 \<le> u" "u \<le> 4294963003" using q c by simp
  then have "0 \<le> rnd (q * ntp_scale)" "rnd (q * ntp_scale) < 4294967296"
    using rnd_bounds [of u] by simp_all
  then have f: "0 \<le> f" "f < 2 ^ 32" unfolding f_def by (simp_all add: floor_less_iff)
  have F: "of_int f \<le> rnd (q * ntp_scale)" "rnd (q * ntp_scale) < of_int f + 1" unfolding f_def by linarith+
  have b: "of_int f / ntp_scale \<le> q + q / 2 ^ 53" "q - q / 2 ^ 53 - 1 / ntp_scale < of_int f / ntp_scale"
    using scale_back [OF c q(1) F] .
  have "0 \<le> of_int f / ntp_scale" using f c by simp
  note r = rnd_bounds [OF this]
  have i: "1 / ntp_scale < 1 / 4294" using ntp_scale_bounds by (intro divide_strict_left_mono) auto
  have "\<bar>rnd (of_int f / ntp_scale) - q\<bar> < 1 / 2 ^ 12" unfolding abs_less_iff using b r i q by simp
  moreover have "to_unsigned (rnd (q * ntp_scale)) = (Inr (word_of_int f) :: u32 res)"
    using F f by (intro to_unsigned_floor) simp_all
  ultimately show ?thesis using that [of f] f unfolding q_def by blast
qed

lemma SetTimestamp_eq:
  assumes "0 < t" "t < 2085978496000000" "uint time = t"
  obtains f where "SetTimestamp p time = Inr (p\<lparr>sr_ntpSec := ucast (ucast (word_of_int (t div 1000000) :: u32) + (2208988800 :: u64)),
      sr_ntpFrac := word_of_int f\<rparr>)" "0 \<le> f" "f < 2 ^ 32"
    "\<bar>rnd (of_int f / ntp_scale) - of_int (t mod 1000000)\<bar> < 1 / 2 ^ 12"
proof -
  define s r where "s = t div 1000000" and "r = t mod 1000000"
  have s: "0 \<le> s" "s < 2085978496" and r: "0 \<le> r" "r < 1000000" and tsr: "t = s * 1000000 + r"
    using assms(1,2) unfolding s_def r_def by (simp_all add: div_int_pos_iff)
  have D: "to_double time = of_int t" unfolding to_double_def assms(3) using assms(1,2) by (intro rnd_of_int) auto
  have S: "to_unsigned (rnd (to_double time / 1000000)) = (Inr (word_of_int s) :: u32 res)"
    unfolding D s_def using to_unsigned_quotient [of t 1000000, where 'a = 32] assms(1,2) s by (simp add: s_def)
  have ds: "to_double (word_of_int s :: u32) = of_int s" using s by (intro to_double_of_int) simp_all
  have e: "rnd (of_int s * 1000000) = of_int (s * 1000000)" using rnd_of_int [of "s * 1000000"] s by simp
  have "(of_int t :: rat) - of_int (s * 1000000) = of_int r" by (simp add: tsr)
  then have R: "rnd (to_double time - rnd (to_double (word_of_int s :: u32) * 1000000)) = of_int r"
    unfolding D ds e using rnd_of_int [of r] r by simp
  obtain f where f: "0 \<le> f" "f < 2 ^ 32" "to_unsigned (rnd (of_int r * ntp_scale)) = (Inr (word_of_int f) :: u32 res)"
    "\<bar>rnd (of_int f / ntp_scale) - of_int r\<bar> < 1 / 2 ^ 12" using ntp_fraction [OF r] .
  show ?thesis
    using that [of f, folded s_def r_def] f unfolding SetTimestamp_def S bindr_Inr Let_def R f(3) by simp
qed

text \<open>
  C38. A time in microseconds, from February 1970 to the end of the NTP era in 2036, that is
  stored in a sender report is read back unchanged, although it is kept as a 32-bit fraction of a
  second and both conversions go through \<open>double\<close>.
\<close>

theorem ntp_timestamp_roundtrip:
  assumes "2 ^ 42 \<le> unat time" "unat time < 2085978496000000"
  shows "bindr (SetTimestamp p time) GetTimestamp = Inr time"
proof -
  define t where "t = uint time"
  have "4398046511104 \<le> unat time" using assms(1) by simp
  then have "int 4398046511104 \<le> int (unat time)" "int (unat time) < int 2085978496000000"
    using assms(2) by (simp_all only: of_nat_le_iff of_nat_less_iff)
  then have t: "4398046511104 \<le> t" "t < 2085978496000000" by (simp_all add: t_def)
  define s where "s = t div 1000000"
  have s: "0 \<le> s" "s < 2085978496" and tsr: "t = s * 1000000 + t mod 1000000"
    using t unfolding s_def by (simp_all add: div_int_pos_iff)
  obtain f where f: "SetTimestamp p time = Inr (p\<lparr>sr_ntpSec := ucast (ucast (word_of_int s :: u32) + (2208988800 :: u64)),
      sr_ntpFrac := word_of_int f\<rparr>)" "0 \<le> f" "f < 2 ^ 32"
    "\<bar>rnd (of_int f / ntp_scale) - of_int (t mod 1000000)\<bar> < 1 / 2 ^ 12"
    using SetTimestamp_eq [of t time p] t unfolding s_def t_def by auto
  have d: "to_double (word_of_int s :: u64) = of_int s" "to_double (word_of_int f :: u32) = of_int f"
    "to_double (word_of_int (s * 1000000) :: u64) = of_int (s * 1000000)"
    using s f by (intro to_double_of_int; simp)+
  have M: "to_unsigned (rnd (of_int s * 1000000)) = (Inr (word_of_int (s * 1000000)) :: u64 res)"
    using rnd_of_int [of "s * 1000000"] to_unsigned_of_int [of "s * 1000000", where 'a = 64] s by simp
  define x where "x = of_int (s * 1000000) + rnd (of_int f / ntp_scale)"
  have "x - of_int t = rnd (of_int f / ntp_scale) - of_int (t mod 1000000)" unfolding x_def by (subst tsr) simp
  then have n: "\<bar>x - of_int t\<bar> < 1 / 2 ^ 12" using f(4) by simp
  have "(of_int 4398046511104 :: rat) \<le> of_int t" "(of_int t :: rat) < of_int 2085978496000000"
    using t by (simp_all only: of_int_le_iff of_int_less_iff)
  moreover have "\<bar>x - of_int t\<bar> < 1" using n by (rule less_trans) simp
  ultimately have "2199023255552 \<le> x" "x < 9007199254740992" unfolding of_int_numeral by linarith+
  then have "rnd x = of_int t" using n by (intro rnd_near) simp_all
  then have T: "to_unsigned (rnd x) = Inr time" using to_unsigned_of_int [of t, where 'a = 64] t by (simp add: t_def)
  have w: "ucast (ucast (ucast (word_of_int s :: u32) + (2208988800 :: u64)) :: u32) - 2208988800 = (word_of_int s :: u64)"
    using ntp_epoch [of s] s by simp
  show ?thesis by (simp add: f(1) GetTimestamp_def w d M x_def [symmetric] T del: of_int_mult)
qed

theorem ntp_timestamp_roundtrip_witness:
  "bindr (SetTimestamp \<lparr>sr_ssrc = 1, sr_ntpSec = 0, sr_ntpFrac = 0, sr_rtpTimestamp = 0, sr_packetsSent = 0,
     sr_octectsSent = 0, sr_reports = []\<rparr> 1587000000123457) GetTimestamp = Inr 1587000000123457"
  using ntp_timestamp_roundtrip [of 1587000000123457] by simp

section \<open>The delay does not\<close>

text \<open>
  The setter multiplies by \<open>65.535\<close> and the getter divides by \<open>65.635\<close>: the part below a second
  comes back one or two milliseconds short.
\<close>

lemma delay_scale_bounds:
  "65534999 / 1000000 < dlsr_mul" "dlsr_mul < 65535001 / 1000000"
  "65634999 / 1000000 < dlsr_div" "dlsr_div < 65635001 / 1000000"
  using rnd_bounds [of "65535 / 1000"] rnd_bounds [of "65635 / 1000"] by (simp_all add: dlsr_mul_def dlsr_div_def)

lemma delay_quotient:
  assumes "0 \<le> q" "q \<le> 999" "0 \<le> f" "f \<le> rnd (q * dlsr_mul)" "rnd (q * dlsr_mul) < f + 1"
  shows "0 \<le> rnd (f / dlsr_div)"
    and "1 \<le> q \<Longrightarrow> q - 199 / 100 < rnd (f / dlsr_div) \<and> rnd (f / dlsr_div) < q - 1 / 1000"
proof -
  note B = delay_scale_bounds
  have c: "0 < dlsr_mul" and d: "0 < dlsr_div" using B by simp_all
  define g where "g = f / dlsr_mul"
  have "1 / dlsr_mul < 1 / 65" using B by (intro divide_strict_left_mono) auto
  then have g: "g \<le> q + q / 2 ^ 53" "q - q / 2 ^ 53 - 1 / 65 < g"
    using scale_back [OF c assms(1,4,5)] unfolding g_def by linarith+
  have g0: "0 \<le> g" using assms(3) c by (simp add: g_def)
  obtain k where k: "f / dlsr_div = g * k" "9984 / 10000 < k" "k < 9985 / 10000"
    using B c d by (intro that [of "dlsr_mul / dlsr_div"]) (simp_all add: g_def field_simps)
  have h: "f / dlsr_div \<le> g * (9985 / 10000)" "g * (9984 / 10000) \<le> f / dlsr_div"
    unfolding k(1) using mult_left_mono [OF less_imp_le [OF k(3)] g0] mult_left_mono [OF less_imp_le [OF k(2)] g0] .
  then have h0: "0 \<le> f / dlsr_div" using g0 by simp
  note R = rnd_bounds [OF h0]
  show "0 \<le> rnd (f / dlsr_div)" using R(1) h0 by simp
  show "q - 199 / 100 < rnd (f / dlsr_div) \<and> rnd (f / dlsr_div) < q - 1 / 1000" if "1 \<le> q"
  proof (rule conjI)
    show "q - 199 / 100 < rnd (f / dlsr_div)" using R h g assms(2) that by simp
    show "rnd (f / dlsr_div) < q - 1 / 1000" using R h g assms(2) that by simp
  qed
qed

lemma delay_fraction:
  assumes "0 \<le> r" "r < 1000"
  obtains f where "0 \<le> f" "f < 2 ^ 16" "to_unsigned (rnd (of_int r * dlsr_mul)) = (Inr (word_of_int f) :: u32 res)"
    "0 \<le> rnd (of_int f / dlsr_div)"
    "0 < r \<Longrightarrow> of_int r - 199 / 100 < rnd (of_int f / dlsr_div) \<and> rnd (of_int f / dlsr_div) < of_int r - 1 / 1000"
    "r = 0 \<Longrightarrow> f = 0"
proof -
  define q where "q = (of_int r :: rat)"
  define f where "f = \<lfloor>rnd (q * dlsr_mul)\<rfloor>"
  have "(of_int r :: rat) \<le> of_int 999" "(of_int 0 :: rat) \<le> of_int r" using assms by (simp_all only: of_int_le_iff)
  then have q: "0 \<le> q" "q \<le> 999" by (simp_all add: q_def)
  have "q * dlsr_mul \<le> 999 * (65535001 / 1000000)" using q delay_scale_bounds by (intro mult_mono) auto
  then obtain u where "q * dlsr_mul = u" "0 \<le> u" "u \<le> 65470" using q delay_scale_bounds by simp
  then have "0 \<le> rnd (q * dlsr_mul)" "rnd (q * dlsr_mul) < 65536" using rnd_bounds [of u] by simp_all
  then have f: "0 \<le> f" "f < 2 ^ 16" unfolding f_def by (simp_all add: floor_less_iff)
  then have f0: "0 \<le> (of_int f :: rat)" by simp
  have F: "of_int f \<le> rnd (q * dlsr_mul)" "rnd (q * dlsr_mul) < of_int f + 1" unfolding f_def by linarith+
  note Q = delay_quotient [OF q f0 F]
  show ?thesis
  proof (rule that [of f])
    show "to_unsigned (rnd (of_int r * dlsr_mul)) = (Inr (word_of_int f) :: u32 res)"
      using F f unfolding q_def by (intro to_unsigned_floor) auto
    show "of_int r - 199 / 100 < rnd (of_int f / dlsr_div) \<and> rnd (of_int f / dlsr_div) < of_int r - 1 / 1000" if "0 < r"
      using Q(2) that unfolding q_def by simp
    show "f = 0" if "r = 0" using that by (simp add: f_def q_def)
  qed (use f Q(1) in auto)
qed

lemma take_bit_16_id:
  assumes "0 \<le> n" "n < 2 ^ 16"
  shows "take_bit 16 (word_of_int n :: u32) = word_of_int n"
proof -
  have "take_bit 16 n = n" using assms by (simp add: take_bit_int_eq_self)
  then show ?thesis by (metis take_bit_of_int)
qed

lemma delay_halves:
  assumes "0 \<le> s" "s < 2 ^ 16" "0 \<le> f" "f < 2 ^ 16"
  shows "drop_bit 16 (push_bit 16 (word_of_int s) OR word_of_int f) = (word_of_int s :: u32)"
    "(push_bit 16 (word_of_int s) OR word_of_int f) AND 0xFFFF = (word_of_int f :: u32)"
proof -
  define a b where "a = (word_of_int s :: u32)" and "b = (word_of_int f :: u32)"
  have t: "take_bit 16 a = a" "take_bit 16 b = b" using take_bit_16_id assms by (simp_all add: a_def b_def)
  have "drop_bit 16 (push_bit 16 (take_bit 16 a) OR take_bit 16 b) = take_bit 16 a"
    by (rule bit_word_eqI) (auto simp: bit_simps)
  then show "drop_bit 16 (push_bit 16 (word_of_int s) OR word_of_int f) = (word_of_int s :: u32)"
    unfolding t unfolding a_def b_def .
  have "0xFFFF = (mask 16 :: u32)" by (simp add: mask_eq_exp_minus_1)
  moreover have "take_bit 16 (push_bit 16 a OR b) = b" by (simp add: take_bit_push_bit t)
  ultimately show "(push_bit 16 (word_of_int s) OR word_of_int f) AND 0xFFFF = (word_of_int f :: u32)"
    by (simp only: take_bit_eq_mask a_def b_def)
qed

lemma set_delay_read:
  assumes "block_ok b"
  shows "bindr (SetDelaySinceLastSR b v) GetDelaySinceLastSR = Inr v"
  using set_word [of 20 b v] assms by (auto simp: SetDelaySinceLastSR_def GetDelaySinceLastSR_def block_ok_def)

lemma delay_parts:
  assumes "unat ms < 65536000" "m = uint ms"
  shows "ms mod 1000 = (word_of_int (m mod 1000) :: u32)" "ms div 1000 = (word_of_int (m div 1000) :: u32)"
    "0 \<le> m div 1000" "m div 1000 < 2 ^ 16" "0 \<le> m"
proof -
  have "int (unat ms) < int 65536000" using assms(1) by (simp only: of_nat_less_iff)
  then have m: "m < 65536000" "0 \<le> m" by (simp_all add: assms(2))
  show "ms mod 1000 = (word_of_int (m mod 1000) :: u32)" "ms div 1000 = (word_of_int (m div 1000) :: u32)"
    unfolding assms(2) by (simp_all add: word_mod_def word_div_def)
  show "0 \<le> m div 1000" "m div 1000 < 2 ^ 16" "0 \<le> m" using m by (simp_all add: div_int_pos_iff)
qed

lemma delay_sum:
  assumes "0 \<le> m" "m < 65536000" "0 \<le> x" "of_int m - 199 / 100 < x" "x < of_int m - 1 / 1000"
  shows "\<exists>d :: u32. to_unsigned (rnd x) = Inr d \<and> (d + 1 = word_of_int m \<or> d + 2 = word_of_int m)"
proof -
  have "(of_int m :: rat) < of_int 65536000" using assms(2) by (simp only: of_int_less_iff)
  then have "x < 65536000" using assms(5) by simp
  then have hi: "rnd x < of_int m" using rnd_bounds(2) [OF assms(3)] assms(5) by simp
  have lo: "of_int (m - 2) \<le> rnd x"
    using rnd_ge_int [of "m - 2" x] assms(3,4) \<open>x < 65536000\<close> by (cases "x = 0") simp_all
  have nn: "0 \<le> rnd x" using rnd_bounds(1) [OF assms(3)] assms(3) by simp
  define n where "n = \<lfloor>rnd x\<rfloor>"
  have n: "of_int n \<le> rnd x" "rnd x < of_int n + 1" unfolding n_def by linarith+
  have "0 \<le> n" "m - 2 \<le> n" "n < m" using lo nn hi unfolding n_def by (simp_all add: le_floor_iff floor_less_iff)
  then have "n + 1 = m \<or> n + 2 = m" by linarith
  then have "(word_of_int n :: u32) + 1 = word_of_int m \<or> (word_of_int n :: u32) + 2 = word_of_int m" by auto
  moreover have "to_unsigned (rnd x) = (Inr (word_of_int n) :: u32 res)"
    using n \<open>0 \<le> n\<close> \<open>n < m\<close> assms(2) by (intro to_unsigned_floor) auto
  ultimately show ?thesis by blast
qed

lemma delay_run:
  assumes "block_ok b" "unat ms < 65536000" "m = uint ms"
  obtains z where "bindr (SetDelaySinceLastSRMS b ms) GetDelaySinceLastSRMS = to_unsigned (rnd (of_int (m div 1000 * 1000) + z))"
    "0 \<le> z" "0 < m mod 1000 \<Longrightarrow> of_int (m mod 1000) - 199 / 100 < z \<and> z < of_int (m mod 1000) - 1 / 1000"
    "m mod 1000 = 0 \<Longrightarrow> z = 0"
proof -
  note P = delay_parts [OF assms(2,3)]
  obtain f where f: "0 \<le> f" "f < 2 ^ 16"
    "to_unsigned (rnd (of_int (m mod 1000) * dlsr_mul)) = (Inr (word_of_int f) :: u32 res)"
    "0 \<le> rnd (of_int f / dlsr_div)"
    "0 < m mod 1000 \<Longrightarrow> of_int (m mod 1000) - 199 / 100 < rnd (of_int f / dlsr_div) \<and>
       rnd (of_int f / dlsr_div) < of_int (m mod 1000) - 1 / 1000"
    "m mod 1000 = 0 \<Longrightarrow> f = 0"
    using delay_fraction [of "m mod 1000"] by auto
  have d: "to_double (word_of_int (m mod 1000) :: u32) = of_int (m mod 1000)" "to_double (word_of_int f :: u32) = of_int f"
    "to_double (word_of_int (m div 1000 * 1000) :: u32) = of_int (m div 1000 * 1000)"
    using P f(1,2) by (intro to_double_of_int; simp)+
  have k: "(word_of_int (m div 1000) :: u32) * 1000 = word_of_int (m div 1000 * 1000)" by simp
  have "bindr (SetDelaySinceLastSRMS b ms) GetDelaySinceLastSRMS =
      to_unsigned (rnd (of_int (m div 1000 * 1000) + rnd (of_int f / dlsr_div)))"
    using set_delay_read [OF assms(1), of "push_bit 16 (word_of_int (m div 1000)) OR word_of_int f"] P(3,4) f(1,2)
    by (auto simp: SetDelaySinceLastSRMS_def GetDelaySinceLastSRMS_def P(1,2) d f(3) delay_halves k bindr_eq_Inr
        simp del: of_int_mult drop_bit_or)
  then show ?thesis using f(4-6) by (intro that [of "rnd (of_int f / dlsr_div)"]) simp_all
qed

text \<open>
  C39. A delay in milliseconds, below 65536 seconds, that is stored in a report block and read back: a whole number of
  seconds survives, any other comes back one or two milliseconds short (the getter divides by
  \<open>65.635\<close> where the setter multiplied by \<open>65.535\<close>). Neither conversion is undefined.
\<close>

theorem delay_roundtrip:
  assumes "block_ok b" "unat ms < 65536000"
  shows "\<exists>d. bindr (SetDelaySinceLastSRMS b ms) GetDelaySinceLastSRMS = Inr d \<and>
    (if ms mod 1000 = 0 then d = ms else d + 1 = ms \<or> d + 2 = ms)"
proof -
  define m where "m = uint ms"
  note P = delay_parts [OF assms(2) m_def]
  obtain z where z: "bindr (SetDelaySinceLastSRMS b ms) GetDelaySinceLastSRMS = to_unsigned (rnd (of_int (m div 1000 * 1000) + z))"
    "0 \<le> z" "0 < m mod 1000 \<Longrightarrow> of_int (m mod 1000) - 199 / 100 < z \<and> z < of_int (m mod 1000) - 1 / 1000"
    "m mod 1000 = 0 \<Longrightarrow> z = 0" using delay_run [OF assms m_def] by auto
  define x where "x = of_int (m div 1000 * 1000) + z"
  have w: "word_of_int m = ms" by (simp add: m_def)
  have sum: "of_int m = of_int (m div 1000 * 1000) + (of_int (m mod 1000) :: rat)"
    by (simp only: of_int_add [symmetric] div_mult_mod_eq)
  have m: "m < 65536000" using P(4) by simp
  show ?thesis
  proof (cases "m mod 1000 = 0")
    case True
    then have "rnd x = of_int m" using z(4) rnd_of_int [OF P(5)] m by (simp add: x_def sum)
    then have "to_unsigned (rnd x) = Inr ms" using to_unsigned_of_int [OF P(5), where 'a = 32] m by (simp add: w)
    then show ?thesis unfolding z(1) x_def using True P(1) by simp
  next
    case False
    then have r: "0 < m mod 1000" using pos_mod_sign [of 1000 m] by linarith
    have nn: "0 \<le> x" using P(3) z(2) unfolding x_def by (intro add_nonneg_nonneg) simp_all
    have "of_int m - 199 / 100 < x" "x < of_int m - 1 / 1000" using z(3) [OF r] unfolding sum x_def by simp_all
    from delay_sum [OF P(5) m nn this] obtain d :: u32 where "to_unsigned (rnd x) = Inr d" "d + 1 = ms \<or> d + 2 = ms"
      unfolding w by blast
    moreover have "uint (ms mod 1000) = m mod 1000" by (simp add: uint_mod_distrib m_def)
    then have "ms mod 1000 \<noteq> 0" using False by (metis unsigned_0)
    ultimately show ?thesis unfolding z(1) x_def by simp
  qed
qed

theorem delay_roundtrip_witness:
  "\<exists>d. bindr (SetDelaySinceLastSRMS RTCPReceiverReportBlock_new 1999) GetDelaySinceLastSRMS = Inr d \<and> d \<noteq> 1999"
  using delay_roundtrip [OF block_ok_new, of 1999] by auto

end
