(* ===== verification/Spadia_Timers.thy ===== *)
theory Spadia_Timers
  imports Spadia_System
begin

text \<open>
  How long the ICE timers live (\<open>Start\<close>, \<open>ontimer\<close> and the destructor in \<open>peerconnection.cpp\<close>).
  A timer that has been started stays armed: no operation of the program stops or closes it.
  While the connection exists an expiry is harmless; after its destruction every expiry reads
  a member of an object that is gone, and no later step of the system changes that.
\<close>

unbundle bit_operations_syntax

section \<open>Armed timers and destroyed connections\<close>

text \<open>Every operation keeps timers armed, and does not bring back the owner of an armed timer.\<close>

definition timers_kept :: "world \<Rightarrow> world \<Rightarrow> bool" where
  "timers_kept w w' \<longleftrightarrow> w_timers w \<subseteq> w_timers w' \<and> (\<forall>x \<in> w_timers w. w_pcs w x = None \<longrightarrow> w_pcs w' x = None)"

named_theorems timers \<open>operations under which timers stay armed\<close>

lemma timers_kept_refl [timers]: "timers_kept w w"
  by (simp add: timers_kept_def)

lemma timers_kept_trans: "timers_kept w w1 \<Longrightarrow> timers_kept w1 w2 \<Longrightarrow> timers_kept w w2"
  by (auto simp: timers_kept_def)

lemma timers_keptI: "w_timers w' = w_timers w \<Longrightarrow> w_pcs w' = w_pcs w \<Longrightarrow> timers_kept w w'"
  by (simp add: timers_kept_def)

lemma timers_upd [timers]: "timers_kept w (upd_pc pc f w)"
  by (simp add: timers_kept_def w_pcs_upd_pc)

lemma timers_new [timers]: "fresh_pc w pc \<Longrightarrow> timers_kept w (PeerConnection_new pc u1 u2 u3 w)"
  by (auto simp: timers_kept_def fresh_pc_def PeerConnection_new_def Let_def case_prod_beta)

lemma timers_AddStream: "AddStream pc sid w = Inr w' \<Longrightarrow> timers_kept w w'"
  by (auto simp: AddStream_def bindr_eq_Inr Let_def timers_kept_def w_pcs_upd_pc)

lemma timers_Start: "Start pc w = Inr w' \<Longrightarrow> timers_kept w w'"
  by (auto simp: Start_def bindr_eq_Inr intro!: timers_keptI)

lemma timers_server: "timers_kept w (w\<lparr>w_server := s\<rparr>)"
  by (rule timers_keptI) simp_all

lemma timers_CreateAnswer:
  assumes "CreateAnswer lib (\<lambda>rs w. Inr w) now u1 u2 sid pc offer w = Inr (w', answer)"
  shows "timers_kept w w'"
proof -
  let ?w = "upd_pc pc (\<lambda>self. self\<lparr>pc_sessionManager := Some (RTPSessionManager_new now)\<rparr>) w"
  obtain self msid ms w1 as s where
    r: "w_pcs w pc = Some self" "answer_medias lib pc sid msid u2 ms ?w = Inr (w1, as)" "w' = w1\<lparr>w_server := s\<rparr>"
    using assms by (auto simp: CreateAnswer_def Let_def bindr_eq_Inr split: option.splits if_splits)
  have "w_pcs ?w pc = Some (self\<lparr>pc_sessionManager := Some (RTPSessionManager_new now)\<rparr>)" using r(1) by (simp add: w_pcs_upd_pc)
  from answer_medias_eq [OF r(2) this] have f: "answer_frame pc ?w w1" by simp
  have "w_pcs w1 x = None" if "w_pcs ?w x = None" for x
    using f that by (cases "x = pc") (auto simp: answer_frame_def)
  then have "timers_kept ?w w1" using f by (simp add: timers_kept_def answer_frame_def)
  then have "timers_kept w w1" by (rule timers_kept_trans [OF timers_upd])
  then show ?thesis using timers_kept_trans timers_server r(3) by blast
qed

lemma timers_delete: "PeerConnection_delete pc w = Inr w' \<Longrightarrow> timers_kept w w' \<and> w_pcs w' pc = None \<and> w_timers w' = w_timers w"
  by (auto simp: PeerConnection_delete_def bindr_eq_Inr timers_kept_def split: option.splits)

lemma timers_malloc: "timers_kept w (fst (malloc w))"
  by (rule timers_keptI) (simp_all add: malloc_def)

lemma timers_free: "free b w = Inr w' \<Longrightarrow> timers_kept w w'"
  by (auto simp: free_def split: if_splits intro: timers_keptI)

lemma timers_send_u: "send_u k w = Inr w' \<Longrightarrow> timers_kept w w'"
  by (auto simp: send_u_def free_def Let_def split: if_splits intro: timers_keptI)

lemma timers_uv_udp_send: "timers_kept w (uv_udp_send pc b bs dest w)"
  by (rule timers_keptI) (simp_all add: uv_udp_send_def Let_def)

lemma timers_sendData: "sendData pc b data sz w = Inr w' \<Longrightarrow> timers_kept w w'"
  by (auto simp: sendData_def bindr_eq_Inr intro: timers_uv_udp_send)

lemma timers_ontimer: "ontimer now pc w = Inr (w', late) \<Longrightarrow> timers_kept w w'"
  by (auto simp: ontimer_def OnIceTimer_def bindr_eq_Inr split: if_splits option.splits intro: timers)

lemma timers_run_task: "run_task t w = Inr w' \<Longrightarrow> timers_kept w w'"
proof (cases t)
  case (TaskStart pc)
  then show "run_task t w = Inr w' \<Longrightarrow> timers_kept w w'" by (auto simp: bindr_eq_Inr timers_kept_def w_pcs_upd_pc)
qed (simp add: timers_sendData)

lemma timers_loop_run:
  assumes "loop_run l k w = Inr w'"
  shows "timers_kept w w'"
proof (cases "async_cb (w_pool w) l k")
  case (Some tp)
  then obtain t pool where "run_task t (w\<lparr>w_pool := pool\<rparr>) = Inr w'" using assms by (cases tp) (simp add: loop_run_def)
  then have "timers_kept (w\<lparr>w_pool := pool\<rparr>) w'" by (rule timers_run_task)
  then show ?thesis by (simp add: timers_kept_def)
qed (use assms in \<open>simp add: loop_run_def timers_kept_refl\<close>)

section \<open>Receiving\<close>

lemma timers_OnMediaData: "OnMediaData pc bp w = Inr w' \<Longrightarrow> timers_kept w w'"
  by (auto simp: OnMediaData_def bindr_eq_Inr intro!: timers_keptI)

lemma timers_OnRTP: "OnRTP_loop sink_alive OnMediaData bp ss w = Inr w' \<Longrightarrow> timers_kept w w'"
proof (induction ss arbitrary: w)
  case (Cons e ss)
  obtain n s where e: "e = (n, s)" by (cases e)
  from Cons.prems obtain w1 where "(if sink_alive w s then OnMediaData s bp w else Inr w) = Inr w1"
      "OnRTP_loop sink_alive OnMediaData bp ss w1 = Inr w'" by (auto simp: e bindr_eq_Inr)
  then show ?case
    using timers_OnMediaData [of s bp w w1] Cons.IH [of w1] timers_kept_trans [of w w1 w'] by (auto split: if_splits)
qed (simp add: timers_kept_refl)

lemma timers_handle_RTP:
  assumes "handleIncomingRTPData env pc b data sz w = Inr w'"
  shows "timers_kept w w'"
proof -
  obtain self p sm rs where h: "w_pcs w pc = Some self" "pc_sessionManager self = Some sm" "pc_remoteStream self = Some rs"
      "RTPPacket_Parse (RTPPacket_new (env_rtp0 env) (env_now_ms env)) data sz = Inr p"
    using assms by (auto simp: handleIncomingRTPData_def bindr_eq_Inr split: option.splits)
  obtain packet ok where p: "p = (packet, ok)" by (cases p)
  from assms h p obtain feedback w1 stream where r:
      "(case feedback of None \<Rightarrow> Inr w | Some (fb, n) \<Rightarrow> let (w, fb_block) = malloc w in sendData pc fb_block fb n w) = Inr w1"
      "MediaStream_OnRTP sink_alive OnMediaData stream (b, packet) w1 = Inr w'"
    unfolding handleIncomingRTPData_def by (simp add: bindr_eq_Inr) blast
  have "timers_kept w w1"
    using r(1) timers_kept_trans [OF timers_malloc]
    by (auto simp: Let_def case_prod_beta timers_kept_refl split: option.splits dest!: timers_sendData)
  then show ?thesis using timers_OnRTP [OF r(2) [unfolded MediaStream_OnRTP_def]] by (rule timers_kept_trans)
qed

lemma timers_handle_RTCP: "handleIncomingRTCPData env pc data sz w = Inr w' \<Longrightarrow> timers_kept w w'"
  by (auto simp: handleIncomingRTCPData_def bindr_eq_Inr split: if_splits option.splits intro: timers)

lemma timers_OnSocketData:
  assumes "OnSocketData env pc b data sz rmt w = Inr w'"
  shows "timers_kept w w'"
proof -
  let ?w = "note_remote env pc rmt w"
  have n: "timers_kept w ?w" by (simp add: note_remote_def timers_upd)
  obtain stun where stun: "IsStun data sz = Inr stun" using assms by (auto simp: OnSocketData_def bindr_eq_Inr Let_def)
  have "timers_kept ?w w'"
  proof (cases stun)
    case True
    then obtain bs dest where "w' = uv_udp_send pc (snd (malloc ?w)) bs dest (fst (malloc ?w))"
      using assms stun by (auto simp: OnSocketData_def bindr_eq_Inr Let_def note_remote_def case_prod_beta split: option.splits)
    then show ?thesis using timers_kept_trans timers_malloc timers_uv_udp_send by blast
  next
    case False
    then have "handleIncomingRTCPData env pc data sz ?w = Inr w' \<or> handleIncomingRTPData env pc b data sz ?w = Inr w'"
      using assms stun by (auto simp: OnSocketData_def bindr_eq_Inr Let_def note_remote_def split: if_splits)
    then show ?thesis using timers_handle_RTCP timers_handle_RTP by blast
  qed
  then show ?thesis by (rule timers_kept_trans [OF n])
qed

lemma timers_read_u:
  assumes "read_u env pc nread b buf addr w = Inr w'"
  shows "timers_kept w w'"
proof -
  obtain w1 where w1: "(if 0 < nread \<and> w_pcs w pc \<noteq> None
      then case addr of None \<Rightarrow> Inl NullDeref | Some rmt \<Rightarrow> OnSocketData env pc b buf nread rmt w else Inr w) = Inr w1"
      "(if nread = 0 \<and> addr = None then free b w1 else Inr w1) = Inr w'"
    using assms by (auto simp: read_u_def bindr_eq_Inr)
  have "timers_kept w w1"
    using w1(1) by (auto split: if_splits option.splits intro: timers_OnSocketData timers)
  moreover have "timers_kept w1 w'" using w1(2) by (auto split: if_splits intro: timers_free timers)
  ultimately show ?thesis by (rule timers_kept_trans)
qed

section \<open>The system\<close>

lemma timers_step:
  assumes "sys_step lib w w'"
  shows "timers_kept w w'"
  using assms
proof (cases rule: sys_step.cases)
  case (s_recv w0 b nread buf env pc addr)
  then have "timers_kept w w0" using timers_malloc [of w] by simp
  then show ?thesis using timers_kept_trans timers_read_u s_recv by blast
qed (auto simp: AddRemoteStreamListener_def CreateOffer_def SetRemoteSdp_def Destroy_def bindr_eq_Inr
    intro: timers timers_AddStream timers_Start timers_CreateAnswer timers_server timers_send_u timers_ontimer
      timers_loop_run timers_keptI dest: timers_delete)

interpretation timer: invariant_system "\<lambda>s. s = w" "sys_step lib" "timers_kept w" for lib :: "'j json_lib" and w
  by unfold_locales (auto intro: timers_kept_refl timers_kept_trans dest: timers_step)

text \<open>
  C22. The ICE timer outlives its connection: once the function that \<open>Start\<close> posts has run, an
  expiry of the timer returns as long as the connection exists, in every interleaving of the
  operations; after the destructor has run, whatever happens next, the timer is still armed and
  every expiry accesses the destroyed connection.
\<close>

theorem ice_timer_outlives_connection:
  assumes "run_task (TaskStart pc) w = Inr w1" and "reachable (\<lambda>s. s = w1) (sys_step lib) w2"
    and "PeerConnection_delete pc w2 = Inr w3" and "reachable (\<lambda>s. s = w3) (sys_step lib) w4"
  shows "(\<exists>r. ontimer now pc w2 = Inr r) \<and> pc \<in> w_timers w4 \<and> ontimer now pc w4 = Inl UseAfterFree"
proof -
  have "pc \<in> w_timers w1" using assms(1) by (auto simp: bindr_eq_Inr)
  moreover have "timers_kept w1 w2" using assms(2) by (rule timer.reachable_inv)
  moreover note timers_delete [OF assms(3)]
  ultimately have armed: "pc \<in> w_timers w3" "w_pcs w3 pc = None" by (auto simp: timers_kept_def)
  have "timers_kept w3 w4" using assms(4) by (rule timer.reachable_inv)
  then have "pc \<in> w_timers w4" "w_pcs w4 pc = None" using armed by (auto simp: timers_kept_def)
  moreover obtain self where "w_pcs w2 pc = Some self" using assms(3) by (auto simp: PeerConnection_delete_def bindr_eq_Inr)
  ultimately show ?thesis by (simp add: ontimer_def OnIceTimer_def del: split_paired_Ex)
qed

theorem ice_timer_outlives_connection_witness:
  "\<exists>w1 w2. run_task (TaskStart 1) sample_world = Inr w1 \<and> unreferenced w1 1 \<and>
     PeerConnection_delete 1 w1 = Inr w2 \<and> ontimer 2500 1 w2 = Inl UseAfterFree"
proof -
  obtain w1 where w1: "run_task (TaskStart 1) sample_world = Inr w1" "unreferenced w1 1"
      "w_pcs w1 1 = Some ((sample_pc ''p'')\<lparr>pc_started := True\<rparr>)"
    by (simp add: unreferenced_def sample_facts [simplified] w_pcs_upd_pc) (simp add: sample_world_def Server_new_def)
  then obtain w2 where w2: "PeerConnection_delete 1 w1 = Inr w2"
    by (simp add: PeerConnection_delete_def sample_pc_def)
  have here: "reachable (\<lambda>s. s = v) (sys_step sample_lib) v" for v by (rule reach_init) simp
  show ?thesis using ice_timer_outlives_connection [OF w1(1) here w2 here] w1 w2 by blast
qed

end
