(* ===== verification/Spec2Isabelle.thy ===== *)
theory Spec2Isabelle
  imports Http_Front Rtcp_Time Spadia_Timers
begin

text \<open>
  \<^bold>\<open>spadia\<close> is a WebRTC peer connection in C++: a browser publishes media to it over HTTP signalling
  (\<open>/post\<close>), other browsers play it (\<open>/play\<close>), and the program is to forward the RTP packets of the
  publisher to the players. This development models the program function by function and proves
  what the parts promise, what the whole does, and where it goes wrong.

  \<^bold>\<open>The parts and how they interact.\<close> A datagram arrives at the socket of a peer connection
  (\<open>read_u\<close>, \<open>OnSocketData\<close> in \<open>peerconnection.cpp\<close>). STUN is answered at once; RTCP is taken apart
  and shown to the session manager; RTP is parsed, shown to the session manager, which answers a
  packet that carries a transport-wide number with an RTCP feedback packet, and given to the
  connection's remote media stream, which offers it to every sink. A sink is another peer
  connection; it posts a function to its event loop, which sends the datagram on. A connection gets
  its streams, credentials and entry in the server's table when it creates an SDP answer.

  \<^bold>\<open>Theories\<close> (source files are under \<open>src/\<close>):
  \<^item> \<open>Spadia_Prelude\<close>: machine types, the fault monad, buffers, \<open>std::map\<close>, reachability with the
    invariant rule (locale \<open>invariant_system\<close>), the contract of tables (locale \<open>keyed_table\<close>).
  \<^item> \<open>Byte_IO\<close> (\<open>byte_io.h\<close>): every reader and writer template; the unrolled specialisations equal the
    loops, reading undoes writing (locale \<open>field_codec\<close>, interpreted at the four widths).
  \<^item> \<open>Tools\<close>, \<open>Clock\<close>, \<open>Double_Arith\<close> (\<open>tools.h\<close>, \<open>tools.cpp\<close>): alignment, ports, identifiers; the
    clocks, which convert through \<open>double\<close>, are exact on stated ranges.
  \<^item> \<open>Crc32\<close> (\<open>crc32.h\<close>): the table-driven checksum equals the bitwise one and detects bursts.
  \<^item> \<open>Stun_Packet\<close> (\<open>stun_packet.h\<close>, \<open>.cpp\<close>): parsing, replies, serialisation.
  \<^item> \<open>Rtp_Packet\<close> (\<open>rtp_packet.h\<close>, \<open>.cpp\<close>): parsing with one-byte and two-byte extensions; no read
    leaves the datagram, an encoded packet is recovered.
  \<^item> \<open>Rtcp_Packet\<close>, \<open>Rtcp_Time\<close>, \<open>Transport_CC\<close>, \<open>Rtcp_Feedback\<close> (\<open>rtcp_packet.h\<close>, \<open>.cpp\<close>): reports, their
    times, transport-wide feedback, feedback packets and compound datagrams, with a locale
    \<open>rtcp_serializer\<close> for what the serialisers promise to the compound parser.
  \<^item> \<open>Lost_Session\<close> (\<open>RTPLostSession\<close> in \<open>rtp_session_manager.h\<close>, \<open>.cpp\<close>): the ring of 256 slots refines an
    abstract detector that keeps the set of missing numbers.
  \<^item> \<open>Session_Manager\<close> (the rest of \<open>rtp_session_manager.h\<close>, \<open>.cpp\<close>): extensions and feedback.
  \<^item> \<open>Media_Stream\<close> (\<open>media_stream.h\<close>, \<open>.cpp\<close>), \<open>Pool\<close> (\<open>pool.h\<close>, \<open>.cpp\<close>), \<open>Server\<close> (\<open>server.h\<close>, \<open>.cpp\<close>): sinks,
    event loops, the table of connections; sinks and table are interpretations of \<open>keyed_table\<close>.
  \<^item> \<open>Peer_Connection\<close> (\<open>peerconnection.h\<close>, \<open>.cpp\<close>): the shared state is the record \<open>world\<close> (objects,
    streams, pool, server, memory blocks, requests handed to libuv, armed timers); every method is an
    operation on it.
  \<^item> \<open>Sdp_Answer\<close> (\<open>CreateAnswer\<close> in \<open>peerconnection.cpp\<close>): the answer and its effect on the connection.
  \<^item> \<open>Spadia_System\<close>: the step relation \<open>sys_step\<close> of all operations in any interleaving, and the
    invariant of every reachable state.
  \<^item> \<open>Spadia_Memory\<close>: ownership of memory blocks in reachable states.
  \<^item> \<open>Spadia_Timers\<close>: the life of the ICE timers, armed by \<open>Start\<close> and never stopped.
  \<^item> \<open>Http_Front\<close> (\<open>example/main.cpp\<close>): the two HTTP handlers.
  \<^item> this theory: properties that span components.

  \<^bold>\<open>What is shown.\<close> End to end, in even windows of the clock (in the odd ones the handler overflows): a
  received packet is answered with feedback, and every live sink hands libuv one unchanged copy of
  it, under every schedule of the loops before a send completes; after \<open>/post\<close> and \<open>/play\<close>, once the
  player has sent a STUN message, the publisher's packets are handed to libuv for the player's address; after
  an answer the connection's own socket hands libuv a reply to every binding request, signed with
  the password in the answer, while the server's socket never delivers one: its replies have no
  destination, and its receiving is never started. Whether a datagram that libuv has been handed
  reaches anyone is outside the model. For the shared
  state: in every reachable state references are valid, and with one viewer per stream no block
  from \<open>malloc\<close> is used after its release or released twice. For the formats: encoders and parsers are inverse up to stated losses, parsers are
  memory safe exactly under stated conditions, and the walk over a compound datagram ends within a
  stated number of steps on any input. Where the code is wrong the theorem says what it does:
  double free and use after free with two viewers, a timer that outlives its connection, null dereference on malformed STUN and on early
  media, overflow in every other window of 6.2 days, a delay that comes back too short, and others.

  \<^bold>\<open>Conventions.\<close> A pointer is a buffer and an offset; an undefined operation (access out of bounds,
  null dereference, double free, use after free, signed overflow, shift too far, conversion out of
  range), a failed assertion and a thrown exception are faults, the left summand of \<open>'a res\<close>.
  Machine integers are words, \<open>int\<close> and \<open>ssize_t\<close> are \<open>int\<close> with the overflow written out where it can
  happen. A datagram is sent by handing a request to libuv, which may refuse it (\<open>w_accepts\<close>, which may
  change at any step); the program never looks. \<open>w_sent\<close> lists what was handed over, \<open>w_inflight\<close> what was
  accepted and has not completed; a request of a connection that has received nothing has no
  destination (\<open>lastRemote_\<close> is indeterminate). What comes from outside is an argument: time, fresh memory, indeterminate members, results
  of \<open>uuid\<close>, HMAC-SHA1 (any function with 20-byte results) and the JSON and SDP library (the record
  \<open>json_lib\<close>, instantiated with a concrete JSON type in witnesses). A function that ends without its
  \<open>return\<close> (\<open>OnRecvRTP\<close>, \<open>OnRecvRTCP\<close>, \<open>SetSeqCycle\<close>) is taken to return; its result is never used.

  \<^bold>\<open>Bounds.\<close> No definition uses fuel: every loop is a total recursive function with its termination
  proof. Sizes below \<open>2 ^ 31\<close> are those a datagram length as \<open>int\<close> can have. The bounds of the
  floating-point theorems (\<open>2 ^ 53\<close>, years 1970 to 2036) are where \<open>double\<close> is exact enough.

  \<^bold>\<open>Not modelled.\<close> \<open>client.cpp\<close> is commented out in full. \<open>PayloadFeedbackPacket\<close>, \<open>XRPacket\<close>, \<open>GetNacks\<close>,
  \<open>GetTotal\<close> and \<open>OnTimer\<close> of the incoming session are declared without a body;
  \<open>Dump\<close> and logging only print; the code after the first \<open>return\<close> of \<open>Active\<close> and of the server's
  constructor is unreachable; the timer of the incoming session is initialised and stopped but never
  started, so it never expires. libuv's loops and sockets, threads and data races are outside: the
  operations are taken as atomic, in any order; a completion depends on its request and block only,
  not on the socket inside the connection, which libuv would still refer to after the connection is
  destroyed.
\<close>

unbundle bit_operations_syntax

section \<open>Properties that span components\<close>

text \<open>
  C7. From the answer to the connectivity checks: when \<open>CreateAnswer\<close> has returned an answer for
  an offer, every section of the description it has written carries the connection's user name
  and password; and in the state it leaves, a binding request (a header, then any encoded
  attributes, whatever user name they name) that arrives at the connection's own socket makes it
  hand libuv exactly one datagram: the reply with the request's transaction id and an integrity
  code under that password, addressed to the sender. The hypotheses on the JSON library are
  those of C37 and that a member that has been set is found; the registered callback must leave
  the connection alone.
\<close>

theorem answered_password_signs_checks:
  assumes "json_laws lib" and "\<And>j k v j'. js_set lib j k v = Inr j' \<Longrightarrow> js_at lib j' k = Inr v"
    and "CreateAnswer lib callback now uuid1 uuid2 sid pc offer w = Inr (w', answer)" and "w_pcs w pc = Some self"
    and "js_parse lib offer = Inr offerJ" and "js_at lib offerJ ''media'' = Inr mediaJ" and "js_elems lib mediaJ = ms" and "ms \<noteq> []"
    and "\<And>rs v v'. callback rs v = Inr v' \<Longrightarrow> w_pcs v' pc = w_pcs v pc"
    and "length tid = 12" and "\<forall>(t, v) \<in> set attrs. length v < 65536"
    and "req = be_bytes 2 (1 :: u16) @ be_bytes 2 (len :: u16) @ MagicCookie @ tid @ concat (map enc_attr attrs)"
    and "length (env_stun_mem env) = MaxStunSize" and "\<And>k m. length (env_hmac env k m) = HMACSize"
  shows "(\<exists>j as. js_write lib j = Inr answer \<and> js_at lib j ''media'' = Inr (js_arr lib as) \<and> length as = length ms \<and>
      (\<forall>a \<in> set as. js_at lib a ''iceUfrag'' = Inr (js_str lib (pc_localUsername self)) \<and>
        js_at lib a ''icePwd'' = Inr (js_str lib (pc_localPassword self)))) \<and>
    (\<exists>w2. OnSocketData env pc b req (int (length req)) rmt w' = Inr w2 \<and>
      w_sent w2 = w_sent w' @ [\<lparr>req_pc = pc, req_block = w_next w', req_bytes = stun_message (env_hmac env)
        \<lparr>stun_username = last_username [] (reached_attrs attrs), stun_method = Binding, stun_type = Response, stun_transId = tid\<rparr>
        (pc_localPassword self), req_dest = Some rmt\<rparr>])"
proof
  obtain self' where s: "w_pcs w' pc = Some self'" "pc_localPassword self' = pc_localPassword self"
    using CreateAnswer_eq [OF assms(3-8)] assms(9) by blast
  let ?p = "\<lparr>stun_username = last_username [] (reached_attrs attrs), stun_method = 1, stun_type = 0, stun_transId = tid\<rparr>"
  have len: "length req = 20 + length (concat (map enc_attr attrs))" using assms(10) by (simp add: assms(12))
  have parse: "StunPacket_Parse req (int (length req)) = Inr (Some ?p)"
    using Parse_message [of MagicCookie tid attrs 1 len "[]"] assms(10,11) unfolding len by (simp add: assms(12))
  have stun: "IsStun req (int (length req)) = Inr True" by (simp add: IsStun_def eq8_def assms(12) be_bytes_unfold(2))
  have "MakeResponse ?p = \<lparr>stun_username = last_username [] (reached_attrs attrs), stun_method = Binding, stun_type = Response, stun_transId = tid\<rparr>"
    by (simp add: MakeResponse_def Binding_def)
  with stun_reply_sent [OF s(1) stun parse assms(13,14), of b rmt] s(2)
  show "\<exists>w2. OnSocketData env pc b req (int (length req)) rmt w' = Inr w2 \<and>
      w_sent w2 = w_sent w' @ [\<lparr>req_pc = pc, req_block = w_next w', req_bytes = stun_message (env_hmac env)
        \<lparr>stun_username = last_username [] (reached_attrs attrs), stun_method = Binding, stun_type = Response, stun_transId = tid\<rparr>
        (pc_localPassword self), req_dest = Some rmt\<rparr>]"
    by auto
qed (rule CreateAnswer_writes [OF assms(1-7)])

theorem answered_password_signs_checks_witness:
  "\<exists>w' a w2. CreateAnswer sample_lib (\<lambda>rs w. Inr w) 0 ''u'' ''v'' 6 1 ''o'' sample_world = Inr (w', a) \<and>
    OnSocketData sample_env 1 0 (be_bytes 2 (1 :: u16) @ be_bytes 2 (8 :: u16) @ MagicCookie @ replicate 12 5 @
      concat (map enc_attr [(Username, of_string ''ab:x'')])) 28 sample_addr w' = Inr w2 \<and>
    map req_dest (w_sent w2) = map req_dest (w_sent w') @ [Some sample_addr] \<and>
    (\<exists>j. json_at j ''icePwd'' = Inr (JStr ''pw''))"
proof -
  obtain w' a where r: "CreateAnswer sample_lib (\<lambda>rs w. Inr w) 0 ''u'' ''v'' 6 1 ''o'' sample_world = Inr (w', a)"
    using sample_answer by blast
  let ?attrs = "[(Username, of_string ''ab:x'')]"
  let ?req = "be_bytes 2 (1 :: u16) @ be_bytes 2 (8 :: u16) @ MagicCookie @ replicate 12 5 @ concat (map enc_attr ?attrs)"
  have len: "int (length ?req) = 28" by (simp add: length_enc_attr)
  have set: "js_at sample_lib j' k = Inr v" if "js_set sample_lib j k v = Inr j'" for j k v j'
    using that by (cases j) (auto simp: update_conv')
  have media: "js_parse sample_lib ''o'' = Inr (JObj [(''media'', JArr [sample_media])])"
      "js_at sample_lib (JObj [(''media'', JArr [sample_media])]) ''media'' = Inr (JArr [sample_media])"
      "js_elems sample_lib (JArr [sample_media]) = [sample_media]" "[sample_media] \<noteq> []"
    by simp_all
  have attrs: "\<forall>(t, v) \<in> set ?attrs. length v < 65536" by simp
  have e: "length (env_stun_mem sample_env) = MaxStunSize" "\<And>k m. length (env_hmac sample_env k m) = HMACSize"
    by (simp_all add: sample_env_def MaxStunSize_def HMACSize_def)
  have "(\<exists>j as. js_write sample_lib j = Inr a \<and> js_at sample_lib j ''media'' = Inr (js_arr sample_lib as) \<and> length as = length [sample_media] \<and>
      (\<forall>a \<in> set as. js_at sample_lib a ''iceUfrag'' = Inr (js_str sample_lib (pc_localUsername (sample_pc ''p''))) \<and>
        js_at sample_lib a ''icePwd'' = Inr (js_str sample_lib (pc_localPassword (sample_pc ''p''))))) \<and>
    (\<exists>w2. OnSocketData sample_env 1 0 ?req (int (length ?req)) sample_addr w' = Inr w2 \<and>
      w_sent w2 = w_sent w' @ [\<lparr>req_pc = 1, req_block = w_next w', req_bytes = stun_message (env_hmac sample_env)
        \<lparr>stun_username = last_username [] (reached_attrs ?attrs), stun_method = Binding, stun_type = Response, stun_transId = replicate 12 5\<rparr>
        (pc_localPassword (sample_pc ''p'')), req_dest = Some sample_addr\<rparr>])"
    by (rule answered_password_signs_checks [OF sample_lib_laws set r sample_facts(1) media _ length_replicate attrs refl e]) simp_all
  then obtain as w2 where c: "length as = 1" "\<forall>a \<in> set as. json_at a ''icePwd'' = Inr (JStr ''pw'')"
      "OnSocketData sample_env 1 0 ?req (int (length ?req)) sample_addr w' = Inr w2"
      "map req_dest (w_sent w2) = map req_dest (w_sent w') @ [Some sample_addr]"
    by (auto simp: sample_facts(4) simp del: length_append length_concat)
  then have "json_at (hd as) ''icePwd'' = Inr (JStr ''pw'')" by (cases as) auto
  then show ?thesis using r c(3,4) unfolding len by blast
qed

text \<open>A packet that is answered with feedback: what the handler leaves behind.\<close>

lemma feedback_forwarded:
  assumes "live_ok w" and "b \<in> w_blocks w" and "w_pcs w pc = Some self" and "pc_sessionManager self = Some sm"
    and "pc_remoteStream self = Some sid" and "w_streams w sid = Some s" and "length data < 2 ^ 31"
    and "IsStun data (int (length data)) = Inr False" and "IsRTCP data (int (length data)) = Inr False"
    and "RTPPacket_Parse (RTPPacket_new (env_rtp0 env) (env_now_ms env)) data (int (length data)) = Inr (p, ok)"
    and "GetExtensionId sm ExtTransportCC = Some i" and "GetTransportCCNum p i = Inr (Some n)"
    and "length (env_fb_mem env) = 1200" and "even_window (env_now_us env)"
  shows "\<exists>w1 fb. OnSocketData env pc b data (int (length data)) rmt w = Inr w1 \<and> live_ok w1 \<and> sends w w1 \<and>
    take 16 fb = [0x8F, 205, 0, 5, 0, 0, 0, 0] @ be_bytes 4 (rtp_ssrc p) @ be_bytes 2 n @ [0, 1] \<and> length fb = 24 \<and>
    total_reqs w1 = total_reqs (note_remote env pc rmt w) +
      {#\<lparr>req_pc = pc, req_block = w_next w, req_bytes = fb, req_dest = Some rmt\<rparr>#} +
      mset (map (forward_req (note_remote env pc rmt w) b data) (live_sinks w s))"
proof -
  let ?w = "note_remote env pc rmt w"
  let ?self = "self\<lparr>pc_lastRemote := Some rmt, pc_lastPacketRecvTimeMS := env_now_ms env\<rparr>"
  let ?p = "feedback_for (env_fbc0 env) (rtp_ssrc p) n (env_now_us env)"
  have st: "w_pcs ?w pc = Some ?self" "w_streams ?w sid = Some s" "w_next ?w = w_next w" "sends w ?w"
    using assms(3,6) by (simp_all add: note_remote_def w_pcs_upd_pc sends_refl)
  have nb: "b \<in> w_blocks ?w" using assms(2) by (simp add: note_remote_def)
  note bytes = feedback_for_bytes [OF assms(14), of "env_fbc0 env" "rtp_ssrc p" n]
  have "\<exists>rest. RTCPRTPFeedbackPacket_Serialize (env_fb_mem env) ?p = Inr (enc_fb ?p @ rest, int (length (enc_fb ?p)))"
    by (rule fb.ser_enc [OF feedback_for_ready [OF assms(14)] assms(13)])
  then obtain rest where ser: "RTCPRTPFeedbackPacket_Serialize (env_fb_mem env) ?p = Inr (enc_fb ?p @ rest, 24)"
    using bytes(1) by auto
  have recv: "OnRecvRTP (env_fb_mem env) (env_fbc0 env) (env_ssrc0 env) True (env_now_us env) sm p = Inr (Some (enc_fb ?p @ rest, 24))"
    by (simp add: OnRecvRTP_def AddPacket_eq [OF assms(11,12)] OnRTCP_def ser)
  have "feedback_reqs ?w pc ?self (Some (enc_fb ?p @ rest, 24)) = {#\<lparr>req_pc = pc, req_block = w_next w, req_bytes = enc_fb ?p, req_dest = Some rmt\<rparr>#}"
    using bytes(1) by (simp add: feedback_reqs_def st(3))
  with handle_RTP_eq [OF live_ok_note [OF assms(1)] nb st(1) _ _ st(2) assms(7,10) recv] assms(4,5) bytes(1)
  obtain w1 where w1: "handleIncomingRTPData env pc b data (int (length data)) ?w = Inr w1" "live_ok w1" "sends ?w w1"
      "total_reqs w1 = total_reqs ?w + {#\<lparr>req_pc = pc, req_block = w_next w, req_bytes = enc_fb ?p, req_dest = Some rmt\<rparr>#} +
        mset (map (forward_req ?w b data) (live_sinks w s))"
    by auto
  have "OnSocketData env pc b data (int (length data)) rmt w = Inr w1"
    using w1(1) assms(3) OnSocketData_RTP [OF _ assms(8,9)] by simp
  then show ?thesis using bytes w1(2,4) sends_trans [OF st(4) w1(3)] by (intro exI [of _ w1] exI [of _ "enc_fb ?p"]) auto
qed

text \<open>In an odd window computing the feedback overflows, and the handler does not get further.\<close>

lemma feedback_overflows:
  assumes "w_pcs w pc = Some self" and "pc_sessionManager self = Some sm"
    and "IsStun data (int (length data)) = Inr False" and "IsRTCP data (int (length data)) = Inr False"
    and "RTPPacket_Parse (RTPPacket_new (env_rtp0 env) (env_now_ms env)) data (int (length data)) = Inr (p, ok)"
    and "GetExtensionId sm ExtTransportCC = Some i" and "GetTransportCCNum p i = Inr (Some n)"
    and "length (env_fb_mem env) = 1200" and "odd (uint (env_now_us env) div tcc_window)"
  shows "OnSocketData env pc b data (int (length data)) rmt w = Inl SignedOverflow"
proof -
  have "handleIncomingRTPData env pc b data (int (length data)) (note_remote env pc rmt w) = Inl SignedOverflow"
    using assms(1,2,5,9) by (simp add: handleIncomingRTPData_def note_remote_def w_pcs_upd_pc OnRecvRTP_def
        AddPacket_eq [OF assms(6,7)] odd_window_overflow [OF assms(8)])
  then show ?thesis using assms(1) OnSocketData_RTP [OF _ assms(3,4)] by simp
qed

text \<open>
  C1. The media path end to end: a datagram that parses as an RTP packet with a transport-wide
  number arrives on a connection that negotiated the extension. What happens depends on the
  clock, counted in windows of \<open>2 ^ 29\<close> milliseconds (6.2 days). In an even window (time zero apart) the
  handler returns; the loops can be drained, and once they are, in whatever order but before
  any send completes, the connection has handed libuv one feedback datagram of 24 bytes for the
  sender's address, with the packet's source and number, and every live sink of its stream has
  handed libuv the datagram, unchanged and exactly once, for its own \<open>lastRemote_\<close>; nothing else
  has been handed over but what was pending, and exactly what libuv accepts is in flight. In an odd
  window computing the feedback overflows a signed integer and the packet is not forwarded at
  all.
\<close>

theorem media_path:
  assumes "live_ok w" and "b \<in> w_blocks w" and "w_pcs w pc = Some self" and "pc_sessionManager self = Some sm"
    and "pc_remoteStream self = Some sid" and "w_streams w sid = Some s" and "length data < 2 ^ 31"
    and "IsStun data (int (length data)) = Inr False" and "IsRTCP data (int (length data)) = Inr False"
    and "RTPPacket_Parse (RTPPacket_new (env_rtp0 env) (env_now_ms env)) data (int (length data)) = Inr (p, ok)"
    and "GetExtensionId sm ExtTransportCC = Some i" and "GetTransportCCNum p i = Inr (Some n)"
    and "length (env_fb_mem env) = 1200"
  shows "(even_window (env_now_us env) \<longrightarrow> (\<exists>w1 fb. OnSocketData env pc b data (int (length data)) rmt w = Inr w1 \<and>
      take 16 fb = [0x8F, 205, 0, 5, 0, 0, 0, 0] @ be_bytes 4 (rtp_ssrc p) @ be_bytes 2 n @ [0, 1] \<and> length fb = 24 \<and>
      (\<forall>ks. \<exists>w2. run_schedule ks w1 = Inr w2 \<and> sends w w2 \<and> (pending (w_pool w2) = {#} \<longrightarrow> mset (w_sent w2) =
          total_reqs (note_remote env pc rmt w) +
          {#\<lparr>req_pc = pc, req_block = w_next w, req_bytes = fb, req_dest = Some rmt\<rparr>#} +
          mset (map (forward_req (note_remote env pc rmt w) b data) (live_sinks w s)))) \<and>
      (\<exists>ks w2. length ks = size (pending (w_pool w1)) \<and> run_schedule ks w1 = Inr w2 \<and> pending (w_pool w2) = {#}))) \<and>
    (odd (uint (env_now_us env) div tcc_window) \<longrightarrow>
      OnSocketData env pc b data (int (length data)) rmt w = Inl SignedOverflow)"
proof (intro conjI impI)
  assume "even_window (env_now_us env)"
  from feedback_forwarded [OF assms this] obtain w1 fb where w1:
      "OnSocketData env pc b data (int (length data)) rmt w = Inr w1" "live_ok w1" "sends w w1"
      "take 16 fb = [0x8F, 205, 0, 5, 0, 0, 0, 0] @ be_bytes 4 (rtp_ssrc p) @ be_bytes 2 n @ [0, 1]" "length fb = 24"
      "total_reqs w1 = total_reqs (note_remote env pc rmt w) +
        {#\<lparr>req_pc = pc, req_block = w_next w, req_bytes = fb, req_dest = Some rmt\<rparr>#} +
        mset (map (forward_req (note_remote env pc rmt w) b data) (live_sinks w s))"
    by blast
  have "\<exists>w2. run_schedule ks w1 = Inr w2 \<and> sends w w2 \<and> (pending (w_pool w2) = {#} \<longrightarrow> mset (w_sent w2) = total_reqs w1)" for ks
    using run_schedule_eq [OF w1(2), of ks] sends_trans [OF w1(3)] total_reqs_drained by metis
  with w1 drain [OF w1(2)] show "\<exists>w1 fb. OnSocketData env pc b data (int (length data)) rmt w = Inr w1 \<and>
      take 16 fb = [0x8F, 205, 0, 5, 0, 0, 0, 0] @ be_bytes 4 (rtp_ssrc p) @ be_bytes 2 n @ [0, 1] \<and> length fb = 24 \<and>
      (\<forall>ks. \<exists>w2. run_schedule ks w1 = Inr w2 \<and> sends w w2 \<and> (pending (w_pool w2) = {#} \<longrightarrow> mset (w_sent w2) =
          total_reqs (note_remote env pc rmt w) +
          {#\<lparr>req_pc = pc, req_block = w_next w, req_bytes = fb, req_dest = Some rmt\<rparr>#} +
          mset (map (forward_req (note_remote env pc rmt w) b data) (live_sinks w s)))) \<and>
      (\<exists>ks w2. length ks = size (pending (w_pool w1)) \<and> run_schedule ks w1 = Inr w2 \<and> pending (w_pool w2) = {#})"
    by (intro exI [of _ w1] exI [of _ fb]) simp
next
  assume "odd (uint (env_now_us env) div tcc_window)"
  then show "OnSocketData env pc b data (int (length data)) rmt w = Inl SignedOverflow"
    by (rule feedback_overflows [OF assms(3,4,8-13)])
qed

definition sample_tcc :: bytes where
  "sample_tcc = [0x90, 96, 0, 1, 0, 0, 0, 9, 0, 0, 0, 42, 0xBE, 0xDE, 0, 1, 0x31, 0, 7, 0]"

definition tcc_world :: world where
  "tcc_world = upd_pc 1 (\<lambda>self. self\<lparr>pc_sessionManager := Some (fst (SetExtensions (RTPSessionManager_new 0) [(3, transport_cc_uri)]))\<rparr>) sample_world"

lemma sample_tcc_parse:
  "case RTPPacket_Parse (RTPPacket_new zero_rtp 100) sample_tcc 20 of Inl _ \<Rightarrow> False
   | Inr (p, ok) \<Rightarrow> rtp_ssrc p = 42 \<and> GetTransportCCNum p 3 = Inr (Some 7)"
  by code_simp

lemma tcc_world_facts:
  "live_ok tcc_world"
  "w_pcs tcc_world 1 = Some ((sample_pc ''p'')\<lparr>pc_sessionManager := Some (fst (SetExtensions (RTPSessionManager_new 0) [(3, transport_cc_uri)]))\<rparr>)"
  "w_streams tcc_world 5 = Some \<lparr>ms_sinks = [(''q'', 2), (''r'', 3)], ms_audioSSRC = 0, ms_videoSSRC = 42\<rparr>"
  "live_sinks tcc_world \<lparr>ms_sinks = [(''q'', 2), (''r'', 3)], ms_audioSSRC = 0, ms_videoSSRC = 42\<rparr> = [2, 3]"
  "w_next tcc_world = 1" "w_sent tcc_world = []" "pending (w_pool tcc_world) = {#}" "0 \<in> w_blocks tcc_world"
proof -
  have "world_ok tcc_world" unfolding tcc_world_def by (rule ok_upd_same [OF live_ok_world [OF sample_world_ok]]) simp
  then show "live_ok tcc_world" by (simp add: live_ok_def) (simp add: tcc_world_def sample_facts(10))
  show "0 \<in> w_blocks tcc_world" by (simp add: tcc_world_def sample_facts(11))
  show "w_pcs tcc_world 1 = Some ((sample_pc ''p'')\<lparr>pc_sessionManager := Some (fst (SetExtensions (RTPSessionManager_new 0) [(3, transport_cc_uri)]))\<rparr>)"
    by (simp add: tcc_world_def w_pcs_upd_pc sample_facts(1) del: SetExtensions.simps One_nat_def)
  show "live_sinks tcc_world \<lparr>ms_sinks = [(''q'', 2), (''r'', 3)], ms_audioSSRC = 0, ms_videoSSRC = 42\<rparr> = [2, 3]"
    by (simp add: tcc_world_def live_sinks_def sink_alive_def w_pcs_upd_pc) (simp add: sample_world_def)
qed (simp_all add: tcc_world_def sample_facts, simp add: sample_world_def)

theorem media_path_witness:
  "\<exists>w1 ks w2. OnSocketData sample_env 1 0 sample_tcc 20 sample_addr tcc_world = Inr w1 \<and>
    run_schedule ks w1 = Inr w2 \<and> mset (map req_pc (w_sent w2)) = {#1, 2, 3#}"
proof -
  let ?n = "note_remote sample_env 1 sample_addr tcc_world"
  let ?s = "\<lparr>ms_sinks = [(''q'', 2), (''r'', 3)], ms_audioSSRC = 0, ms_videoSSRC = 42\<rparr>"
  have len: "int (length sample_tcc) = 20" by (simp add: sample_tcc_def)
  have env: "env_rtp0 sample_env = zero_rtp" "env_now_ms sample_env = 100" "env_now_us sample_env = 1000" "length (env_fb_mem sample_env) = 1200"
    by (simp_all add: sample_env_def)
  obtain p ok where p: "RTPPacket_Parse (RTPPacket_new (env_rtp0 sample_env) (env_now_ms sample_env)) sample_tcc (int (length sample_tcc)) = Inr (p, ok)"
      "GetTransportCCNum p 3 = Inr (Some 7)"
    using sample_tcc_parse unfolding len env by (auto split: sum.splits)
  have kind: "length sample_tcc < 2 ^ 31" "IsStun sample_tcc (int (length sample_tcc)) = Inr False" "IsRTCP sample_tcc (int (length sample_tcc)) = Inr False"
    unfolding len by (simp_all add: sample_tcc_def IsStun_def IsRTCP_def eq8_def)
  have ext: "GetExtensionId (fst (SetExtensions (RTPSessionManager_new 0) [(3, transport_cc_uri)])) ExtTransportCC = Some 3"
    by (simp add: GetExtensionId_negotiated Let_def del: SetExtensions.simps)
  have even: "even_window (env_now_us sample_env)" by (simp add: env even_window_def tcc_window_def)
  have t: "total_reqs ?n = {#}" by (simp add: total_reqs_def note_remote_def tcc_world_facts)
  obtain w1 fb where w1: "OnSocketData sample_env 1 0 sample_tcc (int (length sample_tcc)) sample_addr tcc_world = Inr w1"
      "\<forall>ks. \<exists>w2. run_schedule ks w1 = Inr w2 \<and> sends tcc_world w2 \<and> (pending (w_pool w2) = {#} \<longrightarrow> mset (w_sent w2) = total_reqs ?n +
        {#\<lparr>req_pc = 1, req_block = w_next tcc_world, req_bytes = fb, req_dest = Some sample_addr\<rparr>#} +
        mset (map (forward_req ?n 0 sample_tcc) (live_sinks tcc_world ?s)))"
      "\<exists>ks w2. length ks = size (pending (w_pool w1)) \<and> run_schedule ks w1 = Inr w2 \<and> pending (w_pool w2) = {#}"
    using media_path [OF tcc_world_facts(1,8,2) _ _ tcc_world_facts(3) kind p(1) ext p(2) env(4), of sample_addr] even
    by (auto simp: sample_facts(3) simp del: SetExtensions.simps One_nat_def)
  obtain ks w2 where w2: "run_schedule ks w1 = Inr w2" "pending (w_pool w2) = {#}" using w1(3) by blast
  then have sent: "mset (w_sent w2) = {#\<lparr>req_pc = 1, req_block = w_next tcc_world, req_bytes = fb, req_dest = Some sample_addr\<rparr>#} +
      mset (map (forward_req ?n 0 sample_tcc) [2, 3])"
    using spec [OF w1(2) [unfolded t tcc_world_facts(4)], of ks] by (auto simp del: One_nat_def)
  have "mset (map req_pc (w_sent w2)) = {#1, 2, 3#}" unfolding mset_map sent by (simp add: forward_req_def)
  then show ?thesis using w1(1) w2(1) unfolding len by blast
qed

end
